(* ===== verification/Prelude.thy ===== *)
theory Prelude
  imports Main "HOL-Library.Word" "HOL-Library.Sublist"
begin

text \<open>
  Shared vocabulary of the development.

  \<^item> Machine integers: \<open>i32\<close>, \<open>u32\<close>, \<open>i64\<close>, \<open>u64\<close>, \<open>u8\<close> are words of the C++ width.
    Signed reading is \<open>sint\<close>, unsigned reading \<open>uint\<close>/\<open>unat\<close>. \<open>size_t\<close> counts of
    container elements are \<open>nat\<close>; where the code subtracts such counts a lemma shows that the
    subtraction does not go below zero.
  \<^item> Binder results: \<open>status\<close> is \<open>ndk::ScopedAStatus\<close>.
  \<^item> \<open>op_system\<close>: the interface of a component that is driven by a sequence of operations;
    an invariant kept by every operation holds after every run.
  \<^item> \<open>show_int\<close>: the \<open>%d\<close> conversion of \<open>printf\<close>, shown injective.
  \<^item> \<open>norm_shift\<close>, \<open>round_even\<close>: rounding to the 24-bit significand of \<open>float\<close>.
  \<^item> \<open>std::map<int32_t, V>\<close>: association lists kept in increasing signed key order,
    with the interface \<open>ordered_store\<close> and its interpretation.
\<close>

unbundle bit_operations_syntax

type_synonym u8 = "8 word"
type_synonym i32 = "32 word"
type_synonym u32 = "32 word"
type_synonym i64 = "64 word"
type_synonym u64 = "64 word"

datatype binder_exception = EX_SERVICE_SPECIFIC | EX_UNSUPPORTED_OPERATION | EX_ILLEGAL_STATE

datatype status = StatusOk | StatusException binder_exception

subsection \<open>Components driven by operations\<close>

locale op_system =
  fixes step :: "'s \<Rightarrow> 'e \<Rightarrow> 's"
    and inv :: "'s \<Rightarrow> bool"
  assumes step_inv: "inv s \<Longrightarrow> inv (step s e)"
begin

lemma run_inv: "inv s \<Longrightarrow> inv (foldl step s es)"
  by (induction es arbitrary: s) (auto intro: step_inv)

end

text \<open>
  A component that winds down in two turns: while \<open>ok\<close> holds and only allowed events happen, a
  rank goes down from at most two to zero, first with an event that finishes what is under way
  and then with one that leaves, in whatever company they come.
\<close>

locale winding_down =
  fixes step :: "'s \<Rightarrow> 'e \<Rightarrow> 's"
    and ok :: "'s \<Rightarrow> bool"
    and label :: "'e \<Rightarrow> 'l"
    and allowed :: "'l \<Rightarrow> bool"
    and finish leave :: 'l
    and rank :: "'s \<Rightarrow> nat"
  assumes ok_step: "ok s \<Longrightarrow> allowed (label e) \<Longrightarrow> ok (step s e)"
    and rank_step: "ok s \<Longrightarrow> allowed (label e) \<Longrightarrow> rank (step s e) \<le> rank s"
    and finishes: "ok s \<Longrightarrow> label e = finish \<Longrightarrow> rank (step s e) \<le> 1"
    and leaves: "ok s \<Longrightarrow> label e = leave \<Longrightarrow> rank s \<le> 1 \<Longrightarrow> rank (step s e) = 0"
begin

lemma rank_run:
  "ok s \<Longrightarrow> list_all allowed (map label es) \<Longrightarrow>
   ok (foldl step s es) \<and> rank (foldl step s es) \<le> rank s"
proof (induction es arbitrary: s)
  case (Cons e es)
  then have "ok (step s e)" "rank (step s e) \<le> rank s"
    using ok_step rank_step by auto
  then show ?case
    using Cons.IH[of "step s e"] Cons.prems(2) by auto
qed simp

lemma leave_run:
  "ok s \<Longrightarrow> list_all allowed (map label es) \<Longrightarrow> rank s \<le> 1 \<Longrightarrow> leave \<in> set (map label es) \<Longrightarrow>
   rank (foldl step s es) = 0"
proof (induction es arbitrary: s)
  case (Cons e es)
  have ok: "ok (step s e)" and le: "rank (step s e) \<le> 1"
    using Cons.prems ok_step[of s e] rank_step[of s e] by auto
  show ?case
  proof (cases "label e = leave")
    case True
    then have "rank (step s e) = 0" using leaves Cons.prems by blast
    then show ?thesis using rank_run[OF ok, of es] Cons.prems(2) by simp
  next
    case False
    then show ?thesis using Cons.IH[OF ok] Cons.prems le by auto
  qed
qed simp

lemma wound_down:
  "ok s \<Longrightarrow> list_all allowed (map label es) \<Longrightarrow> subseq [finish, leave] (map label es) \<Longrightarrow>
   rank (foldl step s es) = 0"
proof (induction es arbitrary: s)
  case (Cons e es)
  have ok: "ok (step s e)" using Cons.prems ok_step[of s e] by auto
  show ?case
  proof (cases "label e = finish")
    case True
    then have "rank (step s e) \<le> 1" using finishes Cons.prems(1) by blast
    moreover have "leave \<in> set (map label es)"
      using Cons.prems(3) True by (simp add: subseq_singleton_left)
    ultimately show ?thesis using leave_run[OF ok] Cons.prems(2) by simp
  next
    case False
    then show ?thesis using Cons.IH[OF ok] Cons.prems(2,3) by (simp add: subseq_Cons2_iff)
  qed
qed simp

end

subsection \<open>Decimal output\<close>

fun show_nat :: "nat \<Rightarrow> string" where
  "show_nat n = (if n < 10 then [char_of (48 + n)]
     else show_nat (n div 10) @ [char_of (48 + n mod 10)])"

declare show_nat.simps [simp del]

definition show_int :: "int \<Rightarrow> string" where
  "show_int i = (if i < 0 then CHR ''-'' # show_nat (nat (- i)) else show_nat (nat i))"

definition read_nat :: "string \<Rightarrow> nat" where
  "read_nat cs = foldl (\<lambda>a c. 10 * a + (of_char c - 48)) 0 cs"

lemma read_show_nat: "read_nat (show_nat n) = n"
proof (induction n rule: show_nat.induct)
  case (1 n)
  show ?case
  proof (cases "n < 10")
    case True
    then show ?thesis by (simp add: show_nat.simps[of n] read_nat_def)
  next
    case False
    with 1 show ?thesis by (simp add: show_nat.simps[of n] read_nat_def)
  qed
qed

lemma show_nat_not_minus: "CHR ''-'' \<notin> set (show_nat n)"
proof (induction n rule: show_nat.induct)
  case (1 n)
  have digit: "char_of (48 + d) \<noteq> CHR ''-''" if "d < 10" for d :: nat
  proof
    assume "char_of (48 + d) = CHR ''-''"
    then have "of_char (char_of (48 + d)) = (of_char (CHR ''-'') :: nat)"
      by (rule arg_cong)
    with that show False by simp
  qed
  show ?case
  proof (cases "n < 10")
    case True
    with digit[of n] show ?thesis by (simp add: show_nat.simps[of n])
  next
    case False
    with 1 digit[of "n mod 10"] show ?thesis by (simp add: show_nat.simps[of n])
  qed
qed

lemma show_nat_inj: "show_nat m = show_nat n \<longleftrightarrow> m = n"
  by (metis read_show_nat)

lemma show_int_inj: "show_int i = show_int j \<longleftrightarrow> i = j"
  using show_nat_not_minus
  by (auto simp: show_int_def show_nat_inj dest: arg_cong[where f = set] split: if_splits)
    (metis list.set_intros(1))+

subsection \<open>Rounding to binary32\<close>

text \<open>
  \<open>norm_shift n\<close> is the number of low bits a 24-bit significand cannot hold, \<open>round_even n sh\<close>
  rounds \<open>n\<close> to a multiple of \<open>2^sh\<close>, to nearest with ties to even.
\<close>

fun norm_shift :: "nat \<Rightarrow> nat" where
  "norm_shift n = (if n < 2 ^ 24 then 0 else Suc (norm_shift (n div 2)))"

declare norm_shift.simps [simp del]

definition round_even :: "nat \<Rightarrow> nat \<Rightarrow> nat" where
  "round_even n sh =
     (let q = n div 2 ^ sh; r = n mod 2 ^ sh in
      if 2 * r > 2 ^ sh \<or> (2 * r = 2 ^ sh \<and> odd q) then (q + 1) * 2 ^ sh else q * 2 ^ sh)"

text \<open>The conversion of a machine integer to \<open>float\<close>; the result is integral.\<close>

definition float_of_int :: "int \<Rightarrow> int" where
  "float_of_int i = sgn i * int (round_even (nat \<bar>i\<bar>) (norm_shift (nat \<bar>i\<bar>)))"

lemma float_of_int_exact: "\<bar>i\<bar> < 2 ^ 24 \<Longrightarrow> float_of_int i = i"
  by (simp add: float_of_int_def norm_shift.simps round_even_def nat_less_iff Let_def
      sgn_mult_abs)

subsection \<open>Ordered maps with signed 32-bit keys\<close>

type_synonym 'v omap = "(i32 \<times> 'v) list"

definition om_empty :: "'v omap" where
  "om_empty = []"

definition om_find :: "'v omap \<Rightarrow> i32 \<Rightarrow> 'v option" where
  "om_find m k = map_of m k"

fun om_put :: "i32 \<Rightarrow> 'v \<Rightarrow> 'v omap \<Rightarrow> 'v omap" where
  "om_put k v [] = [(k, v)]"
| "om_put k v ((a, b) # m) =
     (if k = a then (k, v) # m
      else if sint k < sint a then (k, v) # (a, b) # m
      else (a, b) # om_put k v m)"

definition om_erase :: "i32 \<Rightarrow> 'v omap \<Rightarrow> 'v omap" where
  "om_erase k m = filter (\<lambda>p. fst p \<noteq> k) m"

text \<open>\<open>operator[]\<close>: a missing key is inserted with the value-initialised element \<open>d\<close>.\<close>

definition om_index :: "'v \<Rightarrow> i32 \<Rightarrow> 'v omap \<Rightarrow> 'v \<times> 'v omap" where
  "om_index d k m = (case om_find m k of Some v \<Rightarrow> (v, m) | None \<Rightarrow> (d, om_put k d m))"

definition om_sorted :: "'v omap \<Rightarrow> bool" where
  "om_sorted m \<longleftrightarrow> sorted_wrt (\<lambda>a b. sint a < sint b) (map fst m)"

locale ordered_store =
  fixes empty :: "'m"
    and find :: "'m \<Rightarrow> 'k \<Rightarrow> 'v option"
    and put :: "'k \<Rightarrow> 'v \<Rightarrow> 'm \<Rightarrow> 'm"
    and erase :: "'k \<Rightarrow> 'm \<Rightarrow> 'm"
    and invar :: "'m \<Rightarrow> bool"
  assumes find_empty: "find empty = Map.empty"
    and find_put: "invar m \<Longrightarrow> find (put k v m) = (find m)(k \<mapsto> v)"
    and find_erase: "invar m \<Longrightarrow> find (erase k m) = (find m)(k := None)"
    and invar_empty: "invar empty"
    and invar_put: "invar m \<Longrightarrow> invar (put k v m)"
    and invar_erase: "invar m \<Longrightarrow> invar (erase k m)"
begin

lemma invar_puts: "invar m \<Longrightarrow> invar (foldl (\<lambda>m (k, v). put k v m) m kvs)"
  by (induction kvs arbitrary: m) (auto intro: invar_put)

lemma find_puts:
  "invar m \<Longrightarrow> find (foldl (\<lambda>m (k, v). put k v m) m kvs) = find m ++ map_of (rev kvs)"
proof (induction kvs arbitrary: m)
  case Nil
  then show ?case by simp
next
  case (Cons kv kvs)
  then show ?case
    by (cases kv) (simp add: invar_put find_put map_add_def fun_eq_iff split: option.splits)
qed

lemma find_puts_distinct:
  assumes "invar m" and "distinct (map fst kvs)" and "(k, v) \<in> set kvs"
  shows "find (foldl (\<lambda>m (k, v). put k v m) m kvs) k = Some v"
proof -
  have "map_of (rev kvs) k = Some v"
    using assms(2,3) by (simp add: rev_map[symmetric])
  then show ?thesis
    using assms(1) by (simp add: find_puts)
qed

end

lemma om_put_keys: "set (map fst (om_put k v m)) = insert k (set (map fst m))"
  by (induction k v m rule: om_put.induct) auto

lemma sint_neq: "k \<noteq> a \<Longrightarrow> sint k < sint a \<or> sint a < sint (k :: 'a::len word)"
  by (metis linorder_neqE signed_word_eqI)

lemma om_sorted_put: "om_sorted m \<Longrightarrow> om_sorted (om_put k v m)"
proof (induction k v m rule: om_put.induct)
  case (1 k v)
  then show ?case by (simp add: om_sorted_def)
next
  case (2 k v a b m)
  then show ?case
    using om_put_keys[of k v m] sint_neq[of k a]
    by (auto simp: om_sorted_def dest: less_trans)
qed

lemma om_find_put: "om_find (om_put k v m) = (om_find m)(k \<mapsto> v)"
  by (induction k v m rule: om_put.induct) (auto simp: om_find_def)

lemma om_find_erase: "om_find (om_erase k m) = (om_find m)(k := None)"
  by (induction m) (auto simp: om_find_def om_erase_def fun_eq_iff)

lemma om_sorted_erase: "om_sorted m \<Longrightarrow> om_sorted (om_erase k m)"
  by (induction m) (auto simp: om_sorted_def om_erase_def)

lemma om_sorted_distinct: "om_sorted m \<Longrightarrow> distinct (map fst m)"
  by (induction m) (auto simp: om_sorted_def)

lemma om_find_mem: "om_sorted m \<Longrightarrow> om_find m k = Some v \<longleftrightarrow> (k, v) \<in> set m"
  using map_of_eq_Some_iff[OF om_sorted_distinct] by (simp add: om_find_def)

interpretation om: ordered_store om_empty om_find om_put om_erase om_sorted
proof unfold_locales
  show "om_find om_empty = Map.empty"
    by (simp add: om_find_def om_empty_def fun_eq_iff)
  show "om_sorted om_empty"
    by (simp add: om_sorted_def om_empty_def)
qed (simp_all add: om_find_put om_find_erase om_sorted_put om_sorted_erase)

end
