(* ===== verification/Ltpo.thy ===== *)
theory Ltpo
  imports Prelude
begin

text \<open>
  The LTPO control HAL (\<^verbatim>\<open>src/aidl/display/ltpo/LtpoControl.{h,cpp}\<close>).

  The record \<open>ltpo\<close> is the class \<open>LtpoControl\<close>; its last field \<open>panel\<close> lists the skip-frame
  indices the kernel node has accepted, oldest first, so that the driver's belief \<open>mCurrentHz\<close>
  can be compared with what the panel was told. What a call reads from outside (the steady
  clock, the property \<open>persist.sys.sfm.mode\<close>, the result of \<open>pwrite\<close>) is the record
  \<open>ltpo_env\<close>. Times are nanoseconds of the steady clock. Rates are \<open>int\<close>: they are only
  compared, never computed with, so a 32-bit width cannot matter.
\<close>

subsection \<open>State and constants\<close>

type_synonym sfm_step = "int \<times> int"

definition kSteps :: "sfm_step list" where
  "kSteps = [(1, 11), (10, 10), (24, 9), (30, 8), (60, 7), (120, 16)]"

definition kBoostHold :: int where
  "kBoostHold = 200 * 1000000"

record ltpo =
  mSfmFd :: int
  mEnabled :: bool
  mCurrentHz :: int
  mBoostUntil :: int
  panel :: "int list"

record ltpo_env =
  clock_now :: int
  sfm_mode_prop :: string
  pwrite_ok :: bool

subsection \<open>Operations\<close>

definition LtpoControl :: "int \<Rightarrow> ltpo" where
  "LtpoControl fd =
     \<lparr>mSfmFd = fd, mEnabled = (\<not> fd < 0), mCurrentHz = 120, mBoostUntil = 0, panel = []\<rparr>"

definition writeSfm :: "ltpo_env \<Rightarrow> int \<Rightarrow> ltpo \<Rightarrow> bool \<times> ltpo" where
  "writeSfm env index s =
     (if mSfmFd s < 0 then (False, s)
      else if \<not> pwrite_ok env then (False, s)
      else (True, s\<lparr>panel := panel s @ [index]\<rparr>))"

definition LtpoControl_destroy :: "ltpo_env \<Rightarrow> ltpo \<Rightarrow> ltpo" where
  "LtpoControl_destroy env s =
     (if mSfmFd s \<ge> 0 then (snd (writeSfm env (snd (kSteps ! 5)) s))\<lparr>mSfmFd := -1\<rparr> else s)"

text \<open>\<open>GetProperty(key, "idle")\<close>: an unset property reads as the empty string.\<close>

definition isVrrMode :: "ltpo_env \<Rightarrow> bool" where
  "isVrrMode env = ((if sfm_mode_prop env = [] then ''idle'' else sfm_mode_prop env) = ''vrr'')"

definition setEnabled :: "ltpo_env \<Rightarrow> bool \<Rightarrow> ltpo \<Rightarrow> status \<times> ltpo" where
  "setEnabled env enabled s =
     (let s = s\<lparr>mEnabled := enabled\<rparr> in
      if \<not> enabled then
        (case writeSfm env (snd (kSteps ! 5)) s of
           (ok, s) \<Rightarrow> (StatusOk, if ok then s\<lparr>mCurrentHz := 120\<rparr> else s))
      else (StatusOk, s))"

text \<open>The search loop of \<open>setTargetHz\<close>: the first step at or above the target, or the default.\<close>

fun best_step :: "int \<Rightarrow> sfm_step \<Rightarrow> sfm_step list \<Rightarrow> sfm_step" where
  "best_step targetHz best [] = best"
| "best_step targetHz best (step # steps) =
     (if fst step \<ge> targetHz then step else best_step targetHz best steps)"

text \<open>
  The three stages of \<open>setTargetHz\<close>: the clamp of idle-only mode, the touch boost (which
  returns the target to use and the state with the hold window), and the step change.
\<close>

definition clampTarget :: "ltpo_env \<Rightarrow> int \<Rightarrow> int" where
  "clampTarget env targetHz =
     (if \<not> isVrrMode env then (if targetHz \<le> 1 then 1 else 120) else targetHz)"

definition touchBoost :: "ltpo_env \<Rightarrow> int \<Rightarrow> ltpo \<Rightarrow> int \<times> ltpo" where
  "touchBoost env targetHz s =
     (let now = clock_now env in
      if targetHz \<ge> 120 then (targetHz, s\<lparr>mBoostUntil := now + kBoostHold\<rparr>)
      else if now < mBoostUntil s then (120, s)
      else (targetHz, s))"

definition changeStep :: "ltpo_env \<Rightarrow> sfm_step \<Rightarrow> ltpo \<Rightarrow> ltpo" where
  "changeStep env best s =
     (if mCurrentHz s \<noteq> fst best then
        (case writeSfm env (snd best) s of
           (ok, s) \<Rightarrow> if ok then s\<lparr>mCurrentHz := fst best\<rparr> else s)
      else s)"

definition setTargetHz :: "ltpo_env \<Rightarrow> int \<Rightarrow> ltpo \<Rightarrow> status \<times> int \<times> ltpo" where
  "setTargetHz env targetHz s =
     (if \<not> mEnabled s then (StatusOk, 120, s)
      else
        let (targetHz, s) = touchBoost env (clampTarget env targetHz) s;
            best = best_step targetHz (120, snd (kSteps ! 5)) kSteps
        in (StatusOk, fst best, changeStep env best s))"

definition onIdle :: "ltpo_env \<Rightarrow> ltpo \<Rightarrow> status \<times> ltpo" where
  "onIdle env s = (case setTargetHz env 1 s of (st, actual, s) \<Rightarrow> (st, s))"

definition onActive :: "ltpo_env \<Rightarrow> ltpo \<Rightarrow> status \<times> ltpo" where
  "onActive env s = (case setTargetHz env 120 s of (st, actual, s) \<Rightarrow> (st, s))"

definition getCurrentHz :: "ltpo \<Rightarrow> status \<times> int" where
  "getCurrentHz s = (StatusOk, mCurrentHz s)"

definition getSupportedHz :: "status \<times> int list" where
  "getSupportedHz = (StatusOk, map fst kSteps)"

subsection \<open>Runs\<close>

datatype ltpo_call = CallSetEnabled bool | CallSetTargetHz int | CallOnIdle | CallOnActive

fun ltpo_step :: "ltpo \<Rightarrow> ltpo_env \<times> ltpo_call \<Rightarrow> ltpo" where
  "ltpo_step s (env, CallSetEnabled b) = snd (setEnabled env b s)"
| "ltpo_step s (env, CallSetTargetHz hz) = snd (snd (setTargetHz env hz s))"
| "ltpo_step s (env, CallOnIdle) = snd (onIdle env s)"
| "ltpo_step s (env, CallOnActive) = snd (onActive env s)"

text \<open>
  The specification of the rate choice: the least supported rate that is at least the target,
  and full rate when the target exceeds them all.
\<close>

definition rate_spec :: "int \<Rightarrow> int" where
  "rate_spec targetHz =
     (let S = {hz \<in> set (map fst kSteps). targetHz \<le> hz} in if S = {} then 120 else Min S)"

text \<open>The rate the panel runs at after the writes it accepted; a fresh panel runs at 120 Hz.\<close>

definition sfm_rate :: "int \<Rightarrow> int" where
  "sfm_rate index = (case map_of (map prod.swap kSteps) index of Some hz \<Rightarrow> hz | None \<Rightarrow> 120)"

definition panel_rate :: "ltpo \<Rightarrow> int" where
  "panel_rate s = (if panel s = [] then 120 else sfm_rate (last (panel s)))"

definition ltpo_inv :: "ltpo \<Rightarrow> bool" where
  "ltpo_inv s \<longleftrightarrow> mCurrentHz s = panel_rate s \<and> mCurrentHz s \<in> set (map fst kSteps)"

subsection \<open>Lemmas\<close>

lemma best_step_kSteps:
  "best_step t (120, 16) kSteps =
     (if t \<le> 1 then (1, 11) else if t \<le> 10 then (10, 10) else if t \<le> 24 then (24, 9)
      else if t \<le> 30 then (30, 8) else if t \<le> 60 then (60, 7) else (120, 16))"
  by (simp add: kSteps_def)

lemma kSteps_5 [simp]: "kSteps ! 5 = (120, 16)"
  by (simp add: kSteps_def)

lemma best_step_in: "best_step t (120, 16) kSteps \<in> set kSteps"
  by (simp only: best_step_kSteps) (simp add: kSteps_def)

lemma sfm_rate_step: "(hz, idx) \<in> set kSteps \<Longrightarrow> sfm_rate idx = hz"
  by (auto simp: sfm_rate_def kSteps_def)

lemma best_step_ge_120: "t \<ge> 120 \<Longrightarrow> best_step t (120, 16) kSteps = (120, 16)"
  by (simp add: best_step_kSteps)

lemma writeSfm_cases:
  obtains (failed) "writeSfm env i s = (False, s)"
  | (written) "writeSfm env i s = (True, s\<lparr>panel := panel s @ [i]\<rparr>)"
  unfolding writeSfm_def by metis

lemma ltpo_inv_written:
  "(hz, idx) \<in> set kSteps \<Longrightarrow> ltpo_inv (s\<lparr>panel := p @ [idx], mCurrentHz := hz\<rparr>)"
  by (auto simp: ltpo_inv_def panel_rate_def sfm_rate_step intro: rev_image_eqI)

lemma ltpo_inv_frame [simp]:
  "ltpo_inv (s\<lparr>mBoostUntil := b\<rparr>) = ltpo_inv s"
  "ltpo_inv (s\<lparr>mEnabled := e\<rparr>) = ltpo_inv s"
  by (simp_all add: ltpo_inv_def panel_rate_def)

lemma setEnabled_inv: "ltpo_inv s \<Longrightarrow> ltpo_inv (snd (setEnabled env b s))"
  using ltpo_inv_written[of 120 16]
  by (cases rule: writeSfm_cases[of env 16 "s\<lparr>mEnabled := b\<rparr>"])
    (auto simp: setEnabled_def Let_def kSteps_def)

lemma changeStep_inv:
  assumes "ltpo_inv s" and "best \<in> set kSteps"
  shows "ltpo_inv (changeStep env best s)"
  using assms ltpo_inv_written[of "fst best" "snd best" "panel s" s]
  by (cases rule: writeSfm_cases[of env "snd best" s]) (simp_all add: changeStep_def)

lemma touchBoost_inv: "ltpo_inv s \<Longrightarrow> ltpo_inv (snd (touchBoost env t s))"
  by (simp add: touchBoost_def Let_def)

lemma setTargetHz_inv: "ltpo_inv s \<Longrightarrow> ltpo_inv (snd (snd (setTargetHz env hz s)))"
  using touchBoost_inv[of s env "clampTarget env hz"]
  by (auto simp: setTargetHz_def Let_def intro!: changeStep_inv best_step_in split: prod.splits)

lemma ltpo_step_inv: "ltpo_inv s \<Longrightarrow> ltpo_inv (ltpo_step s ec)"
  using setTargetHz_inv[of s]
  by (cases "(s, ec)" rule: ltpo_step.cases)
    (simp_all add: onIdle_def onActive_def setEnabled_inv setTargetHz_inv split_beta)

interpretation ltpo_runs: op_system ltpo_step ltpo_inv
  by unfold_locales (rule ltpo_step_inv)

lemma best_step_rate_spec: "fst (best_step t (120, 16) kSteps) = rate_spec t"
proof -
  consider "t \<le> 1" | "1 < t" "t \<le> 10" | "10 < t" "t \<le> 24" | "24 < t" "t \<le> 30"
    | "30 < t" "t \<le> 60" | "60 < t" "t \<le> 120" | "120 < t" by linarith
  then show ?thesis
  proof cases
    case 1
    then have "{hz \<in> set (map fst kSteps). t \<le> hz} = {1, 10, 24, 30, 60, 120}"
      by (auto simp: kSteps_def)
    with 1 show ?thesis by (simp add: rate_spec_def best_step_kSteps)
  next
    case 2
    then have "{hz \<in> set (map fst kSteps). t \<le> hz} = {10, 24, 30, 60, 120}"
      by (auto simp: kSteps_def)
    with 2 show ?thesis by (simp add: rate_spec_def best_step_kSteps)
  next
    case 3
    then have "{hz \<in> set (map fst kSteps). t \<le> hz} = {24, 30, 60, 120}"
      by (auto simp: kSteps_def)
    with 3 show ?thesis by (simp add: rate_spec_def best_step_kSteps)
  next
    case 4
    then have "{hz \<in> set (map fst kSteps). t \<le> hz} = {30, 60, 120}"
      by (auto simp: kSteps_def)
    with 4 show ?thesis by (simp add: rate_spec_def best_step_kSteps)
  next
    case 5
    then have "{hz \<in> set (map fst kSteps). t \<le> hz} = {60, 120}"
      by (auto simp: kSteps_def)
    with 5 show ?thesis by (simp add: rate_spec_def best_step_kSteps)
  next
    case 6
    then have "{hz \<in> set (map fst kSteps). t \<le> hz} = {120}"
      by (auto simp: kSteps_def)
    with 6 show ?thesis by (simp add: rate_spec_def best_step_kSteps)
  next
    case 7
    then have "{hz \<in> set (map fst kSteps). t \<le> hz} = {}"
      by (auto simp: kSteps_def)
    with 7 show ?thesis by (simp add: rate_spec_def best_step_kSteps)
  qed
qed

subsection \<open>The hold window\<close>

text \<open>
  \<open>boosted t0 s\<close>: the driver is enabled, and the hold window reaches at least to \<open>t0\<close>.
\<close>

definition boosted :: "int \<Rightarrow> ltpo \<Rightarrow> bool" where
  "boosted t0 s \<longleftrightarrow> mEnabled s \<and> t0 \<le> mBoostUntil s"

definition in_window :: "int \<Rightarrow> int \<Rightarrow> ltpo_env \<times> ltpo_call \<Rightarrow> bool" where
  "in_window t1 t0 ec \<longleftrightarrow>
     t1 \<le> clock_now (fst ec) \<and> clock_now (fst ec) < t0 \<and> (\<forall>b. snd ec \<noteq> CallSetEnabled b)"

lemma writeSfm_frame [simp]:
  "mEnabled (snd (writeSfm env i s)) = mEnabled s"
  "mBoostUntil (snd (writeSfm env i s)) = mBoostUntil s"
  "mSfmFd (snd (writeSfm env i s)) = mSfmFd s"
  "mCurrentHz (snd (writeSfm env i s)) = mCurrentHz s"
  by (simp_all add: writeSfm_def)

lemma changeStep_frame [simp]:
  "mEnabled (changeStep env best s) = mEnabled s"
  "mBoostUntil (changeStep env best s) = mBoostUntil s"
  by (simp_all add: changeStep_def split_beta)

text \<open>In the window a request only ever asks the panel for the full-rate step.\<close>

lemma boosted_setTargetHz_eq:
  assumes "boosted t0 s" and "clock_now env < t0" and "t0 \<le> clock_now env + kBoostHold"
  obtains b where "t0 \<le> b"
    and "setTargetHz env hz s = (StatusOk, 120, changeStep env (120, 16) (s\<lparr>mBoostUntil := b\<rparr>))"
proof (cases "clampTarget env hz \<ge> 120")
  case True
  with assms show ?thesis
    by (intro that[of "clock_now env + kBoostHold"])
      (simp_all add: boosted_def setTargetHz_def touchBoost_def Let_def best_step_ge_120)
next
  case False
  with assms show ?thesis
    by (intro that[of "mBoostUntil s"])
      (simp_all add: boosted_def setTargetHz_def touchBoost_def Let_def best_step_ge_120)
qed

lemma changeStep_same: "mCurrentHz s = fst best \<Longrightarrow> changeStep env best s = s"
  by (simp add: changeStep_def)

lemma boosted_setTargetHz:
  assumes "boosted t0 s" and "clock_now env < t0" and "t0 \<le> clock_now env + kBoostHold"
  shows "fst (snd (setTargetHz env hz s)) = 120"
    and "boosted t0 (snd (snd (setTargetHz env hz s)))"
    and "mCurrentHz s = 120 \<longrightarrow>
      mCurrentHz (snd (snd (setTargetHz env hz s))) = 120 \<and>
      panel (snd (snd (setTargetHz env hz s))) = panel s"
proof -
  obtain b where b: "t0 \<le> b"
      "setTargetHz env hz s = (StatusOk, 120, changeStep env (120, 16) (s\<lparr>mBoostUntil := b\<rparr>))"
    using boosted_setTargetHz_eq[OF assms] .
  show "fst (snd (setTargetHz env hz s)) = 120"
    by (simp add: b(2))
  show "boosted t0 (snd (snd (setTargetHz env hz s)))"
    using assms(1) b(1) by (simp add: b(2) boosted_def)
  show "mCurrentHz s = 120 \<longrightarrow>
      mCurrentHz (snd (snd (setTargetHz env hz s))) = 120 \<and>
      panel (snd (snd (setTargetHz env hz s))) = panel s"
    by (simp add: b(2) changeStep_same)
qed

text \<open>A call inside the window is a request for some rate.\<close>

lemma in_window_request:
  assumes "in_window t1 t0 ec"
  obtains hz where "ltpo_step s ec = snd (snd (setTargetHz (fst ec) hz s))"
  using assms
  by (cases "(s, ec)" rule: ltpo_step.cases)
    (auto simp: in_window_def onIdle_def onActive_def split_beta)

lemma boosted_step:
  assumes "boosted t0 s" and "in_window t1 t0 ec" and "t0 \<le> t1 + kBoostHold"
  shows "boosted t0 (ltpo_step s ec)"
    and "mCurrentHz s = 120 \<longrightarrow>
      mCurrentHz (ltpo_step s ec) = 120 \<and> panel (ltpo_step s ec) = panel s"
proof -
  obtain hz where eq: "ltpo_step s ec = snd (snd (setTargetHz (fst ec) hz s))"
    using in_window_request[OF assms(2)] .
  have t: "clock_now (fst ec) < t0" "t0 \<le> clock_now (fst ec) + kBoostHold"
    using assms(2,3) by (auto simp: in_window_def)
  show "boosted t0 (ltpo_step s ec)"
    unfolding eq by (rule boosted_setTargetHz(2)[OF assms(1) t])
  show "mCurrentHz s = 120 \<longrightarrow>
      mCurrentHz (ltpo_step s ec) = 120 \<and> panel (ltpo_step s ec) = panel s"
    unfolding eq by (rule boosted_setTargetHz(3)[OF assms(1) t])
qed

lemma boosted_run:
  assumes "boosted t0 s" and "\<forall>ec \<in> set ecs. in_window t1 t0 ec" and "t0 \<le> t1 + kBoostHold"
  shows "boosted t0 (foldl ltpo_step s ecs) \<and>
    (mCurrentHz s = 120 \<longrightarrow> panel (foldl ltpo_step s ecs) = panel s)"
  using assms
proof (induction ecs arbitrary: s)
  case Nil
  then show ?case by simp
next
  case (Cons ec ecs)
  then have "boosted t0 (ltpo_step s ec)"
    using boosted_step(1) by (metis list.set_intros(1))
  moreover have "mCurrentHz s = 120 \<longrightarrow>
      mCurrentHz (ltpo_step s ec) = 120 \<and> panel (ltpo_step s ec) = panel s"
    using Cons.prems boosted_step(2) by (metis list.set_intros(1))
  ultimately show ?case
    using Cons by auto
qed

subsection \<open>Properties\<close>


text \<open>
  C30. The driver's belief matches the panel: after any sequence of calls on a fresh HAL, with
  any pattern of failed kernel writes, the rate it reports is the rate of the last step the
  panel accepted, and it is a supported one.
\<close>

theorem ltpo_tracks_panel:
  "mCurrentHz (foldl ltpo_step (LtpoControl fd) ecs) =
     panel_rate (foldl ltpo_step (LtpoControl fd) ecs) \<and>
   snd (getCurrentHz (foldl ltpo_step (LtpoControl fd) ecs)) \<in> set (snd getSupportedHz)"
proof -
  have "ltpo_inv (LtpoControl fd)"
    by (simp add: ltpo_inv_def LtpoControl_def panel_rate_def kSteps_def)
  then have "ltpo_inv (foldl ltpo_step (LtpoControl fd) ecs)"
    by (rule ltpo_runs.run_inv)
  then show ?thesis
    unfolding ltpo_inv_def getCurrentHz_def getSupportedHz_def snd_conv by blast
qed


definition ltpo_example_env :: "int \<Rightarrow> ltpo_env" where
  "ltpo_example_env t = \<lparr>clock_now = t, sfm_mode_prop = ''vrr'', pwrite_ok = True\<rparr>"


end
