(* ===== verification/Charging.thy ===== *)
theory Charging
  imports Prelude
begin

text \<open>
  The charging control HAL (\<^verbatim>\<open>src/health/ChargingControl.{h,cpp}\<close>).

  The HAL keeps no state of its own: its state is what the two kernel nodes hold. The record
  \<open>charging_nodes\<close> is the last value each node accepted; \<open>charging_env\<close> is what the outside
  decides: whether a write is accepted, what a read of the USB node shows for the value it holds
  (\<open>None\<close> when the read fails), the \<open>Trim\<close> of libbase, and the AIDL constant for the toggle
  mode.
\<close>

record charging_nodes =
  usb_charger_en :: string
  wls_en :: string

record charging_env =
  usb_write_ok :: bool
  wls_write_ok :: bool
  usb_show :: "string \<Rightarrow> string option"
  Trim :: "string \<Rightarrow> string"
  TOGGLE :: int

definition kUsbChargingEnabledPath :: string where
  "kUsbChargingEnabledPath = ''/sys/class/qcom-battery/usb_charger_en''"

definition kWlsChargingEnabledPath :: string where
  "kWlsChargingEnabledPath = ''/sys/class/qcom-battery/wls_en''"

text \<open>The out parameter is assigned on success only.\<close>

definition getChargingEnabled :: "charging_env \<Rightarrow> charging_nodes \<Rightarrow> status \<times> bool option" where
  "getChargingEnabled env s =
     (case usb_show env (usb_charger_en s) of
        None \<Rightarrow> (StatusException EX_ILLEGAL_STATE, None)
      | Some content \<Rightarrow> (StatusOk, Some (Trim env content = ''1'')))"

definition setChargingEnabled ::
  "charging_env \<Rightarrow> bool \<Rightarrow> charging_nodes \<Rightarrow> status \<times> charging_nodes" where
  "setChargingEnabled env enabled s =
     (let val = (if enabled then ''1'' else ''0'');
          usbOk = usb_write_ok env;
          s = (if usbOk then s\<lparr>usb_charger_en := val\<rparr> else s);
          wlsOk = wls_write_ok env;
          s = (if wlsOk then s\<lparr>wls_en := val\<rparr> else s)
      in (if usbOk \<or> wlsOk then StatusOk else StatusException EX_ILLEGAL_STATE, s))"

definition setChargingDeadline :: "i64 \<Rightarrow> status" where
  "setChargingDeadline deadline = StatusException EX_UNSUPPORTED_OPERATION"

definition getChargingDeadline :: status where
  "getChargingDeadline = StatusException EX_UNSUPPORTED_OPERATION"

definition getChargingLimit :: status where
  "getChargingLimit = StatusException EX_UNSUPPORTED_OPERATION"

definition setChargingLimit :: "'limit \<Rightarrow> status" where
  "setChargingLimit limit = StatusException EX_UNSUPPORTED_OPERATION"

definition getSupportedMode :: "charging_env \<Rightarrow> status \<times> int" where
  "getSupportedMode env = (StatusOk, TOGGLE env)"

text \<open>\<open>dump\<close> starts from \<open>false\<close> and ignores the status of the read.\<close>

definition dump :: "charging_env \<Rightarrow> charging_nodes \<Rightarrow> string" where
  "dump env s =
     (let enabled = (case snd (getChargingEnabled env s) of None \<Rightarrow> False | Some b \<Rightarrow> b);
          eol = [CHR 0x0A]
      in ''Charging enabled: '' @ (if enabled then ''true'' else ''false'') @ eol @
         ''Supported mode: TOGGLE'' @ eol @
         ''USB node: '' @ kUsbChargingEnabledPath @ eol @
         ''WLS node: '' @ kWlsChargingEnabledPath @ eol)"

subsection \<open>Properties\<close>

text \<open>
  Charging control reads back what was set, provided the USB node accepted the write and,
  as sysfs nodes do, shows the value it holds up to surrounding white space.
\<close>

theorem setChargingEnabled_roundtrip:
  assumes "usb_write_ok env"
    and "\<And>v. \<exists>content. usb_show env v = Some content \<and> Trim env content = v"
  shows "fst (setChargingEnabled env b s) = StatusOk \<and>
    getChargingEnabled env (snd (setChargingEnabled env b s)) = (StatusOk, Some b)"
  using assms(1) assms(2)[of "if b then ''1'' else ''0''"]
  by (auto simp: setChargingEnabled_def getChargingEnabled_def Let_def split: if_splits)

definition charging_example_env :: charging_env where
  "charging_example_env =
     \<lparr>usb_write_ok = True, wls_write_ok = False, usb_show = (\<lambda>v. Some (v @ [CHR 0x0A])),
      Trim = (\<lambda>c. if c \<noteq> [] \<and> last c = CHR 0x0A then butlast c else c), TOGGLE = 1\<rparr>"

theorem setChargingEnabled_roundtrip_witness:
  "getChargingEnabled charging_example_env
     (snd (setChargingEnabled charging_example_env True
        \<lparr>usb_charger_en = ''0'', wls_en = ''0''\<rparr>)) = (StatusOk, Some True)"
  using setChargingEnabled_roundtrip[of charging_example_env True
      "\<lparr>usb_charger_en = ''0'', wls_en = ''0''\<rparr>"]
  by (simp add: charging_example_env_def)


end
