(* ===== verification/Vibrator.thy ===== *)
theory Vibrator
  imports Prelude
begin

text \<open>
  The vibrator HAL (\<^verbatim>\<open>src/aidl/vibrator/Vibrator.{h,cpp}\<close>).

  The AAC haptics library is not part of the repository: the calls made to it are recorded in
  order in \<open>aac_log\<close>, and its answers are the record \<open>vib_env\<close>, as are the steady clock
  and the numbers of the AIDL enumerators (\<open>effect_enum\<close>). A completion callback runs in a
  detached thread after \<open>usleep(ret * 1000)\<close>; \<open>completions\<close> lists the delays of the threads
  started, at their 32-bit width. \<open>sLastMode\<close>, \<open>sLastPerformMs\<close> and \<open>sRapidPerformCount\<close>
  are the file-level variables of the source.
\<close>

subsection \<open>State, constants and the outside\<close>

datatype vibrationMode = MODE_NONE | MODE_TIMEOUT | MODE_PREBAKED | MODE_STREAM

datatype aac_call =
    AacInit
  | AacLooperStart
  | AacSetAmplitude u8
  | AacLooperStopPerformHe
  | AacOff
  | AacLooperPrebakedEffect u32 int
  | AacLooperOn u32

record vib =
  sLastMode :: vibrationMode
  sLastPerformMs :: int
  sRapidPerformCount :: i32
  aac_log :: "aac_call list"
  completions :: "u32 list"

record vib_env =
  nowMs :: int
  aac_init_ret :: int
  aac_off_ret :: int
  aac_setAmplitude_ret :: "u8 \<Rightarrow> int"
  aac_looper_prebaked_ret :: "u32 \<Rightarrow> int \<Rightarrow> int"
  aac_looper_on_ret :: "u32 \<Rightarrow> int"

record effect_enum =
  CLICK :: int
  DOUBLE_CLICK :: int
  TICK :: int
  THUD :: int
  POP :: int
  HEAVY_CLICK :: int

datatype EffectStrength = LIGHT | MEDIUM | STRONG | OtherStrength int

definition RICHTAP_LIGHT_STRENGTH :: int where "RICHTAP_LIGHT_STRENGTH = 69"

definition RICHTAP_MEDIUM_STRENGTH :: int where "RICHTAP_MEDIUM_STRENGTH = 100"

definition RICHTAP_STRONG_STRENGTH :: int where "RICHTAP_STRONG_STRENGTH = 150"

definition RAPID_PERFORM_WINDOW_MS :: int where "RAPID_PERFORM_WINDOW_MS = 100"

definition RAPID_PERFORM_DRAIN_AFTER :: int where "RAPID_PERFORM_DRAIN_AFTER = 3"

definition SHORT_PULSE_THRESHOLD_MS :: int where "SHORT_PULSE_THRESHOLD_MS = 30"

definition vib_init :: vib where
  "vib_init = \<lparr>sLastMode = MODE_NONE, sLastPerformMs = 0, sRapidPerformCount = 0,
     aac_log = [], completions = []\<rparr>"

definition aac :: "aac_call \<Rightarrow> vib \<Rightarrow> vib" where
  "aac c s = s\<lparr>aac_log := aac_log s @ [c]\<rparr>"

definition service_specific :: status where
  "service_specific = StatusException EX_SERVICE_SPECIFIC"

definition unsupported :: status where
  "unsupported = StatusException EX_UNSUPPORTED_OPERATION"

text \<open>The detached completion thread, started only for a caller that passed a callback.\<close>

definition start_completion :: "bool \<Rightarrow> int \<Rightarrow> vib \<Rightarrow> vib" where
  "start_completion callback ret s =
     (if callback then s\<lparr>completions := completions s @ [word_of_int (ret * 1000)]\<rparr> else s)"

subsection \<open>Operations\<close>

definition Vibrator_ctor :: "vib_env \<Rightarrow> vib \<Rightarrow> vib" where
  "Vibrator_ctor env s =
     (let s = aac AacInit s in
      if aac_init_ret env \<noteq> 0 then s
      else aac (AacSetAmplitude 0x7F) (aac AacLooperStart s))"

definition off :: "vib_env \<Rightarrow> vib \<Rightarrow> status \<times> vib" where
  "off env s =
     (let s = aac AacLooperStopPerformHe s;
          s = aac AacOff s
      in if aac_off_ret env \<noteq> 0 then (service_specific, s) else (StatusOk, s))"

definition looper_on :: "vib_env \<Rightarrow> i32 \<Rightarrow> bool \<Rightarrow> vib \<Rightarrow> status \<times> vib" where
  "looper_on env timeoutMs callback s =
     (let ret = aac_looper_on_ret env timeoutMs;
          s = aac (AacLooperOn timeoutMs) s
      in if ret < 0 then (service_specific, s)
         else (StatusOk, (start_completion callback ret s)\<lparr>sLastMode := MODE_TIMEOUT\<rparr>))"

definition on :: "vib_env \<Rightarrow> i32 \<Rightarrow> bool \<Rightarrow> vib \<Rightarrow> status \<times> vib" where
  "on env timeoutMs callback s =
     (if sint timeoutMs > 0 \<and> sint timeoutMs \<le> SHORT_PULSE_THRESHOLD_MS then
        (let ret = aac_looper_prebaked_ret env 0x3007 RICHTAP_STRONG_STRENGTH;
             s = aac (AacLooperPrebakedEffect 0x3007 RICHTAP_STRONG_STRENGTH) s
         in if ret \<ge> 0
            then (StatusOk, (start_completion callback ret s)\<lparr>sLastMode := MODE_PREBAKED\<rparr>)
            else looper_on env timeoutMs callback s)
      else looper_on env timeoutMs callback s)"

definition mapEffectToPrebakedId :: "effect_enum \<Rightarrow> int \<Rightarrow> EffectStrength \<Rightarrow> u32 option" where
  "mapEffectToPrebakedId E effect strength =
     (if effect = CLICK E then
        Some (case strength of LIGHT \<Rightarrow> 0x3003 | MEDIUM \<Rightarrow> 0x3008 | STRONG \<Rightarrow> 0x3007 | _ \<Rightarrow> 0x3008)
      else if effect = DOUBLE_CLICK E then Some 0x1001
      else if effect = TICK E \<or> effect = THUD E \<or> effect = POP E then Some 0x3003
      else if effect = HEAVY_CLICK E then Some 0x3007
      else Some (word_of_int effect + 0x1000))"

fun strength_of :: "EffectStrength \<Rightarrow> int option" where
  "strength_of LIGHT = Some RICHTAP_LIGHT_STRENGTH"
| "strength_of MEDIUM = Some RICHTAP_MEDIUM_STRENGTH"
| "strength_of STRONG = Some RICHTAP_STRONG_STRENGTH"
| "strength_of (OtherStrength _) = None"

text \<open>The rapid-sequence cancel: exchange the time stamp, count or reset, drain from the third on.\<close>

definition rapid_cancel :: "vib_env \<Rightarrow> vib \<Rightarrow> vib" where
  "rapid_cancel env s =
     (let now = nowMs env;
          last = sLastPerformMs s;
          s = s\<lparr>sLastPerformMs := now\<rparr>
      in if now - last < RAPID_PERFORM_WINDOW_MS then
           (let old = sRapidPerformCount s;
                s = s\<lparr>sRapidPerformCount := old + 1\<rparr>
            in if sint old + 1 \<ge> RAPID_PERFORM_DRAIN_AFTER then aac AacLooperStopPerformHe s else s)
         else s\<lparr>sRapidPerformCount := 0\<rparr>)"

definition perform ::
  "effect_enum \<Rightarrow> vib_env \<Rightarrow> int \<Rightarrow> EffectStrength \<Rightarrow> bool \<Rightarrow> vib \<Rightarrow> status \<times> int option \<times> vib" where
  "perform E env effect es callback s =
     (if effect < CLICK E \<or> effect > HEAVY_CLICK E then (unsupported, None, s)
      else case strength_of es of
        None \<Rightarrow> (unsupported, None, s)
      | Some strength \<Rightarrow>
          let s = (if sLastMode s = MODE_STREAM then aac (AacSetAmplitude 0xFF) s else s) in
          (case mapEffectToPrebakedId E effect es of
             None \<Rightarrow> (unsupported, None, s)
           | Some mappedEffect \<Rightarrow>
               let s = rapid_cancel env s;
                   ret = aac_looper_prebaked_ret env mappedEffect strength;
                   s = aac (AacLooperPrebakedEffect mappedEffect strength) s
               in if ret < 0 then (service_specific, None, s)
                  else (StatusOk, Some ret,
                        (start_completion callback ret s)\<lparr>sLastMode := MODE_PREBAKED\<rparr>)))"

text \<open>
  \<open>(uint8_t)(amplitude * 0xff)\<close> on a finite binary32 number \<open>(-1)^neg * man * 2^ex\<close> with
  \<open>man < 2^24\<close>: the product is rounded to 24 bits, to nearest with ties to even, then truncated.
  Converting a value outside the range of \<open>uint8_t\<close> is undefined behaviour: \<open>None\<close>.
\<close>

record float32 =
  neg :: bool
  man :: nat
  ex :: int

definition mul_0xff :: "nat \<Rightarrow> nat" where
  "mul_0xff m = round_even (m * 255) (norm_shift (m * 255))"

definition truncate :: "nat \<Rightarrow> int \<Rightarrow> nat" where
  "truncate m e = (if e \<ge> 0 then m * 2 ^ nat e else m div 2 ^ nat (- e))"

definition amplitude_to_u8 :: "float32 \<Rightarrow> u8 option" where
  "amplitude_to_u8 a =
     (let t = truncate (mul_0xff (man a)) (ex a) in
      if neg a then (if t = 0 then Some 0 else None)
      else if t < 256 then Some (word_of_nat t) else None)"

definition setAmplitude :: "vib_env \<Rightarrow> float32 \<Rightarrow> vib \<Rightarrow> (status \<times> vib) option" where
  "setAmplitude env amplitude s =
     (case amplitude_to_u8 amplitude of
        None \<Rightarrow> None
      | Some tmp \<Rightarrow>
          let ret = aac_setAmplitude_ret env tmp;
              s = aac (AacSetAmplitude tmp) s
          in Some (if ret \<noteq> 0 then (service_specific, s)
                   else (StatusOk, s\<lparr>sLastMode := MODE_STREAM\<rparr>)))"

definition getSupportedEffects :: "effect_enum \<Rightarrow> status \<times> int list" where
  "getSupportedEffects E =
     (StatusOk, [CLICK E, DOUBLE_CLICK E, TICK E, THUD E, POP E, HEAVY_CLICK E])"

definition getCapabilities :: "i32 \<Rightarrow> i32 \<Rightarrow> i32 \<Rightarrow> status \<times> i32" where
  "getCapabilities CAP_ON_CALLBACK CAP_PERFORM_CALLBACK CAP_AMPLITUDE_CONTROL =
     (StatusOk, CAP_ON_CALLBACK OR CAP_PERFORM_CALLBACK OR CAP_AMPLITUDE_CONTROL)"

text \<open>The rest of \<open>IVibrator\<close> is refused; \<open>getSupportedPrimitives\<close> leaves the list it was given.\<close>

definition setExternalControl :: "bool \<Rightarrow> status" where
  "setExternalControl enabled = unsupported"

definition getSupportedPrimitives :: "'p list \<Rightarrow> status \<times> 'p list" where
  "getSupportedPrimitives supported = (StatusOk, supported)"

datatype refused_call =
    getCompositionDelayMax | getCompositionSizeMax | getPrimitiveDuration | compose
  | getSupportedAlwaysOnEffects | alwaysOnEnable | alwaysOnDisable | getResonantFrequency
  | getQFactor | getFrequencyResolution | getFrequencyMinimum | getBandwidthAmplitudeMap
  | getPwlePrimitiveDurationMax | getPwleCompositionSizeMax | getSupportedBraking | composePwle

definition refused :: "refused_call \<Rightarrow> status" where
  "refused c = unsupported"

subsection \<open>Lemmas on single calls\<close>

text \<open>What one \<open>perform\<close> of an accepted effect sends to the library.\<close>

definition drains :: "vib_env \<Rightarrow> vib \<Rightarrow> bool" where
  "drains env s \<longleftrightarrow>
     nowMs env - sLastPerformMs s < RAPID_PERFORM_WINDOW_MS \<and>
     sint (sRapidPerformCount s) + 1 \<ge> RAPID_PERFORM_DRAIN_AFTER"

lemma start_completion_frame [simp]:
  "sLastMode (start_completion cb r s) = sLastMode s"
  "sLastPerformMs (start_completion cb r s) = sLastPerformMs s"
  "sRapidPerformCount (start_completion cb r s) = sRapidPerformCount s"
  "aac_log (start_completion cb r s) = aac_log s"
  by (simp_all add: start_completion_def)

lemma aac_simps [simp]:
  "sLastMode (aac c s) = sLastMode s"
  "sLastPerformMs (aac c s) = sLastPerformMs s"
  "sRapidPerformCount (aac c s) = sRapidPerformCount s"
  "completions (aac c s) = completions s"
  "aac_log (aac c s) = aac_log s @ [c]"
  by (simp_all add: aac_def)

lemma rapid_cancel_simps [simp]:
  "sLastMode (rapid_cancel env s) = sLastMode s"
  "sLastPerformMs (rapid_cancel env s) = nowMs env"
  "completions (rapid_cancel env s) = completions s"
  "aac_log (rapid_cancel env s) =
     aac_log s @ (if drains env s then [AacLooperStopPerformHe] else [])"
  "sRapidPerformCount (rapid_cancel env s) =
     (if nowMs env - sLastPerformMs s < RAPID_PERFORM_WINDOW_MS
      then sRapidPerformCount s + 1 else 0)"
  by (simp_all add: rapid_cancel_def drains_def Let_def)

lemma drains_aac [simp]: "drains env (aac c s) = drains env s"
  by (simp add: drains_def)

lemma mapEffect_Some: "\<exists>i. mapEffectToPrebakedId E effect es = Some i"
  by (simp add: mapEffectToPrebakedId_def)

definition accepted :: "effect_enum \<Rightarrow> int \<Rightarrow> EffectStrength \<Rightarrow> bool" where
  "accepted E effect es \<longleftrightarrow>
     CLICK E \<le> effect \<and> effect \<le> HEAVY_CLICK E \<and> strength_of es \<noteq> None"

lemma accepted_args:
  assumes "accepted E effect es"
  obtains i st where "mapEffectToPrebakedId E effect es = Some i" and "strength_of es = Some st"
  using assms mapEffect_Some[of E effect es] by (auto simp: accepted_def)

lemma perform_refused:
  "\<not> accepted E effect es \<Longrightarrow> perform E env effect es cb s = (unsupported, None, s)"
  by (auto simp: perform_def accepted_def)

lemma perform_log:
  assumes "accepted E effect es"
  shows "aac_log (snd (snd (perform E env effect es cb s))) =
    aac_log s @ (if sLastMode s = MODE_STREAM then [AacSetAmplitude 0xFF] else []) @
    (if drains env s then [AacLooperStopPerformHe] else []) @
    [AacLooperPrebakedEffect (the (mapEffectToPrebakedId E effect es)) (the (strength_of es))]"
proof -
  obtain i st where "mapEffectToPrebakedId E effect es = Some i" and "strength_of es = Some st"
    using accepted_args[OF assms] .
  with assms show ?thesis
    by (simp add: perform_def accepted_def Let_def)
qed

lemma perform_clock:
  assumes "accepted E effect es"
  shows "sLastPerformMs (snd (snd (perform E env effect es cb s))) = nowMs env"
    and "sRapidPerformCount (snd (snd (perform E env effect es cb s))) =
      (if nowMs env - sLastPerformMs s < RAPID_PERFORM_WINDOW_MS
       then sRapidPerformCount s + 1 else 0)"
proof -
  obtain i st where "mapEffectToPrebakedId E effect es = Some i" and "strength_of es = Some st"
    using accepted_args[OF assms] .
  with assms show "sLastPerformMs (snd (snd (perform E env effect es cb s))) = nowMs env"
    and "sRapidPerformCount (snd (snd (perform E env effect es cb s))) =
      (if nowMs env - sLastPerformMs s < RAPID_PERFORM_WINDOW_MS
       then sRapidPerformCount s + 1 else 0)"
    by (simp_all add: perform_def accepted_def Let_def)
qed

subsection \<open>Bursts of performs\<close>

type_synonym perform_args = "vib_env \<times> int \<times> EffectStrength \<times> bool"

fun perform_all :: "effect_enum \<Rightarrow> vib \<Rightarrow> perform_args list \<Rightarrow> vib" where
  "perform_all E s [] = s"
| "perform_all E s ((env, effect, es, cb) # calls) =
     perform_all E (snd (snd (perform E env effect es cb s))) calls"

text \<open>Accepted calls, each less than the window after the one before it.\<close>

fun rapid_burst :: "effect_enum \<Rightarrow> int \<Rightarrow> perform_args list \<Rightarrow> bool" where
  "rapid_burst E t [] = True"
| "rapid_burst E t ((env, effect, es, cb) # calls) =
     (accepted E effect es \<and> nowMs env - t < RAPID_PERFORM_WINDOW_MS \<and>
      rapid_burst E (nowMs env) calls)"

definition stops :: "vib \<Rightarrow> nat" where
  "stops s = count_list (aac_log s) AacLooperStopPerformHe"

lemma stops_perform:
  "accepted E effect es \<Longrightarrow>
   stops (snd (snd (perform E env effect es cb s))) = stops s + (if drains env s then 1 else 0)"
  by (simp add: stops_def perform_log)

lemma sint_word_of_nat_32: "n < 2 ^ 31 \<Longrightarrow> sint (word_of_nat n :: i32) = int n"
  by (simp add: signed_of_nat signed_take_bit_int_eq_self)

lemma burst_stops:
  assumes "rapid_burst E (sLastPerformMs s) calls"
    and "sRapidPerformCount s = word_of_nat k" and "k + length calls < 2 ^ 31"
  shows "stops (perform_all E s calls) + (k - 2) = stops s + (k + length calls - 2)"
  using assms
proof (induction calls arbitrary: s k)
  case Nil
  then show ?case by simp
next
  case (Cons call calls)
  obtain env effect es cb where call: "call = (env, effect, es, cb)"
    by (cases call) auto
  let ?s = "snd (snd (perform E env effect es cb s))"
  have acc: "accepted E effect es" "nowMs env - sLastPerformMs s < RAPID_PERFORM_WINDOW_MS"
    using Cons.prems(1) by (auto simp: call)
  have k: "sint (sRapidPerformCount s) = int k"
    using Cons.prems(2,3) by (simp add: sint_word_of_nat_32)
  have d: "drains env s \<longleftrightarrow> k \<ge> 2"
    using acc(2) by (auto simp: drains_def k RAPID_PERFORM_DRAIN_AFTER_def)
  have "sRapidPerformCount ?s = word_of_nat (Suc k)"
    using Cons.prems(2) acc by (simp add: perform_clock)
  then have "stops (perform_all E ?s calls) + (Suc k - 2) = stops ?s + (Suc k + length calls - 2)"
    using Cons.prems acc by (intro Cons.IH) (simp_all add: call perform_clock)
  then show ?case
    using acc by (auto simp: call stops_perform d split: if_splits)
qed

subsection \<open>Amplitude\<close>

lemma norm_shift_le: "n < 2 ^ 24 \<or> 2 ^ (norm_shift n + 23) \<le> n"
proof (induction n rule: norm_shift.induct)
  case (1 n)
  show ?case
  proof (cases "n < 2 ^ 24")
    case False
    then have eq: "norm_shift n = Suc (norm_shift (n div 2))"
      by (simp add: norm_shift.simps[of n])
    from 1[OF False] have "2 ^ (norm_shift (n div 2) + 23) \<le> n div 2"
      using False by (auto simp: norm_shift.simps[of "n div 2"])
    then have "2 * 2 ^ (norm_shift (n div 2) + 23) \<le> n"
      by (simp add: less_eq_div_iff_mult_less_eq mult.commute)
    then show ?thesis by (simp add: eq power_add)
  qed simp
qed

lemma norm_shift_bound:
  assumes "n \<le> 255 * 2 ^ k" shows "norm_shift n \<le> k"
proof (cases "n < 2 ^ 24")
  case True
  then show ?thesis by (simp add: norm_shift.simps)
next
  case False
  then have "(2::nat) ^ (norm_shift n + 23) \<le> 255 * 2 ^ k"
    using norm_shift_le[of n] assms by simp
  also have "\<dots> < 2 ^ (k + 8)" by (simp add: power_add)
  finally have "norm_shift n + 23 < k + 8"
    using power_less_imp_less_exp by fastforce
  then show ?thesis by simp
qed

lemma div_low_bits: "sh \<le> k \<Longrightarrow> (n div 2 ^ sh * 2 ^ sh) div 2 ^ k = n div (2 ^ k :: nat)"
proof -
  assume "sh \<le> k"
  then have "(2::nat) ^ k = 2 ^ sh * 2 ^ (k - sh)"
    by (simp flip: power_add)
  then show ?thesis by (simp add: div_mult2_eq)
qed

lemma round_even_bounds:
  assumes "n \<le> 255 * 2 ^ k" and "sh \<le> k"
  shows "n div 2 ^ k \<le> round_even n sh div 2 ^ k"
    and "round_even n sh div 2 ^ k \<le> n div 2 ^ k + 1"
    and "round_even n sh div 2 ^ k \<le> 255"
proof -
  let ?q = "n div 2 ^ sh"
  have down: "?q * 2 ^ sh div 2 ^ k = n div 2 ^ k"
    using assms(2) by (rule div_low_bits)
  have le: "n div 2 ^ k \<le> 255"
    using assms(1) by (metis div_le_mono mult.commute nonzero_mult_div_cancel_left power_not_zero zero_neq_numeral)
  have up: "(?q + 1) * 2 ^ sh div 2 ^ k \<le> n div 2 ^ k + 1"
  proof -
    have "(?q + 1) * 2 ^ sh \<le> ?q * 2 ^ sh + 2 ^ k"
      using assms(2) by (simp add: power_increasing)
    then have "(?q + 1) * 2 ^ sh div 2 ^ k \<le> (?q * 2 ^ sh + 2 ^ k) div 2 ^ k"
      by (rule div_le_mono)
    then show ?thesis by (simp add: down div_add_self2)
  qed
  have top: "(?q + 1) * 2 ^ sh div 2 ^ k \<le> 255" if "n mod 2 ^ sh > 0"
  proof -
    have "?q * 2 ^ sh < 255 * 2 ^ k"
      using that assms(1) div_mult_mod_eq[of n "2 ^ sh"] by linarith
    moreover have "(2::nat) ^ k = 2 ^ (k - sh) * 2 ^ sh"
      using assms(2) by (simp flip: power_add)
    ultimately have "?q * 2 ^ sh < (255 * 2 ^ (k - sh)) * 2 ^ sh" by simp
    then have "?q < 255 * 2 ^ (k - sh)" by simp
    then have "(?q + 1) * 2 ^ sh \<le> 255 * 2 ^ (k - sh) * 2 ^ sh"
      by (metis Suc_eq_plus1 Suc_leI mult_le_mono1)
    then have "(?q + 1) * 2 ^ sh \<le> 255 * 2 ^ k"
      using \<open>2 ^ k = 2 ^ (k - sh) * 2 ^ sh\<close> by simp
    then have "(?q + 1) * 2 ^ sh div 2 ^ k \<le> 255 * 2 ^ k div 2 ^ k"
      by (rule div_le_mono)
    then show ?thesis by simp
  qed
  have mono: "n div 2 ^ k \<le> (?q + 1) * 2 ^ sh div 2 ^ k"
    using div_le_mono[of "?q * 2 ^ sh" "(?q + 1) * 2 ^ sh" "2 ^ k"] by (simp add: down)
  show "n div 2 ^ k \<le> round_even n sh div 2 ^ k"
    using mono by (simp add: round_even_def Let_def down)
  show "round_even n sh div 2 ^ k \<le> n div 2 ^ k + 1"
    using up by (simp add: round_even_def Let_def down)
  have "0 < n mod 2 ^ sh" if "2 * (n mod 2 ^ sh) \<ge> 2 ^ sh"
    using that by (metis gr0I mult_0_right not_le zero_less_numeral zero_less_power)
  then show "round_even n sh div 2 ^ k \<le> 255"
    using top le by (auto simp: round_even_def Let_def down)
qed

lemma perform_result:
  assumes "accepted E effect es"
    and "r = aac_looper_prebaked_ret env (the (mapEffectToPrebakedId E effect es))
      (the (strength_of es))"
  shows "fst (perform E env effect es cb s) = (if r < 0 then service_specific else StatusOk)"
    and "fst (snd (perform E env effect es cb s)) = (if r < 0 then None else Some r)"
    and "completions (snd (snd (perform E env effect es cb s))) =
      completions s @ (if r \<ge> 0 \<and> cb then [word_of_int (r * 1000)] else [])"
proof -
  obtain i st where "mapEffectToPrebakedId E effect es = Some i" and "strength_of es = Some st"
    using accepted_args[OF assms(1)] .
  with assms show "fst (perform E env effect es cb s) = (if r < 0 then service_specific else StatusOk)"
    and "fst (snd (perform E env effect es cb s)) = (if r < 0 then None else Some r)"
    and "completions (snd (snd (perform E env effect es cb s))) =
      completions s @ (if r \<ge> 0 \<and> cb then [word_of_int (r * 1000)] else [])"
    by (simp_all add: perform_def accepted_def Let_def start_completion_def)
qed

subsection \<open>Properties\<close>

text \<open>The AIDL numbers of the effects, as documented in \<^verbatim>\<open>android.hardware.vibrator.Effect\<close>.\<close>

definition aidl_effects :: "effect_enum \<Rightarrow> bool" where
  "aidl_effects E \<longleftrightarrow> CLICK E = 0 \<and> DOUBLE_CLICK E = 1 \<and> TICK E = 2 \<and> THUD E = 3 \<and>
     POP E = 4 \<and> HEAVY_CLICK E = 5"

definition aidl_enum :: effect_enum where
  "aidl_enum = \<lparr>CLICK = 0, DOUBLE_CLICK = 1, TICK = 2, THUD = 3, POP = 4, HEAVY_CLICK = 5\<rparr>"

definition vib_example_env :: "int \<Rightarrow> vib_env" where
  "vib_example_env t = \<lparr>nowMs = t, aac_init_ret = 0, aac_off_ret = 0,
     aac_setAmplitude_ret = (\<lambda>_. 0), aac_looper_prebaked_ret = (\<lambda>_ _. 18),
     aac_looper_on_ret = (\<lambda>_. 18)\<rparr>"

text \<open>
  Rapid-sequence cancel. A \<open>perform\<close> that opens a burst resets the counter; the next two
  calls of the burst do not touch the looper queue, and from the third on every call drains it
  exactly once. So a burst of \<open>n\<close> calls after the opening one drains \<open>n - 2\<close> times, as long
  as the 32-bit counter does not wrap.
\<close>

theorem rapid_burst_drains:
  assumes "accepted E effect es"
    and "nowMs env - sLastPerformMs s \<ge> RAPID_PERFORM_WINDOW_MS"
    and "rapid_burst E (nowMs env) calls" and "length calls < 2 ^ 31"
  shows "stops (perform_all E s ((env, effect, es, cb) # calls)) = stops s + (length calls - 2)"
proof -
  let ?s = "snd (snd (perform E env effect es cb s))"
  have "sRapidPerformCount ?s = word_of_nat 0"
    using assms(1,2) by (simp add: perform_clock)
  moreover have "rapid_burst E (sLastPerformMs ?s) calls"
    using assms(1,3) by (simp add: perform_clock)
  moreover have "stops ?s = stops s"
    using assms(1,2) by (simp add: stops_perform drains_def)
  ultimately show ?thesis
    using burst_stops[of E ?s calls 0] assms(4) by simp
qed

theorem rapid_burst_drains_witness:
  "stops (perform_all aidl_enum vib_init
     [(vib_example_env 1000, 0, LIGHT, False), (vib_example_env 1050, 0, LIGHT, False),
      (vib_example_env 1100, 2, LIGHT, False), (vib_example_env 1150, 0, LIGHT, True)]) = 1"
proof -
  have "accepted aidl_enum 0 LIGHT"
    by (simp add: accepted_def aidl_enum_def)
  moreover have "nowMs (vib_example_env 1000) - sLastPerformMs vib_init \<ge> RAPID_PERFORM_WINDOW_MS"
    by (simp add: vib_example_env_def vib_init_def RAPID_PERFORM_WINDOW_MS_def)
  moreover have "rapid_burst aidl_enum (nowMs (vib_example_env 1000))
      [(vib_example_env 1050, 0, LIGHT, False), (vib_example_env 1100, 2, LIGHT, False),
       (vib_example_env 1150, 0, LIGHT, True)]"
    by (simp add: vib_example_env_def accepted_def aidl_enum_def RAPID_PERFORM_WINDOW_MS_def)
  moreover have "stops vib_init = 0"
    by (simp add: stops_def vib_init_def)
  ultimately show ?thesis
    using rapid_burst_drains[of aidl_enum 0 LIGHT "vib_example_env 1000" vib_init
        "[(vib_example_env 1050, 0, LIGHT, False), (vib_example_env 1100, 2, LIGHT, False),
          (vib_example_env 1150, 0, LIGHT, True)]" False]
    by simp
qed

text \<open>
  Which performs are accepted: with the documented enumerators, a call is refused as
  unsupported exactly when the effect is not one of \<open>getSupportedEffects\<close> or the strength is
  unknown, and then nothing is sent to the library and no state changes. An accepted effect
  plays one of the four tuned patterns (the computed default of the mapping is never reached),
  and the three strengths of a click play three different patterns.
\<close>

theorem perform_supported_effects:
  assumes "aidl_effects E"
  shows "(fst (perform E env effect es cb s) = unsupported \<longleftrightarrow>
      effect \<notin> set (snd (getSupportedEffects E)) \<or> strength_of es = None) \<and>
    (fst (perform E env effect es cb s) = unsupported \<longrightarrow>
      perform E env effect es cb s = (unsupported, None, s)) \<and>
    (effect \<in> set (snd (getSupportedEffects E)) \<longrightarrow>
      the (mapEffectToPrebakedId E effect es) \<in> {0x3003, 0x3008, 0x3007, 0x1001}) \<and>
    distinct (map (mapEffectToPrebakedId E (CLICK E)) [LIGHT, MEDIUM, STRONG])"
proof -
  have range: "effect \<in> set (snd (getSupportedEffects E)) \<longleftrightarrow>
      CLICK E \<le> effect \<and> effect \<le> HEAVY_CLICK E"
    using assms by (auto simp: aidl_effects_def getSupportedEffects_def)
  have ok: "fst (perform E env effect es cb s) \<noteq> unsupported" if "accepted E effect es"
    using perform_result(1)[OF that refl, of env cb s]
    by (simp add: service_specific_def unsupported_def)
  have acc: "accepted E effect es \<longleftrightarrow>
      effect \<in> set (snd (getSupportedEffects E)) \<and> strength_of es \<noteq> None"
    by (auto simp: accepted_def range)
  have "the (mapEffectToPrebakedId E effect es) \<in> {0x3003, 0x3008, 0x3007, 0x1001}"
    if "effect \<in> set (snd (getSupportedEffects E))"
    using that by (auto simp: getSupportedEffects_def mapEffectToPrebakedId_def
        split: EffectStrength.splits)
  moreover have "distinct (map (mapEffectToPrebakedId E (CLICK E)) [LIGHT, MEDIUM, STRONG])"
    by (simp add: mapEffectToPrebakedId_def)
  ultimately show ?thesis
    using ok perform_refused[of E effect es env cb s] acc by (cases "accepted E effect es") auto
qed

theorem perform_supported_effects_witness:
  "fst (perform aidl_enum (vib_example_env 5) 6 LIGHT True vib_init) = unsupported \<and>
   fst (perform aidl_enum (vib_example_env 5) 5 LIGHT True vib_init) \<noteq> unsupported"
proof -
  have "aidl_effects aidl_enum"
    by (simp add: aidl_effects_def aidl_enum_def)
  note res = perform_supported_effects[OF this, of "vib_example_env 5" _ LIGHT True vib_init]
  show ?thesis
    using res[of 6] res[of 5] by (simp add: getSupportedEffects_def aidl_enum_def)
qed



text \<open>
  \<open>on\<close> and \<open>off\<close>. A pulse of 1 to 30 ms is first tried as the strong prebaked click and
  falls back to the plain looper only if that is refused; any other duration (zero and negative
  ones included) goes straight to the looper. The call succeeds exactly when one of the two was
  taken, and exactly then, and only for a caller with a callback, one completion is scheduled.
  \<open>off\<close> always drains the looper before it stops the motor, whatever the library answers.
\<close>

theorem on_off_behaviour:
  "let short = (0 < sint ms \<and> sint ms \<le> 30);
       pre = aac_looper_prebaked_ret env 0x3007 150;
       lop = aac_looper_on_ret env ms;
       redirected = (short \<and> pre \<ge> 0);
       res = (if redirected then pre else lop)
   in fst (on env ms cb s) = (if res < 0 then service_specific else StatusOk) \<and>
      completions (snd (on env ms cb s)) =
        completions s @ (if res \<ge> 0 \<and> cb then [word_of_int (res * 1000)] else []) \<and>
      aac_log (snd (on env ms cb s)) =
        aac_log s @ (if short then [AacLooperPrebakedEffect 0x3007 150] else []) @
          (if redirected then [] else [AacLooperOn ms]) \<and>
      sLastMode (snd (on env ms cb s)) =
        (if redirected then MODE_PREBAKED else if lop \<ge> 0 then MODE_TIMEOUT else sLastMode s) \<and>
      aac_log (snd (off env s)) = aac_log s @ [AacLooperStopPerformHe, AacOff] \<and>
      (fst (off env s) = StatusOk \<longleftrightarrow> aac_off_ret env = 0)"
  by (simp add: on_def off_def looper_on_def Let_def start_completion_def service_specific_def
      SHORT_PULSE_THRESHOLD_MS_def RICHTAP_STRONG_STRENGTH_def)

text \<open>
  C37. The amplitude conversion has no undefined behaviour on the documented range: for a float
  \<open>man * 2^-k\<close> between 0 and 1 the 8-bit value exists, is at most 255, and is the truncation of
  \<open>255 * amplitude\<close> or one more (when the rounded product reaches the next integer).
\<close>

theorem amplitude_conversion_bounds:
  assumes "\<not> neg a" and "ex a = - int k" and "man a \<le> 2 ^ k"
  shows "\<exists>t. amplitude_to_u8 a = Some t \<and> 255 * man a div 2 ^ k \<le> unat t \<and>
    unat t \<le> 255 * man a div 2 ^ k + 1"
proof -
  let ?n = "man a * 255"
  let ?t = "mul_0xff (man a) div 2 ^ k"
  have n: "?n \<le> 255 * 2 ^ k"
    using assms(3) by simp
  then have sh: "norm_shift ?n \<le> k"
    by (rule norm_shift_bound)
  note b = round_even_bounds[OF n sh, folded mul_0xff_def]
  have "truncate (mul_0xff (man a)) (ex a) = ?t"
    by (cases "k = 0") (simp_all add: truncate_def assms(2))
  then have "amplitude_to_u8 a = Some (word_of_nat ?t)"
    using assms(1) b(3) by (simp add: amplitude_to_u8_def Let_def)
  moreover have "unat (word_of_nat ?t :: u8) = ?t"
    using b(3) by (simp add: unat_of_nat)
  ultimately show ?thesis
    using b(1,2) by (auto simp: mult.commute)
qed

theorem amplitude_conversion_bounds_witness:
  "\<exists>t. amplitude_to_u8 \<lparr>neg = False, man = 1, ex = - int 0\<rparr> = Some t \<and> 255 \<le> unat t"
  using amplitude_conversion_bounds[of "\<lparr>neg = False, man = 1, ex = - int 0\<rparr>" 0] by auto

end
