(* ===== verification/FpVendor.thy ===== *)
theory FpVendor
  imports Prelude
begin

text \<open>
  The boundary between the legacy fingerprint module and the AIDL interface:
  \<^verbatim>\<open>src/fingerprint/include/fingerprint.h\<close> (messages and codes of the module),
  \<^verbatim>\<open>src/fingerprint/include/Legacy2Aidl.h\<close> (authentication tokens) and the two code filters of
  \<^verbatim>\<open>src/fingerprint/Session.cpp\<close>.

  The AIDL enums \<open>Error\<close> and \<open>AcquiredInfo\<close> are datatypes with the enumerators the source
  uses. Codes are \<open>int\<close> values of \<open>int32_t\<close>. The device is little endian, so the
  conversions to and from network order reverse the bytes of a word (\<open>bswap\<close>).
\<close>

subsection \<open>Codes and messages of the legacy module\<close>

definition FINGERPRINT_ERROR_HW_UNAVAILABLE :: int where "FINGERPRINT_ERROR_HW_UNAVAILABLE = 1"
definition FINGERPRINT_ERROR_UNABLE_TO_PROCESS :: int where "FINGERPRINT_ERROR_UNABLE_TO_PROCESS = 2"
definition FINGERPRINT_ERROR_TIMEOUT :: int where "FINGERPRINT_ERROR_TIMEOUT = 3"
definition FINGERPRINT_ERROR_NO_SPACE :: int where "FINGERPRINT_ERROR_NO_SPACE = 4"
definition FINGERPRINT_ERROR_CANCELED :: int where "FINGERPRINT_ERROR_CANCELED = 5"
definition FINGERPRINT_ERROR_UNABLE_TO_REMOVE :: int where "FINGERPRINT_ERROR_UNABLE_TO_REMOVE = 6"
definition FINGERPRINT_ERROR_LOCKOUT :: int where "FINGERPRINT_ERROR_LOCKOUT = 7"
definition FINGERPRINT_ERROR_VENDOR_BASE :: int where "FINGERPRINT_ERROR_VENDOR_BASE = 1000"

definition FINGERPRINT_ACQUIRED_GOOD :: int where "FINGERPRINT_ACQUIRED_GOOD = 0"
definition FINGERPRINT_ACQUIRED_PARTIAL :: int where "FINGERPRINT_ACQUIRED_PARTIAL = 1"
definition FINGERPRINT_ACQUIRED_INSUFFICIENT :: int where "FINGERPRINT_ACQUIRED_INSUFFICIENT = 2"
definition FINGERPRINT_ACQUIRED_IMAGER_DIRTY :: int where "FINGERPRINT_ACQUIRED_IMAGER_DIRTY = 3"
definition FINGERPRINT_ACQUIRED_TOO_SLOW :: int where "FINGERPRINT_ACQUIRED_TOO_SLOW = 4"
definition FINGERPRINT_ACQUIRED_TOO_FAST :: int where "FINGERPRINT_ACQUIRED_TOO_FAST = 5"
definition FINGERPRINT_ACQUIRED_DETECTED :: int where "FINGERPRINT_ACQUIRED_DETECTED = 6"
definition FINGERPRINT_ACQUIRED_VENDOR_BASE :: int where "FINGERPRINT_ACQUIRED_VENDOR_BASE = 1000"

lemmas fp_codes =
  FINGERPRINT_ERROR_HW_UNAVAILABLE_def FINGERPRINT_ERROR_UNABLE_TO_PROCESS_def
  FINGERPRINT_ERROR_TIMEOUT_def FINGERPRINT_ERROR_NO_SPACE_def FINGERPRINT_ERROR_CANCELED_def
  FINGERPRINT_ERROR_UNABLE_TO_REMOVE_def FINGERPRINT_ERROR_LOCKOUT_def
  FINGERPRINT_ERROR_VENDOR_BASE_def FINGERPRINT_ACQUIRED_GOOD_def FINGERPRINT_ACQUIRED_PARTIAL_def
  FINGERPRINT_ACQUIRED_INSUFFICIENT_def FINGERPRINT_ACQUIRED_IMAGER_DIRTY_def
  FINGERPRINT_ACQUIRED_TOO_SLOW_def FINGERPRINT_ACQUIRED_TOO_FAST_def
  FINGERPRINT_ACQUIRED_DETECTED_def FINGERPRINT_ACQUIRED_VENDOR_BASE_def

record fingerprint_finger_id =
  gid :: u32
  fid :: u32

record hw_auth_token_t =
  hat_challenge :: u64
  hat_user_id :: u64
  hat_authenticator_id :: u64
  hat_authenticator_type :: u32
  hat_timestamp :: u64
  hat_hmac :: "u8 list"

text \<open>\<open>fingerprint_msg_t\<close>: the tag with the union member it selects; other tags carry no data.\<close>

datatype fingerprint_msg =
    FINGERPRINT_ERROR int
  | FINGERPRINT_ACQUIRED int
  | FINGERPRINT_TEMPLATE_ENROLLING fingerprint_finger_id u32 u64
  | FINGERPRINT_TEMPLATE_REMOVED fingerprint_finger_id u32
  | FINGERPRINT_AUTHENTICATED fingerprint_finger_id hw_auth_token_t
  | FINGERPRINT_TEMPLATE_ENUMERATING fingerprint_finger_id u32
  | FINGERPRINT_OTHER int

text \<open>The tag of a message.\<close>

fun fingerprint_msg_type :: "fingerprint_msg \<Rightarrow> int" where
  "fingerprint_msg_type (FINGERPRINT_ERROR _) = -1"
| "fingerprint_msg_type (FINGERPRINT_ACQUIRED _) = 1"
| "fingerprint_msg_type (FINGERPRINT_TEMPLATE_ENROLLING _ _ _) = 3"
| "fingerprint_msg_type (FINGERPRINT_TEMPLATE_REMOVED _ _) = 4"
| "fingerprint_msg_type (FINGERPRINT_AUTHENTICATED _ _) = 5"
| "fingerprint_msg_type (FINGERPRINT_TEMPLATE_ENUMERATING _ _) = 6"
| "fingerprint_msg_type (FINGERPRINT_OTHER t) = t"

subsection \<open>Code filters\<close>

datatype Error =
    Error_HW_UNAVAILABLE | Error_UNABLE_TO_PROCESS | Error_TIMEOUT | Error_NO_SPACE
  | Error_CANCELED | Error_UNABLE_TO_REMOVE | Error_VENDOR

datatype AcquiredInfo =
    AcquiredInfo_GOOD | AcquiredInfo_PARTIAL | AcquiredInfo_INSUFFICIENT
  | AcquiredInfo_SENSOR_DIRTY | AcquiredInfo_TOO_SLOW | AcquiredInfo_TOO_FAST | AcquiredInfo_VENDOR

definition VendorErrorFilter :: "int \<Rightarrow> Error \<times> int" where
  "VendorErrorFilter error =
     (if error = FINGERPRINT_ERROR_HW_UNAVAILABLE then (Error_HW_UNAVAILABLE, 0)
      else if error = FINGERPRINT_ERROR_UNABLE_TO_PROCESS then (Error_UNABLE_TO_PROCESS, 0)
      else if error = FINGERPRINT_ERROR_TIMEOUT then (Error_TIMEOUT, 0)
      else if error = FINGERPRINT_ERROR_NO_SPACE then (Error_NO_SPACE, 0)
      else if error = FINGERPRINT_ERROR_CANCELED then (Error_CANCELED, 0)
      else if error = FINGERPRINT_ERROR_UNABLE_TO_REMOVE then (Error_UNABLE_TO_REMOVE, 0)
      else if error = FINGERPRINT_ERROR_LOCKOUT then (Error_VENDOR, FINGERPRINT_ERROR_LOCKOUT)
      else if error \<ge> FINGERPRINT_ERROR_VENDOR_BASE
        then (Error_VENDOR, error - FINGERPRINT_ERROR_VENDOR_BASE)
      else (Error_UNABLE_TO_PROCESS, 0))"

definition VendorAcquiredFilter :: "int \<Rightarrow> AcquiredInfo \<times> int" where
  "VendorAcquiredFilter info =
     (if info = FINGERPRINT_ACQUIRED_GOOD then (AcquiredInfo_GOOD, 0)
      else if info = FINGERPRINT_ACQUIRED_PARTIAL then (AcquiredInfo_PARTIAL, 0)
      else if info = FINGERPRINT_ACQUIRED_INSUFFICIENT then (AcquiredInfo_INSUFFICIENT, 0)
      else if info = FINGERPRINT_ACQUIRED_IMAGER_DIRTY then (AcquiredInfo_SENSOR_DIRTY, 0)
      else if info = FINGERPRINT_ACQUIRED_TOO_SLOW then (AcquiredInfo_TOO_SLOW, 0)
      else if info = FINGERPRINT_ACQUIRED_TOO_FAST then (AcquiredInfo_TOO_FAST, 0)
      else if info \<ge> FINGERPRINT_ACQUIRED_VENDOR_BASE
        then (AcquiredInfo_VENDOR, info - FINGERPRINT_ACQUIRED_VENDOR_BASE)
      else (AcquiredInfo_INSUFFICIENT, 0))"

subsection \<open>Authentication tokens\<close>

record HardwareAuthToken =
  challenge :: i64
  userId :: i64
  authenticatorId :: i64
  authenticatorType :: i32
  timestamp_milliSeconds :: i64
  mac :: "u8 list"

text \<open>\<open>htobe32\<close>, \<open>be32toh\<close>, \<open>htobe64\<close>, \<open>be64toh\<close> on a little-endian machine.\<close>

definition bswap :: "'a::len word \<Rightarrow> 'a word" where
  "bswap w = horner_sum of_bool 2
     (map (\<lambda>n. bit w (8 * (LENGTH('a) div 8 - 1 - n div 8) + n mod 8)) [0..<LENGTH('a)])"

text \<open>
  The two overloads of \<open>translate\<close>. Towards the module, \<open>std::copy\<close> writes the bytes of
  \<open>mac\<close> over the array \<open>hmac\<close> of the given (uninitialised) token: a longer \<open>mac\<close> would
  write past the array, which is \<open>None\<close>. Towards AIDL the bytes of \<open>hmac\<close> are inserted in
  front of what the token's \<open>mac\<close> holds.
\<close>

definition translate_to_hw :: "HardwareAuthToken \<Rightarrow> hw_auth_token_t \<Rightarrow> hw_auth_token_t option" where
  "translate_to_hw authToken hat =
     (if length (mac authToken) > length (hat_hmac hat) then None
      else Some (hat\<lparr>hat_challenge := challenge authToken,
        hat_user_id := userId authToken,
        hat_authenticator_id := authenticatorId authToken,
        hat_authenticator_type := bswap (authenticatorType authToken),
        hat_timestamp := bswap (timestamp_milliSeconds authToken),
        hat_hmac := mac authToken @ drop (length (mac authToken)) (hat_hmac hat)\<rparr>))"

definition translate_from_hw :: "hw_auth_token_t \<Rightarrow> HardwareAuthToken \<Rightarrow> HardwareAuthToken" where
  "translate_from_hw hat authToken =
     authToken\<lparr>challenge := hat_challenge hat,
       userId := hat_user_id hat,
       authenticatorId := hat_authenticator_id hat,
       authenticatorType := bswap (hat_authenticator_type hat),
       timestamp_milliSeconds := bswap (hat_timestamp hat),
       mac := hat_hmac hat @ mac authToken\<rparr>"

subsection \<open>Lemmas\<close>

lemma bit_bswap:
  "bit (bswap w) n \<longleftrightarrow> n < LENGTH('a) \<and> bit w (8 * (LENGTH('a) div 8 - 1 - n div 8) + n mod 8)"
  for w :: "'a::len word"
  by (auto simp: bswap_def bit_horner_sum_bit_word_iff)

lemma swapped_index:
  fixes K n :: nat
  assumes "n < 8 * K"
  defines "m \<equiv> 8 * (K - 1 - n div 8) + n mod 8"
  shows "m < 8 * K" and "8 * (K - 1 - m div 8) + m mod 8 = n"
proof -
  have q: "n div 8 < K"
    using assms(1) by (simp add: less_mult_imp_div_less mult.commute)
  have m: "m div 8 = K - 1 - n div 8" "m mod 8 = n mod 8"
    by (simp_all add: m_def)
  show "m < 8 * K"
    using q mod_less_divisor[of 8 n] unfolding m_def by linarith
  have "K - 1 - (K - 1 - n div 8) = n div 8"
    using q by linarith
  then show "8 * (K - 1 - m div 8) + m mod 8 = n"
    unfolding m by simp
qed

lemma bswap_bswap:
  fixes w :: "'a::len word"
  assumes "8 dvd LENGTH('a)"
  shows "bswap (bswap w) = w"
proof (rule bit_word_eqI)
  fix n assume n: "n < LENGTH('a)"
  have L: "8 * (LENGTH('a) div 8) = LENGTH('a)"
    using assms by simp
  with n have "n < 8 * (LENGTH('a) div 8)" by simp
  from swapped_index[OF this] show "bit (bswap (bswap w)) n \<longleftrightarrow> bit w n"
    using n L by (simp add: bit_bswap)
qed

lemma bswap32 [simp]: "bswap (bswap w) = (w :: u32)"
  by (rule bswap_bswap) simp

lemma bswap64 [simp]: "bswap (bswap w) = (w :: u64)"
  by (rule bswap_bswap) simp

definition empty_token :: HardwareAuthToken where
  "empty_token = \<lparr>challenge = 0, userId = 0, authenticatorId = 0, authenticatorType = 0,
     timestamp_milliSeconds = 0, mac = []\<rparr>"

definition garbage_hat :: hw_auth_token_t where
  "garbage_hat = \<lparr>hat_challenge = 7, hat_user_id = 7, hat_authenticator_id = 7,
     hat_authenticator_type = 7, hat_timestamp = 7, hat_hmac = replicate 32 0xAA\<rparr>"

subsection \<open>Properties\<close>



text \<open>
  What the framework can still tell apart after the error filter: the answer determines the
  module's code for each of the documented errors 1 and 3 to 6, and a vendor answer determines
  the vendor code, with one exception: the hardware lockout (7) is reported as vendor error 7
  and cannot be told from the vendor's own error 1007. Every code outside the documented ones
  and below the vendor base is reported as \<open>UNABLE_TO_PROCESS\<close>.
\<close>

theorem error_filter_classes:
  "(fst (VendorErrorFilter e) = Error_HW_UNAVAILABLE \<longleftrightarrow> e = 1) \<and>
   (fst (VendorErrorFilter e) = Error_TIMEOUT \<longleftrightarrow> e = 3) \<and>
   (fst (VendorErrorFilter e) = Error_NO_SPACE \<longleftrightarrow> e = 4) \<and>
   (fst (VendorErrorFilter e) = Error_CANCELED \<longleftrightarrow> e = 5) \<and>
   (fst (VendorErrorFilter e) = Error_UNABLE_TO_REMOVE \<longleftrightarrow> e = 6) \<and>
   (fst (VendorErrorFilter e) = Error_UNABLE_TO_PROCESS \<longleftrightarrow>
      e < 1000 \<and> e \<notin> {1, 3, 4, 5, 6, 7}) \<and>
   (VendorErrorFilter e = (Error_VENDOR, v) \<longleftrightarrow> (v \<ge> 0 \<and> e = v + 1000) \<or> (e = 7 \<and> v = 7)) \<and>
   VendorErrorFilter 7 = VendorErrorFilter 1007"
  by (auto simp: VendorErrorFilter_def fp_codes)

text \<open>
  The acquired filter keeps the six documented image qualities apart, recovers every vendor
  code, and reports everything else as \<open>INSUFFICIENT\<close>, including the documented code 6
  (finger detected).
\<close>

theorem acquired_filter_classes:
  "(fst (VendorAcquiredFilter i) = AcquiredInfo_GOOD \<longleftrightarrow> i = 0) \<and>
   (fst (VendorAcquiredFilter i) = AcquiredInfo_PARTIAL \<longleftrightarrow> i = 1) \<and>
   (fst (VendorAcquiredFilter i) = AcquiredInfo_SENSOR_DIRTY \<longleftrightarrow> i = 3) \<and>
   (fst (VendorAcquiredFilter i) = AcquiredInfo_TOO_SLOW \<longleftrightarrow> i = 4) \<and>
   (fst (VendorAcquiredFilter i) = AcquiredInfo_TOO_FAST \<longleftrightarrow> i = 5) \<and>
   (fst (VendorAcquiredFilter i) = AcquiredInfo_INSUFFICIENT \<longleftrightarrow>
      i < 1000 \<and> i \<notin> {0, 1, 3, 4, 5}) \<and>
   (VendorAcquiredFilter i = (AcquiredInfo_VENDOR, v) \<longleftrightarrow> v \<ge> 0 \<and> i = v + 1000) \<and>
   fst (VendorAcquiredFilter FINGERPRINT_ACQUIRED_DETECTED) = AcquiredInfo_INSUFFICIENT"
  by (auto simp: VendorAcquiredFilter_def fp_codes)

end
