(* ===== verification/Lockout.thy ===== *)
theory Lockout
  imports Prelude "HOL-Library.Signed_Division"
begin

text \<open>
  The lockout tracker of the fingerprint HAL
  (\<^verbatim>\<open>src/fingerprint/LockoutTracker.cpp\<close>, \<^verbatim>\<open>src/fingerprint/include/LockoutTracker.h\<close>).

  \<open>Util\<close> is not part of the repository: its two functions are the record \<open>lockout_clock\<close>.
  \<open>clock_documented\<close> states their documented behaviour. \<open>mFailedCount\<close> is an \<open>int\<close>: its
  32-bit overflow would need two thousand million failed attempts (see \<open>LockoutWidth\<close>). Division of times truncates
  towards zero as in C++ (\<open>sdiv\<close>).
\<close>

datatype LockoutMode = NONE | TIMED | PERMANENT

definition LOCKOUT_TIMED_THRESHOLD :: int where "LOCKOUT_TIMED_THRESHOLD = 5"

definition LOCKOUT_TIMED_DURATION :: int where "LOCKOUT_TIMED_DURATION = 30 * 1000"

definition LOCKOUT_PERMANENT_THRESHOLD :: int where "LOCKOUT_PERMANENT_THRESHOLD = 20"

record lockout =
  mFailedCount :: int
  mLockoutTimedStart :: int
  mCurrentMode :: LockoutMode

record lockout_clock =
  getSystemNanoTime :: int
  hasElapsed :: "int \<Rightarrow> int \<Rightarrow> bool"

text \<open>\<open>mLockoutTracker()\<close> value-initialises the tracker: all members are zero.\<close>

definition LockoutTracker_init :: lockout where
  "LockoutTracker_init = \<lparr>mFailedCount = 0, mLockoutTimedStart = 0, mCurrentMode = NONE\<rparr>"

definition reset :: "bool \<Rightarrow> lockout \<Rightarrow> lockout" where
  "reset clearAttemptCounter t =
     (if clearAttemptCounter then t\<lparr>mFailedCount := 0\<rparr> else t)
       \<lparr>mLockoutTimedStart := 0, mCurrentMode := NONE\<rparr>"

definition addFailedAttempt :: "lockout_clock \<Rightarrow> lockout \<Rightarrow> lockout" where
  "addFailedAttempt clk t =
     (let t = t\<lparr>mFailedCount := mFailedCount t + 1\<rparr> in
      if mFailedCount t \<ge> LOCKOUT_PERMANENT_THRESHOLD then t\<lparr>mCurrentMode := PERMANENT\<rparr>
      else if mFailedCount t \<ge> LOCKOUT_TIMED_THRESHOLD then
        t\<lparr>mCurrentMode := TIMED, mLockoutTimedStart := getSystemNanoTime clk\<rparr>
      else t)"

definition getMode :: "lockout_clock \<Rightarrow> lockout \<Rightarrow> LockoutMode \<times> lockout" where
  "getMode clk t =
     (let t = (if mCurrentMode t = TIMED then
                 (if hasElapsed clk (mLockoutTimedStart t) LOCKOUT_TIMED_DURATION
                  then t\<lparr>mCurrentMode := NONE, mLockoutTimedStart := 0\<rparr> else t)
               else t)
      in (mCurrentMode t, t))"

definition getLockoutTimeLeft :: "lockout_clock \<Rightarrow> lockout \<Rightarrow> int" where
  "getLockoutTimeLeft clk t =
     (if mLockoutTimedStart t > 0 then
        (let now = getSystemNanoTime clk;
             elapsed = (now - mLockoutTimedStart t) sdiv 1000000
         in LOCKOUT_TIMED_DURATION - elapsed)
      else 0)"

text \<open>
  The documented behaviour of \<open>Util\<close>: a positive nanosecond clock, and \<open>hasElapsed\<close> compares
  the whole milliseconds since the start with the duration.
\<close>

definition clock_documented :: "lockout_clock \<Rightarrow> bool" where
  "clock_documented clk \<longleftrightarrow> getSystemNanoTime clk > 0 \<and>
     (\<forall>start ms. hasElapsed clk start ms \<longleftrightarrow>
        start \<le> getSystemNanoTime clk \<and> (getSystemNanoTime clk - start) sdiv 1000000 \<ge> ms)"

definition documented_clock :: "int \<Rightarrow> lockout_clock" where
  "documented_clock now = \<lparr>getSystemNanoTime = now,
     hasElapsed = (\<lambda>start ms. start \<le> now \<and> (now - start) sdiv 1000000 \<ge> ms)\<rparr>"

subsection \<open>The contract of an attempt limiter\<close>

text \<open>
  What the session relies on: failed attempts are counted one by one, the mode after an attempt
  is a function of the count, and a reset ends the lockout. The mode is read without the passing
  of time (\<open>mode\<close>).
\<close>

locale attempt_limiter =
  fixes attempts :: "'t \<Rightarrow> int"
    and mode :: "'t \<Rightarrow> LockoutMode"
    and fail :: "'c \<Rightarrow> 't \<Rightarrow> 't"
    and clear :: "bool \<Rightarrow> 't \<Rightarrow> 't"
    and timed_at :: int
    and permanent_at :: int
  assumes thresholds: "0 < timed_at" "timed_at < permanent_at"
    and fail_attempts: "attempts (fail c t) = attempts t + 1"
    and fail_mode: "mode (fail c t) =
      (if permanent_at \<le> attempts t + 1 then PERMANENT
       else if timed_at \<le> attempts t + 1 then TIMED else mode t)"
    and clear_attempts: "attempts (clear b t) = (if b then 0 else attempts t)"
    and clear_mode: "mode (clear b t) = NONE"
begin

lemma fails_attempts: "attempts (foldl (\<lambda>t c. fail c t) t cs) = attempts t + int (length cs)"
  by (induction cs arbitrary: t) (auto simp: fail_attempts)

lemma fails_mode:
  assumes "cs \<noteq> []" and "timed_at \<le> attempts t + int (length cs)"
  shows "mode (foldl (\<lambda>t c. fail c t) t cs) =
    (if permanent_at \<le> attempts t + int (length cs) then PERMANENT else TIMED)"
proof -
  obtain c cs' where "cs = cs' @ [c]"
    using assms(1) by (metis rev_exhaust)
  then show ?thesis
    using assms(2) by (simp add: fail_mode fails_attempts)
qed

lemma few_fails_mode:
  "attempts t + int (length cs) < timed_at \<Longrightarrow> mode (foldl (\<lambda>t c. fail c t) t cs) = mode t"
  using thresholds by (induction cs arbitrary: t) (auto simp: fail_mode fail_attempts)

lemma mode_after_clear:
  "mode (foldl (\<lambda>t c. fail c t) (clear True t) cs) =
     (if permanent_at \<le> int (length cs) then PERMANENT
      else if timed_at \<le> int (length cs) then TIMED else NONE)"
proof (cases "timed_at \<le> int (length cs)")
  case True
  then have "cs \<noteq> []"
    using thresholds by auto
  with True show ?thesis
    using fails_mode[of cs "clear True t"] by (simp add: clear_attempts)
next
  case False
  then show ?thesis
    using few_fails_mode[of "clear True t" cs] thresholds
    by (simp add: clear_attempts clear_mode)
qed

end

interpretation tracker: attempt_limiter mFailedCount mCurrentMode addFailedAttempt reset
  LOCKOUT_TIMED_THRESHOLD LOCKOUT_PERMANENT_THRESHOLD
  by unfold_locales
    (simp_all add: LOCKOUT_TIMED_THRESHOLD_def LOCKOUT_PERMANENT_THRESHOLD_def
      addFailedAttempt_def reset_def Let_def)

subsection \<open>Sequences of tracker operations\<close>

datatype lockout_op = Fail lockout_clock | Query lockout_clock

fun lockout_step :: "lockout \<Rightarrow> lockout_op \<Rightarrow> lockout" where
  "lockout_step t (Fail clk) = addFailedAttempt clk t"
| "lockout_step t (Query clk) = snd (getMode clk t)"

definition permanent_inv :: "lockout \<Rightarrow> bool" where
  "permanent_inv t \<longleftrightarrow>
     mCurrentMode t = PERMANENT \<and> mFailedCount t \<ge> LOCKOUT_PERMANENT_THRESHOLD"

lemma getMode_permanent [simp]:
  "mCurrentMode t = PERMANENT \<Longrightarrow> getMode clk t = (PERMANENT, t)"
  by (simp add: getMode_def)

lemma permanent_inv_step: "permanent_inv t \<Longrightarrow> permanent_inv (lockout_step t x)"
  by (cases x) (auto simp: permanent_inv_def addFailedAttempt_def Let_def)

interpretation permanent_runs: op_system lockout_step permanent_inv
  by unfold_locales (rule permanent_inv_step)

text \<open>
  The state between operations: a timed lockout is backed by enough failed attempts, and the
  permanent one is in force exactly from the twentieth attempt on. A reset that keeps the count
  preserves this only outside a permanent lockout.
\<close>

definition lockout_inv :: "lockout \<Rightarrow> bool" where
  "lockout_inv t \<longleftrightarrow> mFailedCount t \<ge> 0 \<and>
     (mCurrentMode t = TIMED \<longrightarrow> mFailedCount t \<ge> LOCKOUT_TIMED_THRESHOLD) \<and>
     (mCurrentMode t = PERMANENT \<longleftrightarrow> mFailedCount t \<ge> LOCKOUT_PERMANENT_THRESHOLD)"

lemma lockout_inv_init: "lockout_inv LockoutTracker_init"
  by (simp add: lockout_inv_def LockoutTracker_init_def LOCKOUT_PERMANENT_THRESHOLD_def)

lemma lockout_inv_fail: "lockout_inv t \<Longrightarrow> lockout_inv (addFailedAttempt clk t)"
  by (auto simp: lockout_inv_def addFailedAttempt_def Let_def LOCKOUT_TIMED_THRESHOLD_def)

lemma lockout_inv_getMode: "lockout_inv t \<Longrightarrow> lockout_inv (snd (getMode clk t))"
  by (auto simp: lockout_inv_def getMode_def Let_def)

lemma lockout_inv_reset:
  "lockout_inv t \<Longrightarrow> b \<or> mCurrentMode t \<noteq> PERMANENT \<Longrightarrow> lockout_inv (reset b t)"
  by (auto simp: lockout_inv_def reset_def LOCKOUT_PERMANENT_THRESHOLD_def)

lemma getMode_fst: "getMode clk t = (m, t') \<Longrightarrow> mCurrentMode t' = m"
  by (auto simp: getMode_def Let_def)

lemma getMode_count: "mFailedCount (snd (getMode clk t)) = mFailedCount t"
  by (simp add: getMode_def Let_def)

lemma sdiv_million: "0 \<le> (x::int) \<Longrightarrow> x sdiv 1000000 = x div 1000000"
  by (simp add: signed_divide_int_def sgn_if)

subsection \<open>Properties\<close>

text \<open>
  The lockout thresholds: after a full reset, \<open>n\<close> failed attempts in a row (at any times)
  leave the tracker open for \<open>n < 5\<close>, in timed lockout for \<open>5 \<le> n < 20\<close>, and permanently
  locked from 20 on.
\<close>

theorem lockout_thresholds:
  "mCurrentMode (foldl (\<lambda>t clk. addFailedAttempt clk t) (reset True t) clks) =
     (if length clks \<ge> 20 then PERMANENT else if length clks \<ge> 5 then TIMED else NONE)"
proof -
  have "(LOCKOUT_PERMANENT_THRESHOLD \<le> int (length clks)) = (20 \<le> length clks)"
      "(LOCKOUT_TIMED_THRESHOLD \<le> int (length clks)) = (5 \<le> length clks)"
    by (auto simp: LOCKOUT_PERMANENT_THRESHOLD_def LOCKOUT_TIMED_THRESHOLD_def)
  then show ?thesis
    unfolding tracker.mode_after_clear by simp
qed



text \<open>
  A permanent lockout is permanent: no sequence of further failed attempts and mode queries,
  at whatever times, ends it; only a reset does.
\<close>

theorem permanent_lockout_stays:
  assumes "mCurrentMode t = PERMANENT" and "mFailedCount t \<ge> 20"
  shows "mCurrentMode (foldl lockout_step t ops) = PERMANENT \<and>
    fst (getMode clk (foldl lockout_step t ops)) = PERMANENT \<and>
    fst (getMode clk (reset b (foldl lockout_step t ops))) = NONE"
proof -
  have "permanent_inv t"
    using assms by (simp add: permanent_inv_def LOCKOUT_PERMANENT_THRESHOLD_def)
  then have "permanent_inv (foldl lockout_step t ops)"
    by (rule permanent_runs.run_inv)
  then show ?thesis
    by (simp add: permanent_inv_def) (simp add: getMode_def reset_def Let_def)
qed

theorem permanent_lockout_stays_witness:
  "mCurrentMode (foldl lockout_step
     \<lparr>mFailedCount = 20, mLockoutTimedStart = 7, mCurrentMode = PERMANENT\<rparr>
     [Query (documented_clock 99000000000), Fail (documented_clock 8)]) = PERMANENT"
  by (rule permanent_lockout_stays[THEN conjunct1]) simp_all

end
