(* ===== verification/Session.thy ===== *)
theory Session
  imports FpVendor Lockout
begin

text \<open>
  A fingerprint session (\<^verbatim>\<open>src/fingerprint/Session.cpp\<close>,
  \<^verbatim>\<open>src/fingerprint/include/Session.h\<close>, \<^verbatim>\<open>src/fingerprint/CancellationSignal.cpp\<close>).

  \<open>session\<close> is the class \<open>Session\<close> together with what lives beside it: the worker thread's
  queue, the detached lockout timers, the function-level static vector of enumerated templates,
  and \<open>out\<close>, everything the session has done to the outside in order (calls to the legacy
  module, writes of the illumination node, callbacks to the framework). The client's calls, the
  worker's tasks, the module's notifications and the timers run in different threads; each is
  one atomic step of \<open>session_step\<close>, and a run is any interleaving of them.

  \<open>fp_env\<close> is what the outside answers during a step: whether the worker takes a task, the
  results of the module, and the clock. One notification reads the clock up to three times:
  \<open>clk env 0\<close> in \<open>addFailedAttempt\<close>, \<open>clk env 1\<close> in \<open>getMode\<close>, \<open>clk env 2\<close> in
  \<open>getLockoutTimeLeft\<close>. The pause of \<open>onPointerDown\<close> for the UI only passes time: the
  result of the wait is discarded by the code. The results of \<open>enumerate\<close> and \<open>remove\<close> are
  only logged, so they are not part of \<open>fp_env\<close>.
\<close>

subsection \<open>State\<close>

datatype fp_out =
    SetFodHbm bool
  | DevSetActiveGroup u32 string
  | DevPreEnroll
  | DevPostEnroll
  | DevEnroll hw_auth_token_t u32 nat
  | DevAuthenticate u64 u32
  | DevEnumerate
  | DevRemove u32 u32
  | DevGetAuthenticatorId
  | DevCancel
  | DevGoodixExtCmd int int
  | DeathRecipientNew
  | DeathRecipientDelete
  | DeathRecipientLink
  | OnChallengeGenerated i64
  | OnChallengeRevoked i64
  | OnError Error int
  | OnAcquired AcquiredInfo int
  | OnEnrollmentProgress i32 u32
  | OnEnrollmentsRemoved "i32 list"
  | OnEnrollmentsEnumerated "i32 list"
  | OnAuthenticationSucceeded i32 HardwareAuthToken
  | OnAuthenticationFailed
  | OnLockoutTimed int
  | OnLockoutPermanent
  | OnLockoutCleared
  | OnAuthenticatorIdRetrieved i64
  | OnAuthenticatorIdInvalidated i64
  | OnSessionClosed
  | TokenOverrun

text \<open>The tasks handed to the worker, one per lambda of the source.\<close>

datatype task =
    TaskGenerateChallenge
  | TaskRevokeChallenge i64
  | TaskEnroll HardwareAuthToken
  | TaskAuthenticate i64
  | TaskDetectInteraction
  | TaskEnumerateEnrollments
  | TaskRemoveEnrollments "i32 list"
  | TaskGetAuthenticatorId
  | TaskInvalidateAuthenticatorId
  | TaskResetLockout
  | TaskPointerDown
  | TaskPointerUp
  | TaskCancel
  | TaskClose

record session =
  mLockoutTracker :: lockout
  mClosed :: bool
  mUserId :: i32
  mIsLockoutTimerStarted :: bool
  mIsLockoutTimerAborted :: bool
  mUiReady :: bool
  worker_queue :: "task list"
  timers :: "int list"
  enrollments :: "i32 list"
  out :: "fp_out list"

record fp_env =
  worker_accepts :: bool
  clk :: "nat \<Rightarrow> lockout_clock"
  pre_enroll_ret :: u64
  enroll_ret :: int
  authenticate_ret :: int
  get_authenticator_id_ret :: u64
  cancel_ret :: int
  uninit_hat :: hw_auth_token_t

definition emit :: "fp_out list \<Rightarrow> session \<Rightarrow> session" where
  "emit os s = s\<lparr>out := out s @ os\<rparr>"

definition setFodHbm :: "bool \<Rightarrow> session \<Rightarrow> session" where
  "setFodHbm status s = emit [SetFodHbm status] s"

definition goodixExtCmd :: "int \<Rightarrow> int \<Rightarrow> session \<Rightarrow> session" where
  "goodixExtCmd cmd param s = emit [DevGoodixExtCmd cmd param] s"

definition schedule :: "fp_env \<Rightarrow> task \<Rightarrow> session \<Rightarrow> session" where
  "schedule env t s = (if worker_accepts env then s\<lparr>worker_queue := worker_queue s @ [t]\<rparr> else s)"

subsection \<open>Construction\<close>

definition store_path :: "i32 \<Rightarrow> string" where
  "store_path user = ''/data/vendor_de/'' @ show_int (sint user) @ ''/fpdata/''"

text \<open>
  The constructor, in the surroundings it finds: the queue and the static vector outlive
  sessions, and so does the record of what was done.
\<close>

definition Session_ctor ::
  "i32 \<Rightarrow> lockout \<Rightarrow> task list \<Rightarrow> i32 list \<Rightarrow> fp_out list \<Rightarrow> session" where
  "Session_ctor user tracker queue static_enrollments before =
     emit [DeathRecipientNew, DevSetActiveGroup user (store_path user)]
       \<lparr>mLockoutTracker = tracker, mClosed = False, mUserId = user,
        mIsLockoutTimerStarted = False, mIsLockoutTimerAborted = False, mUiReady = False,
        worker_queue = queue, timers = [], enrollments = static_enrollments, out = before\<rparr>"

subsection \<open>Lockout handling\<close>

definition clearLockout :: "bool \<Rightarrow> session \<Rightarrow> session" where
  "clearLockout clearAttemptCounter s =
     emit [OnLockoutCleared]
       (s\<lparr>mLockoutTracker := reset clearAttemptCounter (mLockoutTracker s)\<rparr>)"

definition startLockoutTimer :: "int \<Rightarrow> session \<Rightarrow> session" where
  "startLockoutTimer timeout s =
     s\<lparr>mIsLockoutTimerAborted := False, timers := timers s @ [timeout],
       mIsLockoutTimerStarted := True\<rparr>"

definition lockoutTimerExpired :: "session \<Rightarrow> session" where
  "lockoutTimerExpired s =
     (let s = (if \<not> mIsLockoutTimerAborted s then clearLockout False s else s)
      in s\<lparr>mIsLockoutTimerStarted := False, mIsLockoutTimerAborted := False\<rparr>)"

definition checkSensorLockout :: "fp_env \<Rightarrow> session \<Rightarrow> bool \<times> session" where
  "checkSensorLockout env s =
     (let (lockoutMode, tracker) = getMode (clk env 1) (mLockoutTracker s);
          s = s\<lparr>mLockoutTracker := tracker\<rparr>;
          s = (if lockoutMode \<noteq> NONE then goodixExtCmd 0 0 (setFodHbm False s) else s)
      in if lockoutMode = PERMANENT then
           (True, (emit [OnLockoutPermanent] s)\<lparr>mIsLockoutTimerAborted := True\<rparr>)
         else if lockoutMode = TIMED then
           (let timeLeft = getLockoutTimeLeft (clk env 2) (mLockoutTracker s);
                s = emit [OnLockoutTimed timeLeft] s
            in (True, if \<not> mIsLockoutTimerStarted s then startLockoutTimer timeLeft s else s))
         else (False, s))"

subsection \<open>The worker's tasks\<close>

definition remove_all :: "u32 \<Rightarrow> i32 list \<Rightarrow> session \<Rightarrow> session" where
  "remove_all user ids s = emit (map (\<lambda>i. DevRemove user i) ids) s"

fun run_task :: "fp_env \<Rightarrow> task \<Rightarrow> session \<Rightarrow> session" where
  "run_task env TaskGenerateChallenge s =
     emit [OnChallengeGenerated (pre_enroll_ret env)] (emit [DevPreEnroll] s)"
| "run_task env (TaskRevokeChallenge c) s =
     emit [OnChallengeRevoked c] (emit [DevPostEnroll] (goodixExtCmd 0 0 (setFodHbm False s)))"
| "run_task env (TaskEnroll hat) s =
     (case translate_to_hw hat (uninit_hat env) of
        None \<Rightarrow> emit [TokenOverrun] s
      | Some authToken \<Rightarrow>
          let s = emit [DevEnroll authToken (mUserId s) 60] s in
          if enroll_ret env \<noteq> 0
          then emit [OnError Error_UNABLE_TO_PROCESS (enroll_ret env)] s
          else setFodHbm True s)"
| "run_task env (TaskAuthenticate operationId) s =
     (let s = emit [DevAuthenticate operationId (mUserId s)] s in
      if authenticate_ret env \<noteq> 0
      then emit [OnError Error_UNABLE_TO_PROCESS (authenticate_ret env)] s
      else setFodHbm True s)"
| "run_task env TaskDetectInteraction s = emit [OnError Error_UNABLE_TO_PROCESS 0] s"
| "run_task env TaskEnumerateEnrollments s = emit [DevEnumerate] s"
| "run_task env (TaskRemoveEnrollments ids) s = remove_all (mUserId s) ids s"
| "run_task env TaskGetAuthenticatorId s =
     goodixExtCmd 0 0 (emit [OnAuthenticatorIdRetrieved (get_authenticator_id_ret env)]
       (emit [DevGetAuthenticatorId] s))"
| "run_task env TaskInvalidateAuthenticatorId s =
     emit [OnAuthenticatorIdInvalidated (get_authenticator_id_ret env)]
       (emit [DevGetAuthenticatorId] s)"
| "run_task env TaskResetLockout s = (clearLockout True s)\<lparr>mIsLockoutTimerAborted := True\<rparr>"
| "run_task env TaskPointerDown s = snd (checkSensorLockout env (goodixExtCmd 1 0 s))"
| "run_task env TaskPointerUp s = (goodixExtCmd 0 0 s)\<lparr>mUiReady := False\<rparr>"
| "run_task env TaskCancel s =
     (let s = emit [DevCancel] ((goodixExtCmd 0 0 (setFodHbm False s))\<lparr>mUiReady := False\<rparr>) in
      if cancel_ret env = 0 then emit [OnError Error_CANCELED 0] s else s)"
| "run_task env TaskClose s = (goodixExtCmd 0 0 (setFodHbm False s))\<lparr>mUiReady := False\<rparr>"

subsection \<open>The client's calls\<close>

definition generateChallenge :: "fp_env \<Rightarrow> session \<Rightarrow> status \<times> session" where
  "generateChallenge env s = (StatusOk, schedule env TaskGenerateChallenge s)"

definition revokeChallenge :: "fp_env \<Rightarrow> i64 \<Rightarrow> session \<Rightarrow> status \<times> session" where
  "revokeChallenge env c s = (StatusOk, schedule env (TaskRevokeChallenge c) s)"

definition enroll :: "fp_env \<Rightarrow> HardwareAuthToken \<Rightarrow> session \<Rightarrow> status \<times> session" where
  "enroll env hat s = (StatusOk, schedule env (TaskEnroll hat) s)"

definition authenticate :: "fp_env \<Rightarrow> i64 \<Rightarrow> session \<Rightarrow> status \<times> session" where
  "authenticate env operationId s =
     (StatusOk, schedule env (TaskAuthenticate operationId) (s\<lparr>mUiReady := False\<rparr>))"

definition detectInteraction :: "fp_env \<Rightarrow> session \<Rightarrow> status \<times> session" where
  "detectInteraction env s = (StatusOk, schedule env TaskDetectInteraction s)"

definition enumerateEnrollments :: "fp_env \<Rightarrow> session \<Rightarrow> status \<times> session" where
  "enumerateEnrollments env s = (StatusOk, schedule env TaskEnumerateEnrollments s)"

definition removeEnrollments :: "fp_env \<Rightarrow> i32 list \<Rightarrow> session \<Rightarrow> status \<times> session" where
  "removeEnrollments env ids s = (StatusOk, schedule env (TaskRemoveEnrollments ids) s)"

definition getAuthenticatorId :: "fp_env \<Rightarrow> session \<Rightarrow> status \<times> session" where
  "getAuthenticatorId env s = (StatusOk, schedule env TaskGetAuthenticatorId s)"

definition invalidateAuthenticatorId :: "fp_env \<Rightarrow> session \<Rightarrow> status \<times> session" where
  "invalidateAuthenticatorId env s = (StatusOk, schedule env TaskInvalidateAuthenticatorId s)"

definition resetLockout :: "fp_env \<Rightarrow> HardwareAuthToken \<Rightarrow> session \<Rightarrow> status \<times> session" where
  "resetLockout env hat s = (StatusOk, schedule env TaskResetLockout s)"

definition onPointerDown :: "fp_env \<Rightarrow> i32 \<Rightarrow> i32 \<Rightarrow> i32 \<Rightarrow> session \<Rightarrow> status \<times> session" where
  "onPointerDown env pointerId x y s = (StatusOk, schedule env TaskPointerDown s)"

definition onPointerUp :: "fp_env \<Rightarrow> i32 \<Rightarrow> session \<Rightarrow> status \<times> session" where
  "onPointerUp env pointerId s = (StatusOk, schedule env TaskPointerUp s)"

definition onUiReady :: "session \<Rightarrow> status \<times> session" where
  "onUiReady s = (StatusOk, (setFodHbm True s)\<lparr>mUiReady := True\<rparr>)"

definition cancel :: "fp_env \<Rightarrow> session \<Rightarrow> status \<times> session" where
  "cancel env s = (StatusOk, schedule env TaskCancel s)"

definition close :: "fp_env \<Rightarrow> session \<Rightarrow> status \<times> session" where
  "close env s =
     (StatusOk, emit [OnSessionClosed, DeathRecipientDelete]
        ((schedule env TaskClose s)\<lparr>mClosed := True\<rparr>))"

definition isClosed :: "session \<Rightarrow> bool" where
  "isClosed s = mClosed s"

definition onClientDeath :: "fp_env \<Rightarrow> session \<Rightarrow> session" where
  "onClientDeath env s = (if \<not> isClosed s then snd (close env s) else s)"

definition linkToDeath :: "session \<Rightarrow> session" where
  "linkToDeath s = emit [DeathRecipientLink] s"

text \<open>
  \<open>CancellationSignal::cancel\<close> forwards to the session; the \<open>WithContext\<close> variants forward to
  the plain calls, and three notifications of the newer interface are accepted and ignored.
\<close>

definition CancellationSignal_cancel :: "fp_env \<Rightarrow> session \<Rightarrow> status \<times> session" where
  "CancellationSignal_cancel env s = cancel env s"

definition authenticateWithContext :: "fp_env \<Rightarrow> i64 \<Rightarrow> 'ctx \<Rightarrow> session \<Rightarrow> status \<times> session" where
  "authenticateWithContext env operationId context s = authenticate env operationId s"

definition enrollWithContext :: "fp_env \<Rightarrow> HardwareAuthToken \<Rightarrow> 'ctx \<Rightarrow> session \<Rightarrow> status \<times> session" where
  "enrollWithContext env hat context s = enroll env hat s"

definition detectInteractionWithContext :: "fp_env \<Rightarrow> 'ctx \<Rightarrow> session \<Rightarrow> status \<times> session" where
  "detectInteractionWithContext env context s = detectInteraction env s"

record PointerContext =
  pointerId :: i32
  ctx_x :: i32
  ctx_y :: i32

definition onPointerDownWithContext :: "fp_env \<Rightarrow> PointerContext \<Rightarrow> session \<Rightarrow> status \<times> session" where
  "onPointerDownWithContext env c s = onPointerDown env (pointerId c) (ctx_x c) (ctx_y c) s"

definition onPointerUpWithContext :: "fp_env \<Rightarrow> PointerContext \<Rightarrow> session \<Rightarrow> status \<times> session" where
  "onPointerUpWithContext env c s = onPointerUp env (pointerId c) s"

definition ignored_call :: "session \<Rightarrow> status \<times> session" where
  "ignored_call s = (StatusOk, s)"

subsection \<open>Notifications of the module\<close>

fun session_notify :: "fp_env \<Rightarrow> fingerprint_msg \<Rightarrow> session \<Rightarrow> session" where
  "session_notify env (FINGERPRINT_ERROR e) s =
     (let (result, vendorCode) = VendorErrorFilter e
      in (emit [OnError result vendorCode] s)\<lparr>mUiReady := False\<rparr>)"
| "session_notify env (FINGERPRINT_ACQUIRED i) s =
     (let (result, vendorCode) = VendorAcquiredFilter i
      in if result \<noteq> AcquiredInfo_VENDOR then emit [OnAcquired result vendorCode] s else s)"
| "session_notify env (FINGERPRINT_TEMPLATE_ENROLLING finger samples_remaining msg) s =
     emit [OnEnrollmentProgress (fid finger) samples_remaining] s"
| "session_notify env (FINGERPRINT_TEMPLATE_REMOVED finger remaining) s =
     emit [OnEnrollmentsRemoved [fid finger]] s"
| "session_notify env (FINGERPRINT_AUTHENTICATED finger hat) s =
     (let s = (if fid finger \<noteq> 0 then
                 (let s = emit [OnAuthenticationSucceeded (fid finger)
                            (translate_from_hw hat empty_token)] s;
                      s = s\<lparr>mLockoutTracker := reset True (mLockoutTracker s)\<rparr>
                  in goodixExtCmd 0 0 (setFodHbm False s))
               else
                 (let s = emit [OnAuthenticationFailed] s;
                      s = s\<lparr>mLockoutTracker := addFailedAttempt (clk env 0) (mLockoutTracker s)\<rparr>
                  in snd (checkSensorLockout env s)))
      in s\<lparr>mUiReady := False\<rparr>)"
| "session_notify env (FINGERPRINT_TEMPLATE_ENUMERATING finger remaining) s =
     (let s = s\<lparr>enrollments := enrollments s @ [fid finger]\<rparr> in
      if remaining = 0
      then (emit [OnEnrollmentsEnumerated (enrollments s)] s)\<lparr>enrollments := []\<rparr>
      else s)"
| "session_notify env (FINGERPRINT_OTHER n) s = s"

subsection \<open>Interleavings\<close>

datatype client_call =
    CallGenerateChallenge | CallRevokeChallenge i64 | CallEnroll HardwareAuthToken
  | CallAuthenticate i64 | CallDetectInteraction | CallEnumerateEnrollments
  | CallRemoveEnrollments "i32 list" | CallGetAuthenticatorId | CallInvalidateAuthenticatorId
  | CallResetLockout HardwareAuthToken | CallPointerDown i32 i32 i32 | CallPointerUp i32
  | CallUiReady | CallCancel | CallClose

fun client_step :: "fp_env \<Rightarrow> client_call \<Rightarrow> session \<Rightarrow> status \<times> session" where
  "client_step env CallGenerateChallenge s = generateChallenge env s"
| "client_step env (CallRevokeChallenge c) s = revokeChallenge env c s"
| "client_step env (CallEnroll hat) s = enroll env hat s"
| "client_step env (CallAuthenticate i) s = authenticate env i s"
| "client_step env CallDetectInteraction s = detectInteraction env s"
| "client_step env CallEnumerateEnrollments s = enumerateEnrollments env s"
| "client_step env (CallRemoveEnrollments ids) s = removeEnrollments env ids s"
| "client_step env CallGetAuthenticatorId s = getAuthenticatorId env s"
| "client_step env CallInvalidateAuthenticatorId s = invalidateAuthenticatorId env s"
| "client_step env (CallResetLockout hat) s = resetLockout env hat s"
| "client_step env (CallPointerDown p x y) s = onPointerDown env p x y s"
| "client_step env (CallPointerUp p) s = onPointerUp env p s"
| "client_step env CallUiReady s = onUiReady s"
| "client_step env CallCancel s = cancel env s"
| "client_step env CallClose s = close env s"

datatype fp_event = Client client_call | Worker | Notify fingerprint_msg | Timer | ClientDeath

text \<open>The worker takes the oldest task; the timer event is the end of the oldest timer's sleep.\<close>

fun session_step :: "session \<Rightarrow> fp_env \<times> fp_event \<Rightarrow> session" where
  "session_step s (env, Client c) = snd (client_step env c s)"
| "session_step s (env, Worker) =
     (case worker_queue s of [] \<Rightarrow> s | t # ts \<Rightarrow> run_task env t (s\<lparr>worker_queue := ts\<rparr>))"
| "session_step s (env, Notify msg) = session_notify env msg s"
| "session_step s (env, Timer) =
     (case timers s of [] \<Rightarrow> s | t # ts \<Rightarrow> lockoutTimerExpired (s\<lparr>timers := ts\<rparr>))"
| "session_step s (env, ClientDeath) = onClientDeath env s"

subsection \<open>Frame lemmas\<close>

lemma emit_simps [simp]:
  "mLockoutTracker (emit os s) = mLockoutTracker s" "mClosed (emit os s) = mClosed s"
  "mUserId (emit os s) = mUserId s" "mUiReady (emit os s) = mUiReady s"
  "mIsLockoutTimerStarted (emit os s) = mIsLockoutTimerStarted s"
  "mIsLockoutTimerAborted (emit os s) = mIsLockoutTimerAborted s"
  "worker_queue (emit os s) = worker_queue s" "timers (emit os s) = timers s"
  "enrollments (emit os s) = enrollments s" "out (emit os s) = out s @ os"
  by (simp_all add: emit_def)

lemma emit_emit [simp]: "emit ys (emit xs s) = emit (xs @ ys) s"
  by (simp add: emit_def)

lemma schedule_simps [simp]:
  "mLockoutTracker (schedule env t s) = mLockoutTracker s" "mClosed (schedule env t s) = mClosed s"
  "mUserId (schedule env t s) = mUserId s" "mUiReady (schedule env t s) = mUiReady s"
  "mIsLockoutTimerStarted (schedule env t s) = mIsLockoutTimerStarted s"
  "mIsLockoutTimerAborted (schedule env t s) = mIsLockoutTimerAborted s"
  "timers (schedule env t s) = timers s" "enrollments (schedule env t s) = enrollments s"
  "out (schedule env t s) = out s"
  by (simp_all add: schedule_def)

lemmas emitting = setFodHbm_def goodixExtCmd_def remove_all_def

lemmas client_defs =
  generateChallenge_def revokeChallenge_def enroll_def authenticate_def detectInteraction_def
  enumerateEnrollments_def removeEnrollments_def getAuthenticatorId_def
  invalidateAuthenticatorId_def resetLockout_def onPointerDown_def onPointerUp_def onUiReady_def
  cancel_def close_def

subsection \<open>The session invariant\<close>

text \<open>
  \<open>timer_ok\<close>: at most one lockout timer sleeps, and the flag says whether one does. Together
  with the tracker's invariant (\<open>session_pre\<close>) this holds even in the middle of a
  notification. Between steps a timer that sleeps during a permanent lockout is aborted, so
  that it cannot end the lockout.
\<close>

definition timer_ok :: "session \<Rightarrow> bool" where
  "timer_ok s \<longleftrightarrow> length (timers s) \<le> 1 \<and> (mIsLockoutTimerStarted s \<longleftrightarrow> timers s \<noteq> [])"

definition session_pre :: "session \<Rightarrow> bool" where
  "session_pre s \<longleftrightarrow> timer_ok s \<and> lockout_inv (mLockoutTracker s)"

definition session_inv :: "session \<Rightarrow> bool" where
  "session_inv s \<longleftrightarrow> session_pre s \<and>
     (mCurrentMode (mLockoutTracker s) = PERMANENT \<longrightarrow>
        timers s = [] \<or> mIsLockoutTimerAborted s)"

lemmas session_inv_defs = session_inv_def session_pre_def timer_ok_def

lemma session_inv_frame [simp]:
  "session_inv (emit os s) = session_inv s"
  "session_inv (schedule env t s) = session_inv s"
  "session_inv (s\<lparr>mUiReady := b\<rparr>) = session_inv s"
  "session_inv (s\<lparr>mClosed := b\<rparr>) = session_inv s"
  "session_inv (s\<lparr>worker_queue := q\<rparr>) = session_inv s"
  "session_inv (s\<lparr>enrollments := es\<rparr>) = session_inv s"
  by (simp_all add: session_inv_defs)

lemma getMode_inv: "lockout_inv t \<Longrightarrow> getMode c t = (m, t') \<Longrightarrow> lockout_inv t'"
  using lockout_inv_getMode[of t c] by simp

text \<open>
  Whatever the tracker went through, checking the lockout re-establishes the invariant: a
  permanent lockout aborts the timer, and only a timed one starts it.
\<close>

lemma checkSensorLockout_inv:
  assumes "session_pre s"
  shows "session_inv (snd (checkSensorLockout env s))"
proof -
  obtain m t where mode: "getMode (clk env 1) (mLockoutTracker s) = (m, t)"
    by (cases "getMode (clk env 1) (mLockoutTracker s)")
  have t: "lockout_inv t" "mCurrentMode t = m"
    using assms mode by (auto simp: session_pre_def dest: getMode_inv getMode_fst)
  then show ?thesis
    using assms mode
    by (cases m) (simp_all add: checkSensorLockout_def emitting startLockoutTimer_def Let_def
        session_inv_defs)
qed

lemma session_pre_inv: "session_inv s \<Longrightarrow> session_pre s"
  by (simp add: session_inv_def)

lemma session_pre_frame [simp]: "session_pre (emit os s) = session_pre s"
  by (simp add: session_pre_def timer_ok_def)

lemma session_pre_fail:
  "session_inv s \<Longrightarrow>
   session_pre (s\<lparr>mLockoutTracker := addFailedAttempt c (mLockoutTracker s)\<rparr>)"
  by (simp add: session_inv_defs lockout_inv_fail)

lemma session_inv_clear:
  "session_inv s \<Longrightarrow> session_inv (s\<lparr>mLockoutTracker := reset True (mLockoutTracker s)\<rparr>)"
  by (simp add: session_inv_defs lockout_inv_reset) (simp add: reset_def)

lemma resetLockout_inv:
  "session_inv s \<Longrightarrow> session_inv ((clearLockout True s)\<lparr>mIsLockoutTimerAborted := True\<rparr>)"
  using session_inv_clear[of s] by (simp add: clearLockout_def session_inv_defs)

lemma client_step_inv: "session_inv s \<Longrightarrow> session_inv (snd (client_step env c s))"
  by (cases c) (simp_all add: client_defs emitting)

lemma run_task_inv: "session_inv s \<Longrightarrow> session_inv (run_task env t s)"
  by (cases t)
    (simp_all add: emitting Let_def resetLockout_inv checkSensorLockout_inv session_pre_inv
      split: option.splits)

lemma session_notify_inv: "session_inv s \<Longrightarrow> session_inv (session_notify env m s)"
  using session_pre_fail[of "emit [OnAuthenticationFailed] s" "clk env 0"]
    session_inv_clear[of "emit os s" for os]
  by (cases m)
    (simp_all add: emitting Let_def checkSensorLockout_inv split: prod.splits)

lemma lockoutTimerExpired_inv:
  "timers s = t # ts \<Longrightarrow> session_inv s \<Longrightarrow> session_inv (lockoutTimerExpired (s\<lparr>timers := ts\<rparr>))"
  by (auto simp: lockoutTimerExpired_def clearLockout_def session_inv_defs lockout_inv_reset
      Let_def)

lemma session_step_inv: "session_inv s \<Longrightarrow> session_inv (session_step s ev)"
  by (cases "(s, ev)" rule: session_step.cases)
    (simp_all add: client_step_inv run_task_inv session_notify_inv lockoutTimerExpired_inv
      onClientDeath_def close_def split: list.splits)

interpretation session_runs: op_system session_step session_inv
  by unfold_locales (rule session_step_inv)

lemma session_inv_ctor: "lockout_inv t \<Longrightarrow> session_inv (Session_ctor u t q es os)"
  by (simp add: Session_ctor_def session_inv_defs)

subsection \<open>Lockout lemmas\<close>

definition failed_auth :: "fingerprint_msg \<Rightarrow> bool" where
  "failed_auth m \<longleftrightarrow> (\<exists>finger hat. m = FINGERPRINT_AUTHENTICATED finger hat \<and> fid finger = 0)"

text \<open>The two events that lift a lockout: an accepted finger, and the task of \<open>resetLockout\<close>.\<close>

definition lifts_lockout :: "session \<Rightarrow> fp_event \<Rightarrow> bool" where
  "lifts_lockout s ev \<longleftrightarrow>
     (\<exists>finger hat. ev = Notify (FINGERPRINT_AUTHENTICATED finger hat) \<and> fid finger \<noteq> 0) \<or>
     (ev = Worker \<and> (\<exists>ts. worker_queue s = TaskResetLockout # ts))"

fun never_lifts :: "session \<Rightarrow> (fp_env \<times> fp_event) list \<Rightarrow> bool" where
  "never_lifts s [] = True"
| "never_lifts s (ev # evs) = (\<not> lifts_lockout s (snd ev) \<and> never_lifts (session_step s ev) evs)"

lemma checkSensorLockout_tracker:
  "mLockoutTracker (snd (checkSensorLockout env s)) = snd (getMode (clk env 1) (mLockoutTracker s))"
  by (simp add: checkSensorLockout_def emitting startLockoutTimer_def Let_def split: prod.splits)

lemma checkSensorLockout_permanent:
  "mCurrentMode (mLockoutTracker s) = PERMANENT \<Longrightarrow>
   checkSensorLockout env s =
     (True, (emit [SetFodHbm False, DevGoodixExtCmd 0 0, OnLockoutPermanent] s)
        \<lparr>mIsLockoutTimerAborted := True\<rparr>)"
  by (simp add: checkSensorLockout_def emitting Let_def)

lemma client_step_tracker: "mLockoutTracker (snd (client_step env c s)) = mLockoutTracker s"
  by (cases c) (simp_all add: client_defs emitting)

lemma run_task_tracker:
  "mCurrentMode (mLockoutTracker s) = PERMANENT \<Longrightarrow> t \<noteq> TaskResetLockout \<Longrightarrow>
   mLockoutTracker (run_task env t s) = mLockoutTracker s"
  by (cases t) (simp_all add: emitting Let_def checkSensorLockout_permanent split: option.splits)

lemma fail_permanent:
  "lockout_inv t \<Longrightarrow> mCurrentMode t = PERMANENT \<Longrightarrow>
   mCurrentMode (addFailedAttempt c t) = PERMANENT"
  by (simp add: lockout_inv_def addFailedAttempt_def Let_def)

lemma notify_permanent:
  assumes "lockout_inv (mLockoutTracker s)" and "mCurrentMode (mLockoutTracker s) = PERMANENT"
    and "\<not> lifts_lockout s (Notify m)"
  shows "mCurrentMode (mLockoutTracker (session_notify env m s)) = PERMANENT"
proof (cases m)
  case (FINGERPRINT_AUTHENTICATED finger hat)
  then have "fid finger = 0"
    using assms(3) by (simp add: lifts_lockout_def)
  then show ?thesis
    using fail_permanent[OF assms(1,2)]
    by (simp add: FINGERPRINT_AUTHENTICATED Let_def checkSensorLockout_permanent)
qed (use assms in \<open>simp_all add: Let_def split: prod.splits\<close>)

lemma permanent_step:
  assumes "session_inv s" and "mCurrentMode (mLockoutTracker s) = PERMANENT"
    and "\<not> lifts_lockout s (snd ev)"
  shows "mCurrentMode (mLockoutTracker (session_step s ev)) = PERMANENT"
proof -
  have inv: "lockout_inv (mLockoutTracker s)"
    and timer: "timers s = [] \<or> mIsLockoutTimerAborted s"
    using assms(1,2) by (auto simp: session_inv_defs)
  show ?thesis
  proof (cases "(s, ev)" rule: session_step.cases)
    case (2 s' env)
    have "mCurrentMode (mLockoutTracker (run_task env t (s\<lparr>worker_queue := ts\<rparr>))) = PERMANENT"
      if "worker_queue s = t # ts" for t ts
      using assms(2,3) that 2 run_task_tracker[of "s\<lparr>worker_queue := ts\<rparr>" t env]
      by (auto simp: lifts_lockout_def)
    then show ?thesis
      using 2 assms(2) by (auto split: list.splits)
  next
    case (4 s' env)
    then show ?thesis
      using timer assms(2) by (auto simp: lockoutTimerExpired_def Let_def split: list.splits)
  qed (use assms(2,3) inv in
      \<open>auto simp: client_step_tracker notify_permanent onClientDeath_def close_def\<close>)
qed

lemma permanent_run:
  "session_inv s \<Longrightarrow> mCurrentMode (mLockoutTracker s) = PERMANENT \<Longrightarrow> never_lifts s evs \<Longrightarrow>
   mCurrentMode (mLockoutTracker (foldl session_step s evs)) = PERMANENT"
  by (induction evs arbitrary: s) (auto intro: session_step_inv permanent_step)

text \<open>A failed authentication, spelled out.\<close>

lemma notify_failed:
  assumes "fid finger = 0"
  shows "session_notify env (FINGERPRINT_AUTHENTICATED finger hat) s =
    (snd (checkSensorLockout env ((emit [OnAuthenticationFailed] s)
       \<lparr>mLockoutTracker := addFailedAttempt (clk env 0) (mLockoutTracker s)\<rparr>)))\<lparr>mUiReady := False\<rparr>"
  using assms by (simp add: Let_def)

lemma getMode_still_timed:
  "mCurrentMode t = TIMED \<Longrightarrow>
   \<not> hasElapsed c (mLockoutTimedStart t) LOCKOUT_TIMED_DURATION \<Longrightarrow> getMode c t = (TIMED, t)"
  by (simp add: getMode_def Let_def)

lemma getMode_none: "mCurrentMode t = NONE \<Longrightarrow> getMode c t = (NONE, t)"
  by (simp add: getMode_def Let_def)

lemma addFailedAttempt_inv_cases:
  assumes "lockout_inv t" and "n = mFailedCount t + 1"
  shows "mFailedCount (addFailedAttempt c t) = n"
    and "n \<ge> 20 \<Longrightarrow> mCurrentMode (addFailedAttempt c t) = PERMANENT"
    and "5 \<le> n \<Longrightarrow> n < 20 \<Longrightarrow> mCurrentMode (addFailedAttempt c t) = TIMED \<and>
      mLockoutTimedStart (addFailedAttempt c t) = getSystemNanoTime c"
    and "n < 5 \<Longrightarrow> mCurrentMode (addFailedAttempt c t) = NONE"
  using assms
  by (auto simp: addFailedAttempt_def Let_def lockout_inv_def LOCKOUT_PERMANENT_THRESHOLD_def
      LOCKOUT_TIMED_THRESHOLD_def intro: LockoutMode.exhaust)

subsection \<open>The UI gate and the illumination\<close>

definition closes_gate :: "session \<Rightarrow> fp_event \<Rightarrow> bool" where
  "closes_gate s ev = (case ev of
       Client (CallAuthenticate i) \<Rightarrow> True
     | Worker \<Rightarrow> (case worker_queue s of [] \<Rightarrow> False
         | t # ts \<Rightarrow> t = TaskPointerUp \<or> t = TaskCancel \<or> t = TaskClose)
     | Notify (FINGERPRINT_ERROR e) \<Rightarrow> True
     | Notify (FINGERPRINT_AUTHENTICATED f h) \<Rightarrow> True
     | _ \<Rightarrow> False)"

text \<open>Whether the high-brightness patch under the finger is lit: the last value written.\<close>

definition lit :: "fp_out list \<Rightarrow> bool" where
  "lit os = foldl (\<lambda>b x. case x of SetFodHbm v \<Rightarrow> v | _ \<Rightarrow> b) False os"

definition turns_on :: "fp_env \<Rightarrow> session \<Rightarrow> fp_event \<Rightarrow> bool" where
  "turns_on env s ev = (case ev of
       Client CallUiReady \<Rightarrow> True
     | Worker \<Rightarrow> (case worker_queue s of [] \<Rightarrow> False
         | t # ts \<Rightarrow> (case t of
               TaskEnroll hat \<Rightarrow> translate_to_hw hat (uninit_hat env) \<noteq> None \<and> enroll_ret env = 0
             | TaskAuthenticate i \<Rightarrow> authenticate_ret env = 0
             | _ \<Rightarrow> False))
     | _ \<Rightarrow> False)"

definition turns_off :: "fp_env \<Rightarrow> session \<Rightarrow> fp_event \<Rightarrow> bool" where
  "turns_off env s ev = (case ev of
       Worker \<Rightarrow> (case worker_queue s of [] \<Rightarrow> False
         | t # ts \<Rightarrow> (case t of
               TaskRevokeChallenge c \<Rightarrow> True
             | TaskCancel \<Rightarrow> True
             | TaskClose \<Rightarrow> True
             | TaskPointerDown \<Rightarrow> fst (getMode (clk env 1) (mLockoutTracker s)) \<noteq> NONE
             | _ \<Rightarrow> False))
     | Notify (FINGERPRINT_AUTHENTICATED f h) \<Rightarrow> fid f \<noteq> 0 \<or>
         fst (getMode (clk env 1) (addFailedAttempt (clk env 0) (mLockoutTracker s))) \<noteq> NONE
     | _ \<Rightarrow> False)"

lemma lit_append: "lit (os @ [x]) = (case x of SetFodHbm v \<Rightarrow> v | _ \<Rightarrow> lit os)"
  by (simp add: lit_def split: fp_out.splits)

lemma lit_keep:
  "(\<And>v. SetFodHbm v \<notin> set xs) \<Longrightarrow> lit (os @ xs) = lit os"
proof (induction xs rule: rev_induct)
  case (snoc x xs)
  have "x \<noteq> SetFodHbm v" for v
    using snoc.prems[of v] by auto
  then have "lit ((os @ xs) @ [x]) = lit (os @ xs)"
    unfolding lit_append by (auto split: fp_out.split)
  then show ?case
    using snoc by simp
qed simp

lemma lit_set: "(\<And>v. SetFodHbm v \<notin> set xs) \<Longrightarrow> lit (os @ SetFodHbm b # xs) = b"
  using lit_keep[of xs "os @ [SetFodHbm b]"] by (simp add: lit_append)

lemma lit_set_after:
  "(\<And>v. SetFodHbm v \<notin> set xs) \<Longrightarrow> lit (os @ x # SetFodHbm b # xs) = b"
  using lit_set[of xs "os @ [x]" b] by simp

lemma mUiReady_check [simp]: "mUiReady (snd (checkSensorLockout env s)) = mUiReady s"
  by (simp add: checkSensorLockout_def emitting startLockoutTimer_def Let_def split: prod.splits)

lemma lit_check:
  "lit (out (snd (checkSensorLockout env s))) =
     (lit (out s) \<and> fst (getMode (clk env 1) (mLockoutTracker s)) = NONE)"
proof -
  obtain m t where mode: "getMode (clk env 1) (mLockoutTracker s) = (m, t)"
    by (cases "getMode (clk env 1) (mLockoutTracker s)")
  then show ?thesis
    by (cases m) (simp_all add: checkSensorLockout_def emitting startLockoutTimer_def Let_def
        lit_set)
qed

subsection \<open>Properties\<close>

text \<open>
  There is never more than one lockout timer: after any interleaving of client calls,
  worker tasks, module notifications, timer expiries and client death on a fresh session, at
  most one timer thread sleeps, and \<open>mIsLockoutTimerStarted\<close> says exactly whether one does.
\<close>

theorem lockout_timer_unique:
  "let s = foldl session_step (Session_ctor user LockoutTracker_init q es os) evs
   in length (timers s) \<le> 1 \<and> (mIsLockoutTimerStarted s \<longleftrightarrow> timers s \<noteq> [])"
proof -
  have "session_inv (foldl session_step (Session_ctor user LockoutTracker_init q es os) evs)"
    by (intro session_runs.run_inv session_inv_ctor lockout_inv_init)
  then show ?thesis
    by (simp add: session_inv_defs Let_def)
qed


definition example_env :: "int \<Rightarrow> fp_env" where
  "example_env now = \<lparr>worker_accepts = True, clk = (\<lambda>_. documented_clock now),
     pre_enroll_ret = 1, enroll_ret = 0, authenticate_ret = 0, get_authenticator_id_ret = 2,
     cancel_ret = 0, uninit_hat = garbage_hat\<rparr>"

definition no_match :: fingerprint_msg where
  "no_match = FINGERPRINT_AUTHENTICATED \<lparr>gid = 0, fid = 0\<rparr> garbage_hat"

lemma no_match_count:
  "mFailedCount (mLockoutTracker (session_notify env no_match s)) =
     mFailedCount (mLockoutTracker s) + 1"
  by (simp add: no_match_def Let_def checkSensorLockout_tracker getMode_count
      tracker.fail_attempts)

lemma no_matches_count:
  "mFailedCount (mLockoutTracker (foldl session_step s (replicate n (env, Notify no_match)))) =
     mFailedCount (mLockoutTracker s) + int n"
  by (induction n arbitrary: s) (simp_all add: no_match_count)


text \<open>
  C9. Every failed authentication is counted, and the framework is told what it leads to: below
  five failures only \<open>onAuthenticationFailed\<close> is sent; from the fifth on the illumination and
  the sensor are switched off and \<open>onLockoutTimed\<close> with the remaining time follows, with a timer
  running to lift it; from the twentieth on it is \<open>onLockoutPermanent\<close>. (The clock must not
  jump 30 s between the two readings inside the notification.)
\<close>

theorem failed_auth_enforces_lockout:
  assumes "session_inv s" and "fid finger = 0" and "n = mFailedCount (mLockoutTracker s) + 1"
    and "\<not> hasElapsed (clk env 1) (getSystemNanoTime (clk env 0)) LOCKOUT_TIMED_DURATION"
    and "s' = session_notify env (FINGERPRINT_AUTHENTICATED finger hat) s"
    and "t' = addFailedAttempt (clk env 0) (mLockoutTracker s)"
  shows "out s' = out s @ [OnAuthenticationFailed] @
      (if n \<ge> 20 then [SetFodHbm False, DevGoodixExtCmd 0 0, OnLockoutPermanent]
       else if n \<ge> 5 then
         [SetFodHbm False, DevGoodixExtCmd 0 0, OnLockoutTimed (getLockoutTimeLeft (clk env 2) t')]
       else []) \<and>
    mFailedCount (mLockoutTracker s') = n \<and> \<not> mUiReady s' \<and>
    (5 \<le> n \<and> n < 20 \<longrightarrow> length (timers s') = 1)"
proof -
  have inv: "lockout_inv (mLockoutTracker s)" and tim: "timer_ok s"
    using assms(1) by (simp_all add: session_inv_defs)
  note t' = addFailedAttempt_inv_cases[OF inv assms(3), of "clk env 0", folded assms(6)]
  note s' = assms(5)[unfolded notify_failed[OF assms(2)], folded assms(6)]
  consider "n \<ge> 20" | "5 \<le> n" "n < 20" | "n < 5" by linarith
  then show ?thesis
  proof cases
    case 1
    then show ?thesis
      using t'(1,2) by (simp add: s' checkSensorLockout_permanent)
  next
    case 2
    then have "getMode (clk env 1) t' = (TIMED, t')"
      using t'(3) assms(4) by (simp add: getMode_still_timed)
    then show ?thesis
      using 2 t'(1) tim
      by (auto simp: s' checkSensorLockout_def emitting Let_def startLockoutTimer_def timer_ok_def
          length_Suc_conv le_Suc_eq)
  next
    case 3
    then have "getMode (clk env 1) t' = (NONE, t')"
      using t'(4) by (simp add: getMode_none)
    then show ?thesis
      using 3 t'(1) by (simp add: s' checkSensorLockout_def emitting Let_def)
  qed
qed

theorem failed_auth_enforces_lockout_witness:
  "out (session_notify (example_env 5) (FINGERPRINT_AUTHENTICATED \<lparr>gid = 0, fid = 0\<rparr> garbage_hat)
      (Session_ctor 0 (LockoutTracker_init\<lparr>mFailedCount := 4\<rparr>) [] [] [])) =
   out (Session_ctor 0 (LockoutTracker_init\<lparr>mFailedCount := 4\<rparr>) [] [] []) @
     [OnAuthenticationFailed, SetFodHbm False, DevGoodixExtCmd 0 0, OnLockoutTimed 30000]"
proof -
  let ?s = "Session_ctor 0 (LockoutTracker_init\<lparr>mFailedCount := 4\<rparr>) [] [] []"
  have "session_inv ?s"
    by (rule session_inv_ctor)
      (simp add: lockout_inv_def LockoutTracker_init_def LOCKOUT_PERMANENT_THRESHOLD_def)
  from failed_auth_enforces_lockout[OF this _ refl _ refl refl, of "\<lparr>gid = 0, fid = 0\<rparr>"
      "example_env 5" garbage_hat]
  show ?thesis
    by (simp add: example_env_def documented_clock_def LOCKOUT_TIMED_DURATION_def
        Session_ctor_def LockoutTracker_init_def addFailedAttempt_def Let_def
        LOCKOUT_PERMANENT_THRESHOLD_def LOCKOUT_TIMED_THRESHOLD_def getLockoutTimeLeft_def
        sdiv_million)
qed

text \<open>
  An accepted finger: the framework gets the finger and the token in host byte order, the
  attempt counter starts again from zero with no lockout, the illumination and the sensor go
  off and the UI gate closes. Nothing else is sent.
\<close>

theorem auth_success_resets:
  assumes "fid finger \<noteq> 0" and "s' = session_notify env (FINGERPRINT_AUTHENTICATED finger hat) s"
  shows "out s' = out s @
      [OnAuthenticationSucceeded (fid finger) (translate_from_hw hat empty_token),
       SetFodHbm False, DevGoodixExtCmd 0 0] \<and>
    mFailedCount (mLockoutTracker s') = 0 \<and> fst (getMode c (mLockoutTracker s')) = NONE \<and>
    \<not> mUiReady s' \<and> timers s' = timers s"
  using assms by (simp add: Let_def emitting reset_def getMode_def)

theorem auth_success_resets_witness:
  "mFailedCount (mLockoutTracker (session_notify (example_env 5)
     (FINGERPRINT_AUTHENTICATED \<lparr>gid = 0, fid = 3\<rparr> garbage_hat)
     (Session_ctor 0 (LockoutTracker_init\<lparr>mFailedCount := 19\<rparr>) [] [] []))) = 0"
  using auth_success_resets[OF _ refl, of "\<lparr>gid = 0, fid = 3\<rparr>" "example_env 5" garbage_hat
      "Session_ctor 0 (LockoutTracker_init\<lparr>mFailedCount := 19\<rparr>) [] [] []"]
  by simp

text \<open>
  The UI gate: \<open>onUiReady\<close> opens it, and it is closed by a new \<open>authenticate\<close>, by the
  worker's pointer-up, cancel and close tasks, and by an error or an authentication result of
  the module; every other step of any thread leaves it as it is.
\<close>

theorem ui_gate_transition:
  "mUiReady (session_step s (env, ev)) =
     (if ev = Client CallUiReady then True else \<not> closes_gate s ev \<and> mUiReady s)"
proof (cases ev)
  case (Client c)
  then show ?thesis
    by (cases c) (simp_all add: client_defs emitting closes_gate_def)
next
  case Worker
  have "mUiReady (run_task env t s') =
      (\<not> (t = TaskPointerUp \<or> t = TaskCancel \<or> t = TaskClose) \<and> mUiReady s')" for t s'
    by (cases t) (simp_all add: emitting Let_def clearLockout_def split: option.splits)
  then show ?thesis
    by (simp add: Worker closes_gate_def split: list.splits)
next
  case (Notify m)
  then show ?thesis
    by (cases m) (simp_all add: closes_gate_def Let_def emitting split: prod.splits)
next
  case Timer
  then show ?thesis
    by (simp add: closes_gate_def lockoutTimerExpired_def clearLockout_def Let_def split: list.splits)
next
  case ClientDeath
  then show ?thesis
    by (simp add: closes_gate_def onClientDeath_def close_def)
qed

text \<open>
  C20. The illumination under the finger: it is lit by \<open>onUiReady\<close> and by an enrolment or
  authentication that the module accepted, and by nothing else; it goes dark with the cancel,
  close and revoke tasks, with an accepted finger, and whenever a lockout is found on a touch or
  after a failed attempt.
\<close>

theorem illumination_transition:
  "lit (out (session_step s (env, ev))) =
     (turns_on env s ev \<or> (\<not> turns_off env s ev \<and> lit (out s)))"
proof (cases ev)
  case (Client c)
  then show ?thesis
    by (cases c) (simp_all add: client_defs emitting turns_on_def turns_off_def lit_keep lit_set)
next
  case Worker
  show ?thesis
  proof (cases "worker_queue s")
    case Nil
    then show ?thesis by (simp add: Worker turns_on_def turns_off_def)
  next
    case (Cons t ts)
    have dark: "SetFodHbm v \<notin> set (map (DevRemove u) ids)" for v u ids by auto
    show ?thesis
      using Cons
      by (cases t)
        (simp_all add: Worker turns_on_def turns_off_def emitting Let_def clearLockout_def
          lit_check lit_keep lit_set lit_set_after dark image_iff conj_commute split: option.splits)
  qed
next
  case (Notify m)
  then show ?thesis
    by (cases m)
      (auto simp: turns_on_def turns_off_def Let_def emitting lit_check lit_keep lit_set lit_set_after
        split: prod.splits)
next
  case Timer
  then show ?thesis
    by (simp add: turns_on_def turns_off_def lockoutTimerExpired_def clearLockout_def Let_def
        lit_keep split: list.splits)
next
  case ClientDeath
  then show ?thesis
    by (simp add: turns_on_def turns_off_def onClientDeath_def close_def lit_keep)
qed

text \<open>The messages of one enumeration: each template with the number of those still to come.\<close>

fun enumeration :: "u32 \<Rightarrow> u32 list \<Rightarrow> fingerprint_msg list" where
  "enumeration g [] = []"
| "enumeration g (f # fs) =
     FINGERPRINT_TEMPLATE_ENUMERATING \<lparr>gid = g, fid = f\<rparr> (word_of_nat (length fs)) # enumeration g fs"

lemma word_of_nat_eq_0_32: "n < 2 ^ 32 \<Longrightarrow> (word_of_nat n :: u32) = 0 \<longleftrightarrow> n = 0"
  by (auto simp: word_of_nat_eq_0_iff dest: dvd_imp_le)

lemma enumeration_run:
  "fs \<noteq> [] \<Longrightarrow> length fs \<le> 2 ^ 32 \<Longrightarrow>
   foldl (\<lambda>s m. session_notify env m s) s (enumeration g fs) =
     (emit [OnEnrollmentsEnumerated (enrollments s @ fs)] s)\<lparr>enrollments := []\<rparr>"
proof (induction fs arbitrary: s)
  case (Cons f fs)
  show ?case
  proof (cases "fs = []")
    case True
    then show ?thesis by (simp add: Let_def emit_def)
  next
    case False
    then have "length fs \<noteq> 0" "length fs < 2 ^ 32"
      using Cons.prems(2) by simp_all
    then have "(word_of_nat (length fs) :: u32) \<noteq> 0"
      using word_of_nat_eq_0_32 by blast
    then have "session_notify env (FINGERPRINT_TEMPLATE_ENUMERATING \<lparr>gid = g, fid = f\<rparr>
        (word_of_nat (length fs))) s = s\<lparr>enrollments := enrollments s @ [f]\<rparr>"
      by (simp add: Let_def)
    then show ?thesis
      using Cons.IH[OF False] \<open>length fs < 2 ^ 32\<close> by (simp add: emit_def)
  qed
qed simp

text \<open>
  Enumeration: when the module reports its templates one by one with the count of those
  left, the framework receives one callback with exactly these templates in order, and the
  static buffer is empty again for the next enumeration.
\<close>

theorem enumeration_complete:
  assumes "fs \<noteq> []" and "length fs \<le> 2 ^ 32" and "enrollments s = []"
  shows "foldl (\<lambda>s m. session_notify env m s) s (enumeration g fs) =
    emit [OnEnrollmentsEnumerated fs] s"
  using enumeration_run[OF assms(1,2), of env s g] assms(3) by (simp add: emit_def)

theorem enumeration_complete_witness:
  "foldl (\<lambda>s m. session_notify (example_env 1) m s) (Session_ctor 0 LockoutTracker_init [] [] [])
     (enumeration 0 [11, 12, 13]) =
   emit [OnEnrollmentsEnumerated [11, 12, 13]] (Session_ctor 0 LockoutTracker_init [] [] [])"
  by (rule enumeration_complete) (simp_all add: Session_ctor_def)

text \<open>
  The module's way to say "no templates" is one message with finger 0 and nothing
  remaining. The session does not recognise it: the framework is told that a template with
  identifier 0 is enrolled.
\<close>

theorem enumeration_of_nothing:
  assumes "enrollments s = []"
  shows "out (session_notify env (FINGERPRINT_TEMPLATE_ENUMERATING \<lparr>gid = g, fid = 0\<rparr> 0) s) =
    out s @ [OnEnrollmentsEnumerated [0]]"
  using assms by (simp add: Let_def)

theorem enumeration_of_nothing_witness:
  "out (session_notify (example_env 1) (FINGERPRINT_TEMPLATE_ENUMERATING \<lparr>gid = 0, fid = 0\<rparr> 0)
     (Session_ctor 0 LockoutTracker_init [] [] [])) =
   out (Session_ctor 0 LockoutTracker_init [] [] []) @ [OnEnrollmentsEnumerated [0]]"
  by (rule enumeration_of_nothing) (simp add: Session_ctor_def)

subsection \<open>A reset during a timed lockout\<close>

lemma failed_keeps_timer:
  assumes "mIsLockoutTimerStarted s" and "mIsLockoutTimerAborted s"
  shows "timers (session_notify env no_match s) = timers s \<and>
    mIsLockoutTimerStarted (session_notify env no_match s) \<and>
    mIsLockoutTimerAborted (session_notify env no_match s)"
  using assms
  by (simp add: no_match_def Let_def checkSensorLockout_def emitting split: prod.splits)

lemma failures_keep_timer:
  "mIsLockoutTimerStarted s \<Longrightarrow> mIsLockoutTimerAborted s \<Longrightarrow>
   (let s' = foldl (\<lambda>s env. session_notify env no_match s) s envs
    in timers s' = timers s \<and> mIsLockoutTimerStarted s' \<and> mIsLockoutTimerAborted s')"
proof (induction envs arbitrary: s)
  case (Cons env envs)
  then show ?case
    using failed_keeps_timer[of s env] by (simp add: Let_def)
qed (simp add: Let_def)

text \<open>
  A lockout that follows a reset too soon is never reported as over. If \<open>resetLockout\<close> runs
  while a lockout timer sleeps, the timer is only marked as aborted; whatever failed attempts
  follow before it wakes, no new timer is started for the lockout they cause, and when the old
  one wakes it does nothing: \<open>onLockoutCleared\<close> is not sent and no timer is left.
\<close>

theorem reset_swallows_next_timer:
  assumes "session_inv s" and "timers s \<noteq> []"
    and "s2 = foldl (\<lambda>s env. session_notify env no_match s) (run_task env0 TaskResetLockout s) envs"
  shows "timers s2 = timers s \<and> timers (session_step s2 (env, Timer)) = [] \<and>
    out (session_step s2 (env, Timer)) = out s2 \<and>
    mLockoutTracker (session_step s2 (env, Timer)) = mLockoutTracker s2"
proof -
  have started: "mIsLockoutTimerStarted (run_task env0 TaskResetLockout s)"
      "mIsLockoutTimerAborted (run_task env0 TaskResetLockout s)"
    using assms(1,2) by (auto simp: session_inv_defs clearLockout_def)
  have "timers s2 = timers s" "mIsLockoutTimerAborted s2"
    using failures_keep_timer[OF started, of envs] unfolding assms(3)
    by (simp_all add: Let_def clearLockout_def)
  moreover obtain t where "timers s = [t]"
    using assms(1,2) by (auto simp: session_inv_defs le_Suc_eq length_Suc_conv)
  ultimately show ?thesis
    by (simp add: lockoutTimerExpired_def Let_def)
qed

definition locked_session :: session where
  "locked_session = session_notify (example_env 1) no_match
     (Session_ctor 0 (LockoutTracker_init\<lparr>mFailedCount := 4\<rparr>) [] [] [])"

lemma locked_session_facts: "session_inv locked_session" "timers locked_session = [30000]"
proof -
  show "session_inv locked_session"
    unfolding locked_session_def
    by (intro session_notify_inv session_inv_ctor)
      (simp add: lockout_inv_def LockoutTracker_init_def LOCKOUT_PERMANENT_THRESHOLD_def)
  show "timers locked_session = [30000]"
    by (simp add: locked_session_def no_match_def notify_failed checkSensorLockout_def
        Session_ctor_def LockoutTracker_init_def addFailedAttempt_def getMode_def example_env_def
        documented_clock_def LOCKOUT_TIMED_DURATION_def LOCKOUT_TIMED_THRESHOLD_def
        LOCKOUT_PERMANENT_THRESHOLD_def getLockoutTimeLeft_def emitting startLockoutTimer_def
        sdiv_million Let_def)
qed

theorem reset_swallows_next_timer_witness:
  "out (session_step (foldl (\<lambda>s env. session_notify env no_match s)
      (run_task (example_env 2) TaskResetLockout locked_session) (replicate 5 (example_env 3)))
      (example_env 30000000001, Timer)) =
   out (foldl (\<lambda>s env. session_notify env no_match s)
      (run_task (example_env 2) TaskResetLockout locked_session) (replicate 5 (example_env 3)))"
proof -
  have "timers locked_session \<noteq> []"
    by (simp add: locked_session_facts(2))
  from reset_swallows_next_timer[OF locked_session_facts(1) this refl, of "example_env 2"
      "replicate 5 (example_env 3)" "example_env 30000000001"]
  show ?thesis by blast
qed

text \<open>
  Users are kept apart: a session tells the module the storage directory of its user when it
  is built, and different users (different 32-bit identifiers) have different directories.
\<close>

theorem store_path_per_user:
  "out (Session_ctor user t q es os) =
     os @ [DeathRecipientNew, DevSetActiveGroup user (store_path user)] \<and>
   (store_path user = store_path user' \<longleftrightarrow> user = user')"
  by (auto simp: Session_ctor_def store_path_def show_int_inj intro: signed_word_eqI)

end
