(* ===== verification/Fingerprint.thy ===== *)
theory Fingerprint
  imports Session
begin

text \<open>
  The fingerprint service (\<^verbatim>\<open>src/fingerprint/Fingerprint.{h,cpp}\<close>) around its sessions.

  \<open>fp_service\<close> is the class \<open>Fingerprint\<close>. Sessions are objects that the framework and queued
  tasks may still reach after the service has replaced them, so they live in a store: \<open>heap\<close>
  holds every session made, \<open>mSession\<close> is the service's pointer into it. All sessions share one
  worker thread: each session of the model holds its own queued tasks and \<open>task_order\<close> says in
  which order the worker takes them, by session. The vector of enumerated templates is a
  function-level static, one for all sessions: it is \<open>static_enrollments\<close>, lent to a session
  while that session runs.

  Opening the legacy module and reading the system properties are answers of the surroundings
  (\<open>hal_env\<close>, arguments of the constructor); \<open>Split\<close> and \<open>ParseInt\<close> of libbase are arguments of
  \<open>getSensorProps\<close>. A failed \<open>CHECK\<close> and a call through a null device end the process: they
  are the values of \<open>svc_error\<close>. Every session that was created stays in
  \<open>heap\<close>; when its object is destroyed is the subject of the theory on the life of sessions.
\<close>

subsection \<open>State\<close>

datatype FingerprintSensorType =
    UNKNOWN | REAR | UNDER_DISPLAY_ULTRASONIC | UNDER_DISPLAY_OPTICAL | POWER_BUTTON | HOME_BUTTON

definition SENSOR_ID :: int where "SENSOR_ID = 0"

definition MAX_ENROLLMENTS_PER_USER :: int where "MAX_ENROLLMENTS_PER_USER = 4"

record fp_service =
  mSession :: "nat option"
  svc_tracker :: lockout
  mSensorType :: FingerprintSensorType
  mMaxEnrollmentsPerUser :: int
  mDevice :: bool
  heap :: "session list"
  task_order :: "nat list"
  static_enrollments :: "i32 list"

datatype svc_error = OpenSessionExists | NullDevice

subsection \<open>Opening the legacy module\<close>

record hal_env =
  get_module_ret :: int
  module_null :: bool
  open_null :: bool
  open_ret :: int
  set_notify_ret :: int

datatype hal_call = HwGetModule | HwOpen | HwSetNotify | HwClose

text \<open>The calls made, and whether a device is returned.\<close>

definition openHal :: "hal_env \<Rightarrow> hal_call list \<times> bool" where
  "openHal h =
     (if get_module_ret h \<noteq> 0 then ([HwGetModule], False)
      else if module_null h then ([HwGetModule], False)
      else if open_null h then ([HwGetModule], False)
      else if open_ret h \<noteq> 0 then ([HwGetModule, HwOpen], False)
      else if set_notify_ret h \<noteq> 0 then ([HwGetModule, HwOpen, HwSetNotify], False)
      else ([HwGetModule, HwOpen, HwSetNotify], True))"

definition sensor_type_of :: "string \<Rightarrow> FingerprintSensorType" where
  "sensor_type_of p =
     (if p = '''' \<or> p = ''default'' \<or> p = ''rear'' then REAR
      else if p = ''udfps'' then UNDER_DISPLAY_ULTRASONIC
      else if p = ''udfps_optical'' then UNDER_DISPLAY_OPTICAL
      else if p = ''side'' then POWER_BUTTON
      else if p = ''home'' then HOME_BUTTON
      else UNKNOWN)"

definition value_or :: "'a option \<Rightarrow> 'a \<Rightarrow> 'a" where
  "value_or o' d = (case o' of None \<Rightarrow> d | Some v \<Rightarrow> v)"

definition Fingerprint_ctor :: "hal_env \<Rightarrow> string option \<Rightarrow> int option \<Rightarrow> fp_service" where
  "Fingerprint_ctor h type_prop max_prop =
     \<lparr>mSession = None, svc_tracker = LockoutTracker_init,
      mSensorType = sensor_type_of (value_or type_prop ''''),
      mMaxEnrollmentsPerUser = value_or max_prop MAX_ENROLLMENTS_PER_USER,
      mDevice = snd (openHal h), heap = [], task_order = [], static_enrollments = []\<rparr>"

text \<open>The destructor, given what the module's \<open>close\<close> answers; the first component: was it called.\<close>

definition Fingerprint_destroy :: "int \<Rightarrow> fp_service \<Rightarrow> hal_call list \<times> fp_service" where
  "Fingerprint_destroy close_ret svc =
     (if \<not> mDevice svc then ([], svc)
      else if close_ret \<noteq> 0 then ([HwClose], svc)
      else ([HwClose], svc\<lparr>mDevice := False\<rparr>))"

subsection \<open>Sensor properties\<close>

record SensorLocation =
  sensorLocationX :: i32
  sensorLocationY :: i32
  sensorRadius :: i32
  display :: string

datatype SensorStrength = CONVENIENCE | WEAK | STRENGTH_STRONG

record ComponentInfo =
  componentId :: string
  hardwareVersion :: string
  firmwareVersion :: string
  serialNumber :: string
  softwareVersion :: string

record CommonProps =
  sensorId :: int
  sensorStrength :: SensorStrength
  maxEnrollmentsPerUser :: int
  componentInfo :: "ComponentInfo list"

definition SENSOR_STRENGTH :: SensorStrength where "SENSOR_STRENGTH = STRENGTH_STRONG"

definition HW_COMPONENT_ID :: string where "HW_COMPONENT_ID = ''fingerprintSensor''"

definition HW_VERSION :: string where "HW_VERSION = ''vendor/model/revision''"

definition FW_VERSION :: string where "FW_VERSION = ''1.01''"

definition SERIAL_NUMBER :: string where "SERIAL_NUMBER = ''00000001''"

definition SW_COMPONENT_ID :: string where "SW_COMPONENT_ID = ''matchingAlgorithm''"

definition SW_VERSION :: string where "SW_VERSION = ''vendor/version/revision''"

text \<open>The last field is the optional touch detection parameters, an AIDL record the service leaves out.\<close>

record SensorProps =
  commonProps :: CommonProps
  sensorType :: FingerprintSensorType
  sensorLocations :: "SensorLocation list"
  supportsNavigationGestures :: bool
  supportsDetectInteraction :: bool
  halHandlesDisplayTouches :: bool
  halControlsIllumination :: bool
  touchDetectionParameters :: "int option"

definition parse_location ::
  "(string \<Rightarrow> string \<Rightarrow> string list) \<Rightarrow> (string \<Rightarrow> i32 option) \<Rightarrow> SensorLocation \<Rightarrow> string \<Rightarrow> SensorLocation" where
  "parse_location split parse_int initial loc =
     (let dim = split loc ''|'' in
      if length dim \<ge> 3 \<and> length dim \<le> 4 then
        initial\<lparr>sensorLocationX := value_or (parse_int (dim ! 0)) (sensorLocationX initial),
          sensorLocationY := value_or (parse_int (dim ! 1)) (sensorLocationY initial),
          sensorRadius := value_or (parse_int (dim ! 2)) (sensorRadius initial),
          display := (if length dim \<ge> 4 then dim ! 3 else display initial)\<rparr>
      else initial)"

definition getSensorProps ::
  "(string \<Rightarrow> string \<Rightarrow> string list) \<Rightarrow> (string \<Rightarrow> i32 option) \<Rightarrow> SensorLocation \<Rightarrow> string option \<Rightarrow>
   fp_service \<Rightarrow> status \<times> SensorProps list" where
  "getSensorProps split parse_int initial location_prop svc =
     (StatusOk,
      [\<lparr>commonProps = \<lparr>sensorId = SENSOR_ID, sensorStrength = SENSOR_STRENGTH,
          maxEnrollmentsPerUser = mMaxEnrollmentsPerUser svc,
          componentInfo =
            [\<lparr>componentId = HW_COMPONENT_ID, hardwareVersion = HW_VERSION, firmwareVersion = FW_VERSION,
               serialNumber = SERIAL_NUMBER, softwareVersion = []\<rparr>,
             \<lparr>componentId = SW_COMPONENT_ID, hardwareVersion = [], firmwareVersion = [],
               serialNumber = [], softwareVersion = SW_VERSION\<rparr>]\<rparr>,
        sensorType = mSensorType svc,
        sensorLocations = [parse_location split parse_int initial (value_or location_prop '''')],
        supportsNavigationGestures = False, supportsDetectInteraction = False,
        halHandlesDisplayTouches = False, halControlsIllumination = False,
        touchDetectionParameters = None\<rparr>])"

subsection \<open>Sessions\<close>

definition no_open_session :: "fp_service \<Rightarrow> bool" where
  "no_open_session svc = (case mSession svc of None \<Rightarrow> True | Some i \<Rightarrow> isClosed (heap svc ! i))"

definition createSession :: "i32 \<Rightarrow> fp_service \<Rightarrow> svc_error + fp_service" where
  "createSession user svc =
     (if \<not> no_open_session svc then Inl OpenSessionExists
      else if \<not> mDevice svc then Inl NullDevice
      else Inr (svc\<lparr>heap := heap svc @ [linkToDeath (Session_ctor user (svc_tracker svc) [] [] [])],
                    mSession := Some (length (heap svc))\<rparr>))"

text \<open>
  Running code of session \<open>i\<close>: the static vector is lent to it, and the tasks it schedules go
  to the end of the worker's queue.
\<close>

definition on_session :: "nat \<Rightarrow> (session \<Rightarrow> session) \<Rightarrow> fp_service \<Rightarrow> fp_service" where
  "on_session i f svc =
     (let s = heap svc ! i;
          s' = f (s\<lparr>enrollments := static_enrollments svc\<rparr>)
      in svc\<lparr>heap := (heap svc)[i := s'], static_enrollments := enrollments s',
             task_order := task_order svc @
               replicate (length (worker_queue s') - length (worker_queue s)) i\<rparr>)"

definition Fingerprint_notify :: "fp_env \<Rightarrow> fingerprint_msg \<Rightarrow> fp_service \<Rightarrow> fp_service" where
  "Fingerprint_notify env msg svc =
     (case mSession svc of
        None \<Rightarrow> svc
      | Some i \<Rightarrow>
          if isClosed (heap svc ! i) then svc else on_session i (session_notify env msg) svc)"

subsection \<open>Everything that can happen\<close>

datatype svc_event =
    Create i32 | SvcClient nat client_call | SvcWorker | SvcNotify fingerprint_msg
  | SvcTimer nat | SvcDeath nat

inductive svc_step :: "fp_service \<Rightarrow> fp_env \<times> svc_event \<Rightarrow> fp_service \<Rightarrow> bool" where
  create: "createSession user svc = Inr svc' \<Longrightarrow> svc_step svc (env, Create user) svc'"
| client: "i < length (heap svc) \<Longrightarrow>
    svc_step svc (env, SvcClient i c) (on_session i (\<lambda>s. session_step s (env, Client c)) svc)"
| worker: "task_order svc = i # is \<Longrightarrow>
    svc_step svc (env, SvcWorker)
      (on_session i (\<lambda>s. session_step s (env, Worker)) (svc\<lparr>task_order := is\<rparr>))"
| notify: "svc_step svc (env, SvcNotify msg) (Fingerprint_notify env msg svc)"
| timer: "i < length (heap svc) \<Longrightarrow> timers (heap svc ! i) \<noteq> [] \<Longrightarrow>
    svc_step svc (env, SvcTimer i) (on_session i (\<lambda>s. session_step s (env, Timer)) svc)"
| death: "i < length (heap svc) \<Longrightarrow>
    svc_step svc (env, SvcDeath i) (on_session i (\<lambda>s. session_step s (env, ClientDeath)) svc)"

inductive_simps svc_step_create [simp]: "svc_step svc (env, Create user) svc'"
inductive_simps svc_step_client [simp]: "svc_step svc (env, SvcClient i c) svc'"
inductive_simps svc_step_notify [simp]: "svc_step svc (env, SvcNotify msg) svc'"

inductive svc_reachable :: "fp_service \<Rightarrow> bool" where
  start: "svc_reachable (Fingerprint_ctor h type_prop max_prop)"
| step: "svc_reachable svc \<Longrightarrow> svc_step svc ev svc' \<Longrightarrow> svc_reachable svc'"

subsection \<open>What a session's step keeps\<close>

lemma session_notify_keeps [simp]:
  "mClosed (session_notify env m s) = mClosed s"
  "worker_queue (session_notify env m s) = worker_queue s"
  by (cases m; simp add: emitting checkSensorLockout_def startLockoutTimer_def Let_def
      split: prod.splits)+

lemma run_task_keeps [simp]:
  "mClosed (run_task env t s) = mClosed s"
  "worker_queue (run_task env t s) = worker_queue s"
  by (cases t; simp add: emitting checkSensorLockout_def startLockoutTimer_def clearLockout_def
      Let_def split: prod.splits option.splits)+

lemma timer_keeps [simp]:
  "mClosed (lockoutTimerExpired s) = mClosed s"
  "worker_queue (lockoutTimerExpired s) = worker_queue s"
  by (simp_all add: lockoutTimerExpired_def clearLockout_def Let_def)

lemma client_closes: "mClosed s \<Longrightarrow> mClosed (snd (client_step env c s))"
  by (cases c) (simp_all add: client_defs emitting)

text \<open>A closed session is never open again.\<close>

lemma session_step_closed: "mClosed s \<Longrightarrow> mClosed (session_step s ev)"
  by (cases "(s, ev)" rule: session_step.cases)
    (simp_all add: client_closes onClientDeath_def isClosed_def close_def split: list.splits)

text \<open>Only the worker shortens a session's queue, and it takes one task.\<close>

lemma client_queue:
  "length (worker_queue s) \<le> length (worker_queue (snd (client_step env c s)))"
  by (cases c) (simp_all add: client_defs emitting schedule_def)

lemma session_step_queue:
  "ev \<noteq> Worker \<Longrightarrow> length (worker_queue s) \<le> length (worker_queue (session_step s (env, ev)))"
  by (cases ev)
    (simp_all add: client_queue onClientDeath_def close_def schedule_def split: list.splits)

lemma session_step_worker_queue:
  "worker_queue (session_step s (env, Worker)) = tl (worker_queue s)"
  by (simp split: list.splits)

subsection \<open>The service invariant\<close>

text \<open>
  \<open>svc_inv\<close>: the service's own tracker is still the initial one; the pointer is to the newest
  session and all older ones are closed; every session keeps its invariant; the worker's queue
  holds exactly the tasks of the sessions.
\<close>

definition sessions_ok :: "fp_service \<Rightarrow> bool" where
  "sessions_ok svc \<longleftrightarrow>
     svc_tracker svc = LockoutTracker_init \<and>
     mSession svc = (if heap svc = [] then None else Some (length (heap svc) - 1)) \<and>
     (\<forall>i. Suc i < length (heap svc) \<longrightarrow> mClosed (heap svc ! i)) \<and>
     (\<forall>i < length (heap svc). session_inv (heap svc ! i))"

definition queue_ok :: "fp_service \<Rightarrow> bool" where
  "queue_ok svc \<longleftrightarrow>
     (\<forall>i \<in> set (task_order svc). i < length (heap svc)) \<and>
     (\<forall>i < length (heap svc). count_list (task_order svc) i = length (worker_queue (heap svc ! i)))"

definition svc_inv :: "fp_service \<Rightarrow> bool" where
  "svc_inv svc \<longleftrightarrow> sessions_ok svc \<and> queue_ok svc"

lemma count_list_replicate: "count_list (replicate n i) j = (if i = j then n else 0)"
  by (induction n) auto

lemma on_session_sessions:
  assumes "sessions_ok svc" and "i < length (heap svc)"
    and "\<And>s. session_inv s \<Longrightarrow> session_inv (f s)" and "\<And>s. mClosed s \<Longrightarrow> mClosed (f s)"
  shows "sessions_ok (on_session i f svc)"
  using assms by (simp add: sessions_ok_def on_session_def Let_def nth_list_update)

lemma on_session_queue:
  assumes "queue_ok svc" and "i < length (heap svc)"
    and "\<And>s. length (worker_queue s) \<le> length (worker_queue (f s))"
  shows "queue_ok (on_session i f svc)"
  using assms(1,2) assms(3)[of "(heap svc ! i)\<lparr>enrollments := static_enrollments svc\<rparr>"]
  by (auto simp: queue_ok_def on_session_def Let_def nth_list_update count_list_replicate
      split: if_splits)

lemma worker_queue_ok:
  assumes "queue_ok svc" and "task_order svc = i # is"
  shows "queue_ok (on_session i (\<lambda>s. session_step s (env, Worker)) (svc\<lparr>task_order := is\<rparr>))"
  using assms
  by (auto simp: queue_ok_def on_session_def Let_def nth_list_update session_step_worker_queue
      simp del: session_step.simps split: if_splits)

lemma all_closed:
  assumes "sessions_ok svc" and "no_open_session svc" and "i < length (heap svc)"
  shows "mClosed (heap svc ! i)"
proof (cases "Suc i < length (heap svc)")
  case False
  then have "length (heap svc) - 1 = i" "heap svc \<noteq> []" using assms(3) by auto
  then show ?thesis
    using assms(1,2) by (simp add: sessions_ok_def no_open_session_def isClosed_def)
qed (use assms(1) in \<open>simp add: sessions_ok_def\<close>)

lemma createSession_heap:
  assumes "createSession user svc = Inr svc'"
  shows "no_open_session svc" and "mDevice svc" and "mSession svc' = Some (length (heap svc))"
    and "heap svc' = heap svc @ [linkToDeath (Session_ctor user (svc_tracker svc) [] [] [])]"
    and "svc_tracker svc' = svc_tracker svc" and "task_order svc' = task_order svc"
  using assms by (auto simp: createSession_def split: if_splits)

lemma createSession_inv:
  assumes "svc_inv svc" and "createSession user svc = Inr svc'"
  shows "svc_inv svc'"
proof -
  let ?new = "linkToDeath (Session_ctor user (svc_tracker svc) [] [] [])"
  have ok: "sessions_ok svc" "queue_ok svc"
    using assms(1) by (simp_all add: svc_inv_def)
  then have new: "session_inv ?new" "worker_queue ?new = []"
    using session_inv_ctor lockout_inv_init
    by (simp_all add: sessions_ok_def linkToDeath_def Session_ctor_def)
  have "length (heap svc) \<notin> set (task_order svc)"
    using ok(2) by (auto simp: queue_ok_def)
  then have "queue_ok svc'"
    using ok(2) new(2) createSession_heap(4,6)[OF assms(2)]
    by (auto simp: queue_ok_def nth_append less_Suc_eq count_list_0_iff)
  moreover have "sessions_ok svc'"
    using ok(1) new(1) all_closed[OF ok(1) createSession_heap(1)[OF assms(2)]]
      createSession_heap(3,4,5)[OF assms(2)]
    by (auto simp: sessions_ok_def nth_append less_Suc_eq)
  ultimately show ?thesis by (simp add: svc_inv_def)
qed

lemma svc_step_inv:
  assumes "svc_step svc ev svc'" and "svc_inv svc"
  shows "svc_inv svc'"
  using assms
proof (induction rule: svc_step.induct)
  case (create user svc svc' env)
  then show ?case by (blast intro: createSession_inv)
next
  case (notify svc env msg)
  then show ?case
    by (auto simp: Fingerprint_notify_def svc_inv_def isClosed_def split: option.splits
        intro!: on_session_sessions on_session_queue session_notify_inv)
      (auto simp: sessions_ok_def split: if_splits)
next
  case (worker svc i "is" env)
  then have "i < length (heap (svc\<lparr>task_order := is\<rparr>))" "sessions_ok (svc\<lparr>task_order := is\<rparr>)"
    by (auto simp: svc_inv_def queue_ok_def sessions_ok_def)
  with worker show ?case
    by (simp add: svc_inv_def worker_queue_ok on_session_sessions session_step_inv
        session_step_closed del: session_step.simps)
qed (auto simp: svc_inv_def simp del: session_step.simps intro!: on_session_sessions
    on_session_queue session_step_inv session_step_closed session_step_queue)

lemma reachable_inv: "svc_reachable svc \<Longrightarrow> svc_inv svc"
proof (induction rule: svc_reachable.induct)
  case (start h type_prop max_prop)
  then show ?case
    by (simp add: svc_inv_def sessions_ok_def queue_ok_def Fingerprint_ctor_def)
qed (rule svc_step_inv)

subsection \<open>Properties\<close>

text \<open>The worker's next task is always the oldest of the session it belongs to.\<close>

lemma worker_runs_oldest:
  assumes "svc_reachable svc" and "task_order svc = i # is"
  obtains t ts where "worker_queue (heap svc ! i) = t # ts"
    and "svc_step svc (env, SvcWorker)
      (on_session i (\<lambda>s. run_task env t (s\<lparr>worker_queue := ts\<rparr>)) (svc\<lparr>task_order := is\<rparr>))"
proof -
  have "i < length (heap svc)" "worker_queue (heap svc ! i) \<noteq> []"
    using reachable_inv[OF assms(1)] assms(2) by (auto simp: svc_inv_def queue_ok_def)
  then obtain t ts where q: "worker_queue (heap svc ! i) = t # ts"
    by (cases "worker_queue (heap svc ! i)") auto
  have "on_session i (\<lambda>s. session_step s (env, Worker)) (svc\<lparr>task_order := is\<rparr>) =
      on_session i (\<lambda>s. run_task env t (s\<lparr>worker_queue := ts\<rparr>)) (svc\<lparr>task_order := is\<rparr>)"
    by (simp add: on_session_def q)
  with svc_step.worker[OF assms(2), of env] q that show ?thesis by metis
qed

text \<open>
  C4. There is at most one open session, and it is the service's own: however clients, the
  worker, the module, timers and dying clients interleave, a session that is not closed is the
  one \<open>mSession\<close> points to, and \<open>createSession\<close> aborts the process with "Open session already
  exists!" exactly when some session is still open.
\<close>

theorem one_open_session:
  assumes "svc_reachable svc"
  shows "(\<forall>i < length (heap svc). \<not> mClosed (heap svc ! i) \<longrightarrow> mSession svc = Some i) \<and>
    (createSession user svc = Inl OpenSessionExists \<longleftrightarrow>
      (\<exists>i < length (heap svc). \<not> mClosed (heap svc ! i)))"
proof -
  have ok: "sessions_ok svc"
    using reachable_inv[OF assms] by (simp add: svc_inv_def)
  have open_is_last: "mSession svc = Some i" if "i < length (heap svc)" "\<not> mClosed (heap svc ! i)" for i
  proof -
    have "\<not> Suc i < length (heap svc)" using ok that(2) by (auto simp: sessions_ok_def)
    then have "length (heap svc) - 1 = i" using that(1) by simp
    then show ?thesis using ok that(1) by (auto simp: sessions_ok_def)
  qed
  have "\<exists>i < length (heap svc). \<not> mClosed (heap svc ! i)" if "\<not> no_open_session svc"
    using that ok by (auto simp: no_open_session_def isClosed_def sessions_ok_def
        split: if_splits option.splits intro!: exI[of _ "length (heap svc) - 1"])
  with open_is_last all_closed[OF ok] show ?thesis
    by (auto simp: createSession_def)
qed

definition good_hal :: hal_env where
  "good_hal = \<lparr>get_module_ret = 0, module_null = False, open_null = False, open_ret = 0,
     set_notify_ret = 0\<rparr>"

definition svc_started :: fp_service where
  "svc_started = Fingerprint_ctor good_hal (Some ''udfps_optical'') None"

definition svc_one :: fp_service where
  "svc_one = svc_started\<lparr>heap := [linkToDeath (Session_ctor 0 LockoutTracker_init [] [] [])],
     mSession := Some 0\<rparr>"

lemma svc_one_created: "createSession 0 svc_started = Inr svc_one"
  by (simp add: createSession_def svc_started_def svc_one_def Fingerprint_ctor_def openHal_def
      good_hal_def no_open_session_def)

lemma svc_one_reachable: "svc_reachable svc_one"
proof -
  have "svc_reachable svc_started" unfolding svc_started_def by (rule svc_reachable.start)
  moreover have "svc_step svc_started (example_env 1, Create 0) svc_one"
    by (simp add: svc_one_created)
  ultimately show ?thesis by (rule svc_reachable.step)
qed

lemma svc_one_simps [simp]:
  "heap svc_one = [linkToDeath (Session_ctor 0 LockoutTracker_init [] [] [])]"
  "mSession svc_one = Some 0" "mDevice svc_one" "svc_tracker svc_one = LockoutTracker_init"
  "static_enrollments svc_one = []"
  by (simp_all add: svc_one_def svc_started_def Fingerprint_ctor_def openHal_def good_hal_def)

theorem one_open_session_witness: "createSession 10 svc_one = Inl OpenSessionExists"
  using one_open_session[OF svc_one_reachable, of 10]
  by (simp add: linkToDeath_def Session_ctor_def)

text \<open>
  A notification of the module reaches the open session and no other: every closed session
  stays as it is, and with no open session nothing changes.
\<close>

theorem notify_reaches_open_session:
  assumes "svc_reachable svc" and "i < length (heap svc)"
  shows "heap (Fingerprint_notify env msg svc) ! i =
    (if mClosed (heap svc ! i) then heap svc ! i
     else session_notify env msg ((heap svc ! i)\<lparr>enrollments := static_enrollments svc\<rparr>))"
proof -
  have ok: "sessions_ok svc"
    using reachable_inv[OF assms(1)] by (simp add: svc_inv_def)
  let ?l = "length (heap svc) - 1"
  have last: "mSession svc = Some ?l" "?l < length (heap svc)"
    using ok assms(2) by (auto simp: sessions_ok_def)
  show ?thesis
  proof (cases "i = ?l")
    case True
    then show ?thesis
      using last by (simp add: Fingerprint_notify_def on_session_def isClosed_def Let_def)
  next
    case False
    then have "mClosed (heap svc ! i)" using ok assms(2) by (simp add: sessions_ok_def)
    with False last show ?thesis
      by (simp add: Fingerprint_notify_def on_session_def Let_def)
  qed
qed

theorem notify_reaches_open_session_witness:
  "heap (Fingerprint_notify (example_env 1) no_match svc_one) ! 0 =
     session_notify (example_env 1) no_match
       ((linkToDeath (Session_ctor 0 LockoutTracker_init [] [] []))\<lparr>enrollments := []\<rparr>)"
  using notify_reaches_open_session[OF svc_one_reachable, of 0 "example_env 1" no_match]
  by (simp add: linkToDeath_def Session_ctor_def)

text \<open>
  A new session starts without lockout, whatever happened before: sessions get a copy of the
  service's tracker, and no event ever changes the original. The failed attempts of a session,
  its timed and even its permanent lockout are gone when the framework closes it and opens the
  next one.
\<close>

theorem lockout_lost_on_reopen:
  assumes "svc_reachable svc" and "createSession user svc = Inr svc'"
  shows "mLockoutTracker (last (heap svc')) = LockoutTracker_init \<and>
    \<not> fst (checkSensorLockout env (last (heap svc')))"
proof -
  have "svc_tracker svc = LockoutTracker_init"
    using reachable_inv[OF assms(1)] by (simp add: svc_inv_def sessions_ok_def)
  then have "mLockoutTracker (last (heap svc')) = LockoutTracker_init"
    using createSession_heap(4)[OF assms(2)] by (simp add: linkToDeath_def Session_ctor_def)
  then show ?thesis
    by (simp add: checkSensorLockout_def getMode_def LockoutTracker_init_def Let_def)
qed

definition svc_locked :: "nat \<Rightarrow> fp_service" where
  "svc_locked n = ((Fingerprint_notify (example_env 1) no_match) ^^ n) svc_one"

definition svc_closed :: fp_service where
  "svc_closed = on_session 0 (\<lambda>s. session_step s (example_env 2, Client CallClose)) (svc_locked 20)"

lemma svc_locked_facts:
  "svc_reachable (svc_locked n) \<and> mSession (svc_locked n) = Some 0 \<and> mDevice (svc_locked n) \<and>
   (\<exists>s. heap (svc_locked n) = [s] \<and> \<not> mClosed s \<and> mFailedCount (mLockoutTracker s) = int n)"
proof (induction n)
  case 0
  then show ?case
    by (simp add: svc_locked_def svc_one_reachable linkToDeath_def Session_ctor_def
        LockoutTracker_init_def)
next
  case (Suc n)
  have next_n: "svc_locked (Suc n) = Fingerprint_notify (example_env 1) no_match (svc_locked n)"
    by (simp add: svc_locked_def)
  then have "svc_step (svc_locked n) (example_env 1, SvcNotify no_match) (svc_locked (Suc n))"
    by simp
  with Suc have "svc_reachable (svc_locked (Suc n))"
    by (blast intro: svc_reachable.step)
  moreover have "mSession (svc_locked (Suc n)) = Some 0 \<and> mDevice (svc_locked (Suc n)) \<and>
      (\<exists>s. heap (svc_locked (Suc n)) = [s] \<and> \<not> mClosed s \<and>
        mFailedCount (mLockoutTracker s) = int (Suc n))"
    using Suc unfolding next_n
    by (auto simp: Fingerprint_notify_def on_session_def isClosed_def Let_def no_match_count)
  ultimately show ?case by blast
qed

lemma svc_closed_facts:
  "svc_reachable svc_closed" "mSession svc_closed = Some 0" "mDevice svc_closed"
  "\<exists>s. heap svc_closed = [s] \<and> mClosed s \<and> mCurrentMode (mLockoutTracker s) = PERMANENT"
proof -
  obtain s where s: "heap (svc_locked 20) = [s]" "mFailedCount (mLockoutTracker s) = 20"
    using svc_locked_facts[of 20] by auto
  have "svc_step (svc_locked 20) (example_env 2, SvcClient 0 CallClose) svc_closed"
    using s(1) by (simp add: svc_closed_def)
  then show r: "svc_reachable svc_closed"
    using svc_locked_facts svc_reachable.step by blast
  show "mSession svc_closed = Some 0" "mDevice svc_closed"
    using svc_locked_facts[of 20] by (simp_all add: svc_closed_def on_session_def Let_def)
  obtain s' where s': "heap svc_closed = [s']" "mClosed s'" "mLockoutTracker s' = mLockoutTracker s"
    using s(1) by (simp add: svc_closed_def on_session_def close_def Let_def)
  have "session_inv s'"
    using reachable_inv[OF r] s'(1) by (simp add: svc_inv_def sessions_ok_def)
  then have "mCurrentMode (mLockoutTracker s') = PERMANENT"
    using s(2) s'(3) by (simp add: session_inv_defs lockout_inv_def LOCKOUT_PERMANENT_THRESHOLD_def)
  with s' show "\<exists>s. heap svc_closed = [s] \<and> mClosed s \<and> mCurrentMode (mLockoutTracker s) = PERMANENT"
    by blast
qed

theorem lockout_lost_on_reopen_witness:
  "mCurrentMode (mLockoutTracker (last (heap svc_closed))) = PERMANENT \<and>
   (\<exists>svc'. createSession 0 svc_closed = Inr svc' \<and>
     mLockoutTracker (last (heap svc')) = LockoutTracker_init)"
proof -
  obtain s where s: "heap svc_closed = [s]" "mClosed s" "mCurrentMode (mLockoutTracker s) = PERMANENT"
    using svc_closed_facts(4) by blast
  then obtain svc' where "createSession 0 svc_closed = Inr svc'"
    using svc_closed_facts(2,3) by (auto simp: createSession_def no_open_session_def isClosed_def)
  with lockout_lost_on_reopen[OF svc_closed_facts(1) this] s show ?thesis by simp
qed

subsection \<open>Sensor properties and the legacy device\<close>

text \<open>
  The location property is read as \<open>x|y|radius\<close> with an optional display; anything else leaves
  the default location, and a field that is not a number keeps its default.
\<close>

lemma parse_location_three:
  assumes "split loc ''|'' = [a, b, c]" and "parse_int a = Some x" "parse_int b = Some y"
    "parse_int c = Some r"
  shows "parse_location split parse_int d loc =
    d\<lparr>sensorLocationX := x, sensorLocationY := y, sensorRadius := r\<rparr>"
  using assms by (simp add: parse_location_def value_or_def)

lemma parse_location_four:
  assumes "split loc ''|'' = [a, b, c, e]"
  shows "display (parse_location split parse_int d loc) = e"
  using assms by (simp add: parse_location_def)

lemma parse_location_malformed:
  assumes "length (split loc ''|'') < 3 \<or> length (split loc ''|'') > 4"
  shows "parse_location split parse_int d loc = d"
  using assms by (auto simp: parse_location_def Let_def)

text \<open>A device the module opened but refused to notify is neither used nor closed.\<close>

lemma refused_notify_leaks_device:
  assumes "set_notify_ret h \<noteq> 0" and "open_ret h = 0" "get_module_ret h = 0" "\<not> module_null h"
    "\<not> open_null h"
  shows "HwOpen \<in> set (fst (openHal h)) \<and>
    fst (Fingerprint_destroy r (Fingerprint_ctor h p m)) = []"
  using assms by (simp add: openHal_def Fingerprint_destroy_def Fingerprint_ctor_def)

lemma sensor_type_known:
  "mSensorType (Fingerprint_ctor h p m) \<noteq> UNKNOWN \<longleftrightarrow>
   p = None \<or> p \<in> Some ` {'''', ''default'', ''rear'', ''udfps'', ''udfps_optical'', ''side'', ''home''}"
  by (cases p) (auto simp: Fingerprint_ctor_def sensor_type_of_def value_or_def)

end
