(* ===== verification/Udfps.thy ===== *)
theory Udfps
  imports Prelude
begin

text \<open>
  The under-display fingerprint extension (\<^verbatim>\<open>src/fingerprint/UdfpsExtension.{h,cpp}\<close>): the
  compositor asks it for the z-order and usage bits of the fingerprint layers. The flag
  \<open>FOD_PRESSED_LAYER_ZORDER\<close> is defined by a kernel header, so it is the first argument of
  \<open>getUdfpsZOrder\<close>.
\<close>

definition getUdfpsDimZOrder :: "i32 \<Rightarrow> status \<times> i32" where
  "getUdfpsDimZOrder z = (StatusOk, z)"

definition getUdfpsZOrder :: "i32 \<Rightarrow> i32 \<Rightarrow> bool \<Rightarrow> status \<times> i32" where
  "getUdfpsZOrder FOD_PRESSED_LAYER_ZORDER z touched =
     (StatusOk, if touched then z OR FOD_PRESSED_LAYER_ZORDER else z)"

definition getUdfpsUsageBits :: "i64 \<Rightarrow> bool \<Rightarrow> status \<times> i64" where
  "getUdfpsUsageBits usageBits touched = (StatusOk, usageBits)"

text \<open>
  The kernel recovers both the flag and the layer from the reported value as long as the layer
  does not use the flag's bits itself.
\<close>

lemma udfps_zorder_decodes:
  assumes "z AND F = 0" and "F \<noteq> 0"
  shows "snd (getUdfpsZOrder F z touched) AND NOT F = z"
    and "snd (getUdfpsZOrder F z touched) AND F = F \<longleftrightarrow> touched"
proof -
  have "bit z n \<longrightarrow> \<not> bit F n" for n
    using assms(1) by (metis bit_0_eq bit_and_iff bot_apply bot_bool_def)
  then show "snd (getUdfpsZOrder F z touched) AND NOT F = z"
    by (auto simp: getUdfpsZOrder_def intro!: bit_word_eqI simp: bit_simps)
  show "snd (getUdfpsZOrder F z touched) AND F = F \<longleftrightarrow> touched"
    using assms by (auto simp: getUdfpsZOrder_def and.assoc bit.conj_disj_distrib2)
qed

lemma udfps_zorder_idempotent:
  "getUdfpsZOrder F (snd (getUdfpsZOrder F z True)) touched = getUdfpsZOrder F z True"
  by (simp add: getUdfpsZOrder_def or.assoc)

end
