(* ===== verification/SensorTypes.thy ===== *)
theory SensorTypes
  imports Prelude
begin

text \<open>
  The vocabulary the sensor components share. The HIDL types of
  \<^verbatim>\<open>android.hardware.sensors\<close> are not part of the repository: \<open>OperationMode\<close>, \<open>Result\<close>,
  \<open>SensorInfo\<close> and \<open>Event\<close> have the members the code uses, and the numeric values of flags and
  sensor types are fields of the record \<open>sensor_consts\<close>, an argument of every definition that
  uses them. \<open>consts_documented\<close> is what the code relies on: the flag bits are distinct, and the
  private sensor types are none of the named ones.
\<close>

datatype OperationMode = NORMAL | DATA_INJECTION

datatype Result = OK | BAD_VALUE | INVALID_OPERATION | OtherResult int

record sensor_consts =
  WAKE_UP :: u32
  ONE_SHOT_MODE :: u32
  FLAG_DATA_INJECTION :: u32
  MASK_DIRECT_REPORT :: u32
  MASK_DIRECT_CHANNEL :: u32
  META_DATA :: i32
  ADDITIONAL_INFO :: i32
  PICK_UP_GESTURE :: i32
  DEVICE_PRIVATE_BASE :: i32
  STRING_TYPE_PICK_UP_GESTURE :: string

definition consts_documented :: "sensor_consts \<Rightarrow> bool" where
  "consts_documented K \<longleftrightarrow>
     WAKE_UP K \<noteq> 0 \<and>
     WAKE_UP K AND FLAG_DATA_INJECTION K = 0 \<and>
     ONE_SHOT_MODE K AND FLAG_DATA_INJECTION K = 0 \<and>
     WAKE_UP K AND (MASK_DIRECT_REPORT K OR MASK_DIRECT_CHANNEL K) = 0 \<and>
     ONE_SHOT_MODE K AND (MASK_DIRECT_REPORT K OR MASK_DIRECT_CHANNEL K) = 0 \<and>
     (\<forall>n \<in> {1, 2, 3}. DEVICE_PRIVATE_BASE K + n \<notin> {META_DATA K, ADDITIONAL_INFO K, PICK_UP_GESTURE K})"

text \<open>The values of the HAL headers, for the examples.\<close>

definition android_consts :: sensor_consts where
  "android_consts = \<lparr>WAKE_UP = 0x1, ONE_SHOT_MODE = 0x4, FLAG_DATA_INJECTION = 0x10,
     MASK_DIRECT_REPORT = 0x380, MASK_DIRECT_CHANNEL = 0xC00, META_DATA = 0, ADDITIONAL_INFO = 33,
     PICK_UP_GESTURE = 25, DEVICE_PRIVATE_BASE = 0x10000,
     STRING_TYPE_PICK_UP_GESTURE = ''android.sensor.pick_up_gesture''\<rparr>"

lemma android_consts_documented: "consts_documented android_consts"
  by (simp add: consts_documented_def android_consts_def)

record SensorInfo =
  sensorHandle :: i32
  info_name :: string
  info_vendor :: string
  info_version :: int
  info_type :: i32
  typeAsString :: string
  maxRange :: int
  resolution :: int
  info_power :: int
  minDelay :: i32
  maxDelay :: i32
  fifoReservedEventCount :: u32
  fifoMaxEventCount :: u32
  requiredPermission :: string
  flags :: u32

text \<open>The value-initialised element \<open>SensorInfo()\<close>.\<close>

definition SensorInfo_zero :: SensorInfo where
  "SensorInfo_zero = \<lparr>sensorHandle = 0, info_name = [], info_vendor = [], info_version = 0,
     info_type = 0, typeAsString = [], maxRange = 0, resolution = 0, info_power = 0,
     minDelay = 0, maxDelay = 0, fifoReservedEventCount = 0, fifoMaxEventCount = 0,
     requiredPermission = [], flags = 0\<rparr>"

text \<open>
  The payload union: a flush-complete record, or an array of floats. The values the
  repository's code writes and compares are integral.
\<close>

datatype payload = FlushComplete | Floats "int list"

fun scalar_is_1 :: "payload \<Rightarrow> bool" where
  "scalar_is_1 (Floats (x # xs)) = (x = 1)"
| "scalar_is_1 _ = False"

record Event =
  ev_handle :: i32
  ev_type :: i32
  timestamp :: i64
  u :: payload

definition has_flag :: "u32 \<Rightarrow> u32 \<Rightarrow> bool" where
  "has_flag fs b = (fs AND b \<noteq> 0)"

lemma has_flag_or: "has_flag (a OR b) c \<longleftrightarrow> has_flag a c \<or> has_flag b c"
proof -
  have "(a OR b) AND c = (a AND c) OR (b AND c)"
    by (simp add: bit.conj_disj_distrib2)
  then show ?thesis
    by (auto simp: has_flag_def or_eq_0_iff)
qed

lemma has_flag_zero [simp]: "\<not> has_flag 0 b"
  by (simp add: has_flag_def)

lemma has_flag_self: "has_flag b b \<longleftrightarrow> b \<noteq> 0"
  by (simp add: has_flag_def)

subsection \<open>The interface of a sub-HAL\<close>

text \<open>
  \<open>ISensorsSubHal\<close> as the multi-HAL proxy calls it, over a type \<open>'h\<close> of sub-HAL states. Most
  sub-HALs are vendor libraries; the repository's own one is an instance. A list that could not
  be fetched is \<open>None\<close>.
\<close>

record 'h sub_hal_ops =
  op_getSensorsList :: "'h \<Rightarrow> SensorInfo list option"
  op_setOperationMode :: "OperationMode \<Rightarrow> 'h \<Rightarrow> Result \<times> 'h"
  op_activate :: "i32 \<Rightarrow> bool \<Rightarrow> 'h \<Rightarrow> Result \<times> 'h"
  op_batch :: "i32 \<Rightarrow> i64 \<Rightarrow> i64 \<Rightarrow> 'h \<Rightarrow> Result \<times> 'h"
  op_flush :: "i32 \<Rightarrow> 'h \<Rightarrow> Result \<times> 'h"
  op_injectSensorData :: "Event \<Rightarrow> 'h \<Rightarrow> Result \<times> 'h"
  op_initialize :: "nat \<Rightarrow> 'h \<Rightarrow> Result \<times> 'h"
  op_registerDirectChannel :: "'h \<Rightarrow> (Result \<times> int) \<times> 'h"
  op_unregisterDirectChannel :: "i32 \<Rightarrow> 'h \<Rightarrow> Result \<times> 'h"
  op_configDirectReport :: "i32 \<Rightarrow> i32 \<Rightarrow> int \<Rightarrow> 'h \<Rightarrow> (Result \<times> int) \<times> 'h"
  op_name :: "'h \<Rightarrow> string"

text \<open>
  What the proxy relies on when it switches operation modes: a sub-HAL that answers \<open>OK\<close> is in
  the requested mode.
\<close>

locale mode_switching =
  fixes ops :: "'h sub_hal_ops"
    and mode_of :: "'h \<Rightarrow> OperationMode"
  assumes switched: "op_setOperationMode ops m h = (OK, h') \<Longrightarrow> mode_of h' = m"
begin

lemma switch_all:
  "\<forall>h \<in> set hs. fst (op_setOperationMode ops m h) = OK \<Longrightarrow>
   \<forall>h \<in> set (map (\<lambda>h. snd (op_setOperationMode ops m h)) hs). mode_of h = m"
  using switched by (auto simp: prod_eq_iff)

end

end
