(* ===== verification/Sensor.thy ===== *)
theory Sensor
  imports SensorTypes
begin

text \<open>
  The gesture sensors of the sub-HAL (\<^verbatim>\<open>src/hidl/sensors/Sensor.{h,cpp}\<close>).

  One record \<open>sensor\<close> stands for an object of the class hierarchy: \<open>cls\<close> is its dynamic type,
  and the \<open>v_\<close> functions are the virtual calls. Beside the members it holds \<open>pc\<close>, where the run
  thread of a one-shot sensor stands (evaluating the loop, blocked in \<open>poll\<close> without the lock,
  or finished); \<open>pipe_bytes\<close>, the bytes waiting in the interrupt pipe; \<open>posted\<close>, the calls of
  the event callback; and \<open>gesture_log\<close>, the bytes the touch driver's enable nodes accepted.

  The client's calls take the run mutex and are atomic; the run thread releases it only around
  \<open>poll\<close>. So a run is a sequence of calls, loop evaluations (\<open>RunLoop\<close>) and returns from \<open>poll\<close>
  (\<open>PollReturns\<close>). Waiting on the condition variable is a loop evaluation that changes nothing.
  What the kernel answers is \<open>sensor_env\<close>.
\<close>

subsection \<open>State\<close>

datatype sensor_class = PlainSensor | UdfpsSensor | SingleTapSensor | DoubleTapSensor

datatype run_pc = Looping | Polling | Finished

record sensor =
  cls :: sensor_class
  mIsEnabled :: bool
  mSamplingPeriodNs :: i64
  mLastSampleTimeNs :: i64
  mSensorInfo :: SensorInfo
  mStopThread :: bool
  mMode :: OperationMode
  mPollFd :: int
  mWaitPipeFd :: "int \<times> int"
  mScreenX :: i32
  mScreenY :: i32
  pc :: run_pc
  pipe_bytes :: nat
  posted :: "(Event list \<times> bool) list"
  gesture_log :: "(string \<times> char) list"

record sensor_env =
  elapsedRealtimeNano :: i64
  realtime_ns :: i64
  poll_rc :: int
  revents0 :: bool
  revents1 :: bool
  lseek_rc :: int
  read_rc :: int
  read_buffer :: string
  gesture_fd :: int
  gesture_write_rc :: int
  uninit_u :: payload
  uninit_timestamp :: i64

record open_env =
  pipe_rc :: int
  pipe_fds :: "int \<times> int"
  poll_fd :: int
  uninit_screen :: "i32 \<times> i32"

subsection \<open>Kernel nodes\<close>

definition readBool :: "sensor_env \<Rightarrow> bool" where
  "readBool env =
     (if lseek_rc env \<noteq> 0 then False
      else if read_rc env \<noteq> 1 then False
      else case read_buffer env of [] \<Rightarrow> False | c # _ \<Rightarrow> c \<noteq> CHR ''0'')"

definition kSingleTapEnablePath :: string where
  "kSingleTapEnablePath = ''/sys/devices/platform/goodix_ts.0/gesture/single_en''"

definition kDoubleTapEnablePath :: string where
  "kDoubleTapEnablePath = ''/sys/devices/platform/goodix_ts.0/gesture/double_en''"

definition writeGestureEnable :: "sensor_env \<Rightarrow> string \<Rightarrow> bool \<Rightarrow> sensor \<Rightarrow> sensor" where
  "writeGestureEnable env path enable s =
     (if gesture_fd env < 0 then s
      else if gesture_write_rc env \<noteq> 1 then s
      else s\<lparr>gesture_log := gesture_log s @ [(path, if enable then CHR ''1'' else CHR ''0'')]\<rparr>)"

text \<open>
  \<open>sscanf(buffer, "%d,%d,%d", ...)\<close>: \<open>scan_int\<close> is one \<open>%d\<close> (white space, a sign, digits), and
  \<open>scan_fp_state\<close> returns the result of \<open>sscanf\<close> (-1 for an empty input, else the number of
  conversions) with the three variables. The string ends at the first NUL of the buffer.
\<close>

definition is_digit :: "char \<Rightarrow> bool" where
  "is_digit c \<longleftrightarrow> 48 \<le> (of_char c :: nat) \<and> (of_char c :: nat) \<le> 57"

definition is_space :: "char \<Rightarrow> bool" where
  "is_space c \<longleftrightarrow> (of_char c :: nat) \<in> {9, 10, 11, 12, 13, 32}"

definition scan_digits :: "string \<Rightarrow> (nat \<times> string) option" where
  "scan_digits cs =
     (let ds = takeWhile is_digit cs in
      if ds = [] then None else Some (read_nat ds, dropWhile is_digit cs))"

definition scan_int :: "string \<Rightarrow> (int \<times> string) option" where
  "scan_int cs =
     (case dropWhile is_space cs of
        [] \<Rightarrow> None
      | c # r \<Rightarrow>
          if c = CHR ''-'' then map_option (\<lambda>(n, r). (- int n, r)) (scan_digits r)
          else if c = CHR ''+'' then map_option (\<lambda>(n, r). (int n, r)) (scan_digits r)
          else map_option (\<lambda>(n, r). (int n, r)) (scan_digits (c # r)))"

definition scan_comma_int :: "string \<Rightarrow> (int \<times> string) option" where
  "scan_comma_int cs = (case cs of c # r \<Rightarrow> if c = CHR '','' then scan_int r else None | [] \<Rightarrow> None)"

definition scan_fp_state :: "string \<Rightarrow> i32 \<Rightarrow> i32 \<Rightarrow> int \<times> i32 \<times> i32 \<times> i32" where
  "scan_fp_state buffer x y =
     (let cs = takeWhile (\<lambda>c. of_char c \<noteq> (0::nat)) buffer in
      if dropWhile is_space cs = [] then (-1, x, y, 0)
      else case scan_int cs of
        None \<Rightarrow> (0, x, y, 0)
      | Some (a, r) \<Rightarrow>
          (case scan_comma_int r of
             None \<Rightarrow> (1, word_of_int a, y, 0)
           | Some (b, r) \<Rightarrow>
               (case scan_comma_int r of
                  None \<Rightarrow> (2, word_of_int a, word_of_int b, 0)
                | Some (c, r) \<Rightarrow> (3, word_of_int a, word_of_int b, word_of_int c))))"

definition readFpState :: "sensor_env \<Rightarrow> i32 \<Rightarrow> i32 \<Rightarrow> bool \<times> i32 \<times> i32" where
  "readFpState env screenX screenY =
     (if lseek_rc env \<noteq> 0 then (False, screenX, screenY)
      else if read_rc env < 0 then (False, screenX, screenY)
      else let (rc, x, y, state) = scan_fp_state (read_buffer env) screenX screenY
           in if rc < 0 then (False, x, y) else (sint state > 0, x, y))"

subsection \<open>Construction\<close>

definition Sensor_ctor :: "SensorInfo \<Rightarrow> sensor_class \<Rightarrow> i32 \<Rightarrow> sensor" where
  "Sensor_ctor uninit c handle =
     \<lparr>cls = c, mIsEnabled = False, mSamplingPeriodNs = 0, mLastSampleTimeNs = 0,
      mSensorInfo = uninit\<lparr>sensorHandle := handle, info_vendor := ''The LineageOS Project'',
        info_version := 1, maxDelay := 1000 * 1000, fifoReservedEventCount := 0,
        fifoMaxEventCount := 0, requiredPermission := [], flags := 0\<rparr>,
      mStopThread = False, mMode = NORMAL, mPollFd = -1, mWaitPipeFd = (-1, -1),
      mScreenX = 0, mScreenY = 0, pc = Looping, pipe_bytes = 0, posted = [], gesture_log = []\<rparr>"

text \<open>
  A constructor runs the one of its base class, then its own body. The coordinates of the UDFPS
  sensor are not initialised by it: they start with the arbitrary \<open>uninit_screen\<close>.
\<close>

definition OneShotSensor_body :: "sensor_consts \<Rightarrow> sensor \<Rightarrow> sensor" where
  "OneShotSensor_body K s =
     (let info = mSensorInfo s in
      s\<lparr>mSensorInfo := info\<lparr>minDelay := -1, maxDelay := 0,
          flags := flags info OR ONE_SHOT_MODE K\<rparr>\<rparr>)"

definition OneShotSensor_ctor :: "sensor_consts \<Rightarrow> SensorInfo \<Rightarrow> sensor_class \<Rightarrow> i32 \<Rightarrow> sensor" where
  "OneShotSensor_ctor K uninit c handle = OneShotSensor_body K (Sensor_ctor uninit c handle)"

text \<open>The second half of the three constructors: the interrupt pipe and the node to poll.\<close>

definition open_wait_fds :: "open_env \<Rightarrow> sensor \<Rightarrow> sensor" where
  "open_wait_fds o' s =
     (let s = s\<lparr>mWaitPipeFd := (if pipe_rc o' < 0 then (-1, -1) else pipe_fds o'),
                mPollFd := poll_fd o'\<rparr>
      in if fst (mWaitPipeFd s) < 0 \<or> snd (mWaitPipeFd s) < 0 \<or> mPollFd s < 0
         then s\<lparr>mStopThread := True\<rparr> else s)"

definition named :: "sensor_consts \<Rightarrow> string \<Rightarrow> i32 \<Rightarrow> string \<Rightarrow> sensor \<Rightarrow> sensor" where
  "named K name private_type type_string s =
     (let info = mSensorInfo s in
      s\<lparr>mSensorInfo := info\<lparr>info_name := name, info_type := DEVICE_PRIVATE_BASE K + private_type,
          typeAsString := type_string, maxRange := 2048, resolution := 1, info_power := 0,
          flags := flags info OR WAKE_UP K\<rparr>\<rparr>)"

definition UdfpsSensor_body :: "sensor_consts \<Rightarrow> open_env \<Rightarrow> sensor \<Rightarrow> sensor" where
  "UdfpsSensor_body K o' s =
     open_wait_fds o' (named K ''UDFPS Sensor'' 1 ''org.lineageos.sensor.udfps''
       (s\<lparr>mScreenX := fst (uninit_screen o'), mScreenY := snd (uninit_screen o')\<rparr>))"

definition UdfpsSensor_ctor :: "sensor_consts \<Rightarrow> SensorInfo \<Rightarrow> open_env \<Rightarrow> i32 \<Rightarrow> sensor" where
  "UdfpsSensor_ctor K uninit o' handle =
     UdfpsSensor_body K o' (OneShotSensor_ctor K uninit UdfpsSensor handle)"

definition SingleTapSensor_body :: "sensor_consts \<Rightarrow> open_env \<Rightarrow> sensor \<Rightarrow> sensor" where
  "SingleTapSensor_body K o' s =
     open_wait_fds o' (named K ''Single Tap Sensor'' 2 ''org.lineageos.sensor.single_touch'' s)"

definition SingleTapSensor_ctor :: "sensor_consts \<Rightarrow> SensorInfo \<Rightarrow> open_env \<Rightarrow> i32 \<Rightarrow> sensor" where
  "SingleTapSensor_ctor K uninit o' handle =
     SingleTapSensor_body K o' (OneShotSensor_ctor K uninit SingleTapSensor handle)"

definition DoubleTapSensor_body :: "sensor_consts \<Rightarrow> open_env \<Rightarrow> sensor \<Rightarrow> sensor" where
  "DoubleTapSensor_body K o' s =
     open_wait_fds o' (named K ''Double Tap Sensor'' 3 ''org.lineageos.sensor.double_touch'' s)"

definition DoubleTapSensor_ctor :: "sensor_consts \<Rightarrow> SensorInfo \<Rightarrow> open_env \<Rightarrow> i32 \<Rightarrow> sensor" where
  "DoubleTapSensor_ctor K uninit o' handle =
     DoubleTapSensor_body K o' (OneShotSensor_ctor K uninit DoubleTapSensor handle)"

subsection \<open>The base class\<close>

definition isWakeUpSensor :: "sensor_consts \<Rightarrow> sensor \<Rightarrow> bool" where
  "isWakeUpSensor K s = has_flag (flags (mSensorInfo s)) (WAKE_UP K)"

definition post :: "sensor_consts \<Rightarrow> Event list \<Rightarrow> sensor \<Rightarrow> sensor" where
  "post K evs s = s\<lparr>posted := posted s @ [(evs, isWakeUpSensor K s)]\<rparr>"

definition clamp :: "int \<Rightarrow> int \<Rightarrow> int \<Rightarrow> int" where
  "clamp v lo hi = (if v < lo then lo else if hi < v then hi else v)"

definition Sensor_batch :: "i32 \<Rightarrow> sensor \<Rightarrow> sensor" where
  "Sensor_batch samplingPeriodNs s =
     (let info = mSensorInfo s;
          p = word_of_int (clamp (sint samplingPeriodNs) (sint (minDelay info * 1000))
                (sint (maxDelay info * 1000)))
      in if mSamplingPeriodNs s \<noteq> p then s\<lparr>mSamplingPeriodNs := p\<rparr> else s)"

definition Sensor_activate :: "bool \<Rightarrow> sensor \<Rightarrow> sensor" where
  "Sensor_activate enable s = (if mIsEnabled s \<noteq> enable then s\<lparr>mIsEnabled := enable\<rparr> else s)"

definition Sensor_flush :: "sensor_consts \<Rightarrow> sensor_env \<Rightarrow> sensor \<Rightarrow> Result \<times> sensor" where
  "Sensor_flush K env s =
     (if \<not> mIsEnabled s then (BAD_VALUE, s)
      else (OK, post K [\<lparr>ev_handle = sensorHandle (mSensorInfo s), ev_type = META_DATA K,
                         timestamp = uninit_timestamp env, u = FlushComplete\<rparr>] s))"

definition Sensor_setOperationMode :: "OperationMode \<Rightarrow> sensor \<Rightarrow> sensor" where
  "Sensor_setOperationMode mode s = (if mMode s \<noteq> mode then s\<lparr>mMode := mode\<rparr> else s)"

definition supportsDataInjection :: "sensor_consts \<Rightarrow> sensor \<Rightarrow> bool" where
  "supportsDataInjection K s = has_flag (flags (mSensorInfo s)) (FLAG_DATA_INJECTION K)"

definition injectEvent :: "sensor_consts \<Rightarrow> Event \<Rightarrow> sensor \<Rightarrow> Result \<times> sensor" where
  "injectEvent K event s =
     (if ev_type event = ADDITIONAL_INFO K then (OK, s)
      else if \<not> supportsDataInjection K s then (INVALID_OPERATION, s)
      else if mMode s = DATA_INJECTION then (OK, post K [event] s)
      else (BAD_VALUE, s))"

definition own_event :: "sensor_env \<Rightarrow> sensor \<Rightarrow> payload \<Rightarrow> Event" where
  "own_event env s p = \<lparr>ev_handle = sensorHandle (mSensorInfo s), ev_type = info_type (mSensorInfo s),
     timestamp = elapsedRealtimeNano env, u = p\<rparr>"

definition Sensor_readEvents :: "sensor_env \<Rightarrow> sensor \<Rightarrow> Event list" where
  "Sensor_readEvents env s = [own_event env s (Floats [0, 0, 0])]"

definition Sensor_destroy :: "sensor \<Rightarrow> sensor" where
  "Sensor_destroy s = s\<lparr>mStopThread := True, mIsEnabled := False\<rparr>"

subsection \<open>One-shot sensors\<close>

definition OneShotSensor_batch :: "i32 \<Rightarrow> sensor \<Rightarrow> sensor" where
  "OneShotSensor_batch samplingPeriodNs s = s"

definition OneShotSensor_flush :: "sensor \<Rightarrow> Result \<times> sensor" where
  "OneShotSensor_flush s = (BAD_VALUE, s)"

definition interruptPoll :: "sensor \<Rightarrow> sensor" where
  "interruptPoll s =
     (if snd (mWaitPipeFd s) < 0 then s else s\<lparr>pipe_bytes := pipe_bytes s + 1\<rparr>)"

definition oneshot_setOperationMode :: "OperationMode \<Rightarrow> sensor \<Rightarrow> sensor" where
  "oneshot_setOperationMode mode s = interruptPoll (Sensor_setOperationMode mode s)"

text \<open>The loop condition and the branch before \<open>poll\<close> in \<open>UdfpsSensor::run\<close>.\<close>

definition oneshot_loop :: "sensor \<Rightarrow> sensor" where
  "oneshot_loop s =
     (if mStopThread s then s\<lparr>pc := Finished\<rparr>
      else if \<not> mIsEnabled s \<or> mMode s = DATA_INJECTION then s
      else s\<lparr>pc := Polling\<rparr>)"

text \<open>\<open>~UdfpsSensor\<close>; the destructor of \<open>Sensor\<close> runs after it.\<close>

definition UdfpsSensor_destroy :: "sensor \<Rightarrow> sensor" where
  "UdfpsSensor_destroy s = interruptPoll s"

definition drain_pipe :: "sensor \<Rightarrow> sensor" where
  "drain_pipe s = s\<lparr>pipe_bytes := pipe_bytes s - 1\<rparr>"

definition Udfps_activate :: "sensor_env \<Rightarrow> bool \<Rightarrow> sensor \<Rightarrow> sensor" where
  "Udfps_activate env enable s =
     (if mIsEnabled s \<noteq> enable then interruptPoll (s\<lparr>mIsEnabled := enable\<rparr>) else s)"

definition Udfps_readEvents :: "sensor_env \<Rightarrow> sensor \<Rightarrow> Event list" where
  "Udfps_readEvents env s =
     [own_event env s (Floats [float_of_int (sint (mScreenX s)), float_of_int (sint (mScreenY s))])]"

text \<open>The rest of a loop iteration, from the return of \<open>poll\<close> on.\<close>

definition Udfps_poll_return :: "sensor_consts \<Rightarrow> sensor_env \<Rightarrow> sensor \<Rightarrow> sensor" where
  "Udfps_poll_return K env s =
     (let s = s\<lparr>pc := Looping\<rparr> in
      if poll_rc env < 0 then s\<lparr>mStopThread := True\<rparr>
      else
        let (fired, x, y) = (if revents1 env then readFpState env (mScreenX s) (mScreenY s)
                             else (False, mScreenX s, mScreenY s));
            s = s\<lparr>mScreenX := x, mScreenY := y\<rparr>
        in if fired then
             (let s = s\<lparr>mIsEnabled := False\<rparr> in post K (Udfps_readEvents env s) s)
           else if revents0 env then drain_pipe s else s)"

definition SingleTap_interruptPoll :: "sensor \<Rightarrow> sensor" where
  "SingleTap_interruptPoll s =
     (if snd (mWaitPipeFd s) < 0 then s else s\<lparr>pipe_bytes := pipe_bytes s + 1\<rparr>)"

definition SingleTapSensor_destroy :: "sensor \<Rightarrow> sensor" where
  "SingleTapSensor_destroy s = SingleTap_interruptPoll s"

definition SingleTap_setOperationMode :: "OperationMode \<Rightarrow> sensor \<Rightarrow> sensor" where
  "SingleTap_setOperationMode mode s = SingleTap_interruptPoll (Sensor_setOperationMode mode s)"

definition SingleTap_loop :: "sensor \<Rightarrow> sensor" where
  "SingleTap_loop s =
     (if mStopThread s then s\<lparr>pc := Finished\<rparr>
      else if \<not> mIsEnabled s \<or> mMode s = DATA_INJECTION then s
      else s\<lparr>pc := Polling\<rparr>)"

definition SingleTap_activate :: "sensor_env \<Rightarrow> bool \<Rightarrow> sensor \<Rightarrow> sensor" where
  "SingleTap_activate env enable s =
     (if mIsEnabled s \<noteq> enable
      then SingleTap_interruptPoll (writeGestureEnable env kSingleTapEnablePath enable
             (s\<lparr>mIsEnabled := enable\<rparr>))
      else s)"

definition SingleTap_readEvents :: "sensor_env \<Rightarrow> sensor \<Rightarrow> Event list" where
  "SingleTap_readEvents env s = [own_event env s (uninit_u env)]"

definition SingleTap_poll_return :: "sensor_consts \<Rightarrow> sensor_env \<Rightarrow> sensor \<Rightarrow> sensor" where
  "SingleTap_poll_return K env s =
     (let s = s\<lparr>pc := Looping\<rparr> in
      if poll_rc env < 0 then s\<lparr>mStopThread := True\<rparr>
      else if revents1 env \<and> readBool env then
        (let s = writeGestureEnable env kSingleTapEnablePath False (s\<lparr>mIsEnabled := False\<rparr>)
         in post K (SingleTap_readEvents env s) s)
      else if revents0 env then drain_pipe s else s)"

definition DoubleTap_interruptPoll :: "sensor \<Rightarrow> sensor" where
  "DoubleTap_interruptPoll s =
     (if snd (mWaitPipeFd s) < 0 then s else s\<lparr>pipe_bytes := pipe_bytes s + 1\<rparr>)"

definition DoubleTapSensor_destroy :: "sensor \<Rightarrow> sensor" where
  "DoubleTapSensor_destroy s = DoubleTap_interruptPoll s"

definition DoubleTap_setOperationMode :: "OperationMode \<Rightarrow> sensor \<Rightarrow> sensor" where
  "DoubleTap_setOperationMode mode s = DoubleTap_interruptPoll (Sensor_setOperationMode mode s)"

definition DoubleTap_loop :: "sensor \<Rightarrow> sensor" where
  "DoubleTap_loop s =
     (if mStopThread s then s\<lparr>pc := Finished\<rparr>
      else if \<not> mIsEnabled s \<or> mMode s = DATA_INJECTION then s
      else s\<lparr>pc := Polling\<rparr>)"

definition DoubleTap_activate :: "sensor_env \<Rightarrow> bool \<Rightarrow> sensor \<Rightarrow> sensor" where
  "DoubleTap_activate env enable s =
     (if mIsEnabled s \<noteq> enable
      then DoubleTap_interruptPoll (writeGestureEnable env kDoubleTapEnablePath enable
             (s\<lparr>mIsEnabled := enable\<rparr>))
      else s)"

definition DoubleTap_readEvents :: "sensor_env \<Rightarrow> sensor \<Rightarrow> Event list" where
  "DoubleTap_readEvents env s = [own_event env s (uninit_u env)]"

definition DoubleTap_poll_return :: "sensor_consts \<Rightarrow> sensor_env \<Rightarrow> sensor \<Rightarrow> sensor" where
  "DoubleTap_poll_return K env s =
     (let s = s\<lparr>pc := Looping\<rparr> in
      if poll_rc env < 0 then s\<lparr>mStopThread := True\<rparr>
      else if revents1 env \<and> readBool env then
        (let s = writeGestureEnable env kDoubleTapEnablePath False (s\<lparr>mIsEnabled := False\<rparr>)
         in post K (DoubleTap_readEvents env s) s)
      else if revents0 env then drain_pipe s else s)"

subsection \<open>Virtual calls and interleavings\<close>

definition v_readEvents :: "sensor_env \<Rightarrow> sensor \<Rightarrow> Event list" where
  "v_readEvents env s =
     (case cls s of
        PlainSensor \<Rightarrow> Sensor_readEvents env s
      | UdfpsSensor \<Rightarrow> Udfps_readEvents env s
      | SingleTapSensor \<Rightarrow> SingleTap_readEvents env s
      | DoubleTapSensor \<Rightarrow> DoubleTap_readEvents env s)"

text \<open>One evaluation of \<open>Sensor::run\<close>: wait, or sample when the period has passed.\<close>

definition Sensor_run :: "sensor_consts \<Rightarrow> sensor_env \<Rightarrow> sensor \<Rightarrow> sensor" where
  "Sensor_run K env s =
     (if mStopThread s then s\<lparr>pc := Finished\<rparr>
      else if \<not> mIsEnabled s \<or> mMode s = DATA_INJECTION then s
      else let now = realtime_ns env;
               nextSampleTime = mLastSampleTimeNs s + mSamplingPeriodNs s
           in if sint now \<ge> sint nextSampleTime
              then post K (v_readEvents env s) (s\<lparr>mLastSampleTimeNs := now\<rparr>)
              else s)"

definition v_activate :: "sensor_env \<Rightarrow> bool \<Rightarrow> sensor \<Rightarrow> sensor" where
  "v_activate env enable s =
     (case cls s of
        PlainSensor \<Rightarrow> Sensor_activate enable s
      | UdfpsSensor \<Rightarrow> Udfps_activate env enable s
      | SingleTapSensor \<Rightarrow> SingleTap_activate env enable s
      | DoubleTapSensor \<Rightarrow> DoubleTap_activate env enable s)"

definition v_setOperationMode :: "OperationMode \<Rightarrow> sensor \<Rightarrow> sensor" where
  "v_setOperationMode mode s =
     (case cls s of
        PlainSensor \<Rightarrow> Sensor_setOperationMode mode s
      | UdfpsSensor \<Rightarrow> oneshot_setOperationMode mode s
      | SingleTapSensor \<Rightarrow> SingleTap_setOperationMode mode s
      | DoubleTapSensor \<Rightarrow> DoubleTap_setOperationMode mode s)"

definition v_batch :: "i32 \<Rightarrow> sensor \<Rightarrow> sensor" where
  "v_batch p s = (if cls s = PlainSensor then Sensor_batch p s else OneShotSensor_batch p s)"

definition v_flush :: "sensor_consts \<Rightarrow> sensor_env \<Rightarrow> sensor \<Rightarrow> Result \<times> sensor" where
  "v_flush K env s =
     (if cls s = PlainSensor then Sensor_flush K env s else OneShotSensor_flush s)"

definition v_run :: "sensor_consts \<Rightarrow> sensor_env \<Rightarrow> sensor \<Rightarrow> sensor" where
  "v_run K env s =
     (case cls s of
        PlainSensor \<Rightarrow> Sensor_run K env s
      | UdfpsSensor \<Rightarrow> oneshot_loop s
      | SingleTapSensor \<Rightarrow> SingleTap_loop s
      | DoubleTapSensor \<Rightarrow> DoubleTap_loop s)"

definition v_poll_return :: "sensor_consts \<Rightarrow> sensor_env \<Rightarrow> sensor \<Rightarrow> sensor" where
  "v_poll_return K env s =
     (case cls s of
        PlainSensor \<Rightarrow> s
      | UdfpsSensor \<Rightarrow> Udfps_poll_return K env s
      | SingleTapSensor \<Rightarrow> SingleTap_poll_return K env s
      | DoubleTapSensor \<Rightarrow> DoubleTap_poll_return K env s)"

text \<open>The destructor of the sensor's own class.\<close>

definition v_destroy :: "sensor \<Rightarrow> sensor" where
  "v_destroy s =
     (case cls s of
        PlainSensor \<Rightarrow> s
      | UdfpsSensor \<Rightarrow> UdfpsSensor_destroy s
      | SingleTapSensor \<Rightarrow> SingleTapSensor_destroy s
      | DoubleTapSensor \<Rightarrow> DoubleTapSensor_destroy s)"

text \<open>
  The three gesture classes have copies of four functions. They agree, so the proofs below need
  one of each.
\<close>

lemma interruptPoll_copies [simp]:
  "SingleTap_interruptPoll = interruptPoll" "DoubleTap_interruptPoll = interruptPoll"
  by (simp_all add: fun_eq_iff SingleTap_interruptPoll_def DoubleTap_interruptPoll_def interruptPoll_def)

lemma loop_copies [simp]: "SingleTap_loop = oneshot_loop" "DoubleTap_loop = oneshot_loop"
  by (simp_all add: fun_eq_iff SingleTap_loop_def DoubleTap_loop_def oneshot_loop_def)

lemma v_setOperationMode_alt:
  "v_setOperationMode mode s =
     (if cls s = PlainSensor then Sensor_setOperationMode mode s else oneshot_setOperationMode mode s)"
  by (simp add: v_setOperationMode_def oneshot_setOperationMode_def SingleTap_setOperationMode_def
      DoubleTap_setOperationMode_def split: sensor_class.split)

lemma v_run_alt: "v_run K env s = (if cls s = PlainSensor then Sensor_run K env s else oneshot_loop s)"
  by (simp add: v_run_def split: sensor_class.split)

lemma v_destroy_alt: "v_destroy s = (if cls s = PlainSensor then s else interruptPoll s)"
  by (simp add: v_destroy_def UdfpsSensor_destroy_def SingleTapSensor_destroy_def
      DoubleTapSensor_destroy_def split: sensor_class.split)

datatype sensor_op =
    OpActivate bool | OpSetMode OperationMode | OpInject Event | OpFlush | OpBatch i32
  | RunLoop | PollReturns

fun sensor_step :: "sensor_consts \<Rightarrow> sensor \<Rightarrow> sensor_env \<times> sensor_op \<Rightarrow> sensor" where
  "sensor_step K s (env, OpActivate b) = v_activate env b s"
| "sensor_step K s (env, OpSetMode m) = v_setOperationMode m s"
| "sensor_step K s (env, OpInject e) = snd (injectEvent K e s)"
| "sensor_step K s (env, OpFlush) = snd (v_flush K env s)"
| "sensor_step K s (env, OpBatch p) = v_batch p s"
| "sensor_step K s (env, RunLoop) = (if pc s = Looping then v_run K env s else s)"
| "sensor_step K s (env, PollReturns) = (if pc s = Polling then v_poll_return K env s else s)"

subsection \<open>The contract of a one-shot sensor\<close>

text \<open>
  \<open>armed\<close>: an event may still come. A sensor that was switched off while its thread is in
  \<open>poll\<close> is still armed.
\<close>

definition armed :: "sensor \<Rightarrow> bool" where
  "armed s \<longleftrightarrow> mIsEnabled s \<or> pc s = Polling"

definition own_post :: "sensor_consts \<Rightarrow> sensor \<Rightarrow> Event list \<times> bool \<Rightarrow> bool" where
  "own_post K s p \<longleftrightarrow> snd p = isWakeUpSensor K s \<and>
     map (\<lambda>e. (ev_handle e, ev_type e)) (fst p) =
       [(sensorHandle (mSensorInfo s), info_type (mSensorInfo s))]"

definition gesture_accepts :: "sensor_env \<Rightarrow> bool" where
  "gesture_accepts env \<longleftrightarrow> 0 \<le> gesture_fd env \<and> gesture_write_rc env = 1"

definition node_char :: "bool \<Rightarrow> char" where
  "node_char b = (if b then CHR ''1'' else CHR ''0'')"

text \<open>The enable node holds what the sensor believes: \<open>1\<close> was the last byte written iff it is enabled.\<close>

definition node_ok :: "string \<Rightarrow> sensor \<Rightarrow> bool" where
  "node_ok path s \<longleftrightarrow> list_all (\<lambda>p. fst p = path) (gesture_log s) \<and>
     (mIsEnabled s \<longleftrightarrow> gesture_log s \<noteq> [] \<and> snd (last (gesture_log s)) = CHR ''1'')"

locale one_shot =
  fixes act :: "sensor_env \<Rightarrow> bool \<Rightarrow> sensor \<Rightarrow> sensor"
    and ret :: "sensor_consts \<Rightarrow> sensor_env \<Rightarrow> sensor \<Rightarrow> sensor"
  assumes act_sets: "mIsEnabled (act env b s) = b"
    and act_keeps: "posted (act env b s) = posted s" "pc (act env b s) = pc s"
      "cls (act env b s) = cls s" "mSensorInfo (act env b s) = mSensorInfo s"
      "mMode (act env b s) = mMode s"
    and ret_keeps: "pc (ret K env s) = Looping" "cls (ret K env s) = cls s"
      "mSensorInfo (ret K env s) = mSensorInfo s" "mMode (ret K env s) = mMode s"
    and ret_posts: "posted (ret K env s) = posted s \<and> mIsEnabled (ret K env s) = mIsEnabled s \<or>
      (\<exists>p. own_post K s p \<and> posted (ret K env s) = posted s @ [p] \<and> \<not> mIsEnabled (ret K env s))"
begin

lemma ret_budget:
  "pc s = Polling \<Longrightarrow>
   length (posted (ret K env s)) + of_bool (armed (ret K env s)) \<le>
     length (posted s) + of_bool (armed s)"
  using ret_posts[of K env s] by (auto simp: armed_def ret_keeps)

lemma act_budget:
  "length (posted (act env b s)) + of_bool (armed (act env b s)) \<le>
     length (posted s) + of_bool (armed s) + of_bool b"
  by (simp add: armed_def act_keeps act_sets)

lemma ret_own: "list_all (own_post K s) (posted s) \<Longrightarrow> list_all (own_post K s) (posted (ret K env s))"
  using ret_posts[of K env s] by auto

end

locale gesture_sensor = one_shot +
  fixes path :: string
  assumes act_node: "gesture_accepts env \<Longrightarrow>
      gesture_log (act env b s) =
        gesture_log s @ (if mIsEnabled s \<noteq> b then [(path, node_char b)] else [])"
    and ret_node: "gesture_accepts env \<Longrightarrow>
      gesture_log (ret K env s) =
        gesture_log s @ (if posted (ret K env s) = posted s then [] else [(path, node_char False)])"
begin

lemma act_node_ok: "gesture_accepts env \<Longrightarrow> node_ok path s \<Longrightarrow> node_ok path (act env b s)"
  by (auto simp: node_ok_def act_node act_sets node_char_def)

lemma ret_node_ok: "gesture_accepts env \<Longrightarrow> node_ok path s \<Longrightarrow> node_ok path (ret K env s)"
  using ret_posts[of K env s] by (auto simp: node_ok_def ret_node node_char_def)

end

lemmas fire_defs =
  post_def own_post_def own_event_def interruptPoll_def writeGestureEnable_def drain_pipe_def
  isWakeUpSensor_def Let_def

interpretation udfps: one_shot Udfps_activate Udfps_poll_return
proof unfold_locales
  fix K env s
  show "posted (Udfps_poll_return K env s) = posted s \<and>
      mIsEnabled (Udfps_poll_return K env s) = mIsEnabled s \<or>
    (\<exists>p. own_post K s p \<and> posted (Udfps_poll_return K env s) = posted s @ [p] \<and>
      \<not> mIsEnabled (Udfps_poll_return K env s))"
    by (auto simp: Udfps_poll_return_def Udfps_readEvents_def fire_defs split: prod.splits)
qed (auto simp: Udfps_activate_def Udfps_poll_return_def fire_defs split: prod.splits)

interpretation single_tap: gesture_sensor SingleTap_activate SingleTap_poll_return kSingleTapEnablePath
  by unfold_locales
    (auto simp: SingleTap_activate_def SingleTap_poll_return_def SingleTap_readEvents_def
      gesture_accepts_def node_char_def fire_defs)

interpretation double_tap: gesture_sensor DoubleTap_activate DoubleTap_poll_return kDoubleTapEnablePath
  by unfold_locales
    (auto simp: DoubleTap_activate_def DoubleTap_poll_return_def DoubleTap_readEvents_def
      gesture_accepts_def node_char_def fire_defs)

subsection \<open>Runs of a one-shot sensor\<close>

lemma setOperationMode_keeps [simp]:
  "posted (v_setOperationMode m s) = posted s" "pc (v_setOperationMode m s) = pc s"
  "cls (v_setOperationMode m s) = cls s" "mSensorInfo (v_setOperationMode m s) = mSensorInfo s"
  "mIsEnabled (v_setOperationMode m s) = mIsEnabled s"
  "gesture_log (v_setOperationMode m s) = gesture_log s"
  by (simp_all add: v_setOperationMode_alt oneshot_setOperationMode_def Sensor_setOperationMode_def
      interruptPoll_def)

lemma injectEvent_refused: "\<not> supportsDataInjection K s \<Longrightarrow> snd (injectEvent K e s) = s"
  by (simp add: injectEvent_def)

lemma oneshot_loop_keeps [simp]:
  "posted (oneshot_loop s) = posted s" "cls (oneshot_loop s) = cls s"
  "mSensorInfo (oneshot_loop s) = mSensorInfo s" "mIsEnabled (oneshot_loop s) = mIsEnabled s"
  "gesture_log (oneshot_loop s) = gesture_log s" "armed (oneshot_loop s) \<Longrightarrow> armed s"
  by (auto simp: oneshot_loop_def armed_def split: if_splits)

lemmas virtual_defs =
  v_activate_def v_poll_return_def v_run_alt v_flush_def v_batch_def OneShotSensor_flush_def
  OneShotSensor_batch_def

lemma sensor_step_static:
  assumes "cls s \<noteq> PlainSensor" and "\<not> supportsDataInjection K s"
  shows "cls (sensor_step K s ev) = cls s" "mSensorInfo (sensor_step K s ev) = mSensorInfo s"
  using assms
  by (cases "(K, s, ev)" rule: sensor_step.cases;
      cases "cls s"; simp add: virtual_defs injectEvent_refused udfps.act_keeps udfps.ret_keeps
        single_tap.act_keeps single_tap.ret_keeps double_tap.act_keeps double_tap.ret_keeps)+

lemma sensor_step_mode:
  assumes "cls s \<noteq> PlainSensor" and "\<not> supportsDataInjection K s" and "\<forall>m. op \<noteq> OpSetMode m"
  shows "mMode (sensor_step K s (env, op)) = mMode s"
  using assms
  by (cases op; cases "cls s")
    (simp_all add: virtual_defs injectEvent_refused oneshot_loop_def udfps.act_keeps udfps.ret_keeps
      single_tap.act_keeps single_tap.ret_keeps double_tap.act_keeps double_tap.ret_keeps)

lemma own_post_info: "mSensorInfo s' = mSensorInfo s \<Longrightarrow> own_post K s' = own_post K s"
  by (simp add: own_post_def isWakeUpSensor_def fun_eq_iff)

lemma sensor_step_own:
  assumes "cls s \<noteq> PlainSensor" and "\<not> supportsDataInjection K s"
    and "list_all (own_post K s) (posted s)"
  shows "list_all (own_post K s) (posted (sensor_step K s ev))"
  using assms
  by (cases "(K, s, ev)" rule: sensor_step.cases)
    (simp_all add: virtual_defs injectEvent_refused udfps.act_keeps single_tap.act_keeps
      double_tap.act_keeps udfps.ret_own single_tap.ret_own double_tap.ret_own
      split: sensor_class.splits)

definition activations :: "(sensor_env \<times> sensor_op) list \<Rightarrow> nat" where
  "activations ops = length (filter (\<lambda>p. snd p = OpActivate True) ops)"

lemma activations_activate: "activations [(env, OpActivate b)] = of_bool b"
  by (simp add: activations_def)

lemma sensor_step_budget:
  assumes "cls s \<noteq> PlainSensor" and "\<not> supportsDataInjection K s"
  shows "length (posted (sensor_step K s ev)) + of_bool (armed (sensor_step K s ev)) \<le>
    length (posted s) + of_bool (armed s) + activations [ev]"
  using assms
proof (cases "(K, s, ev)" rule: sensor_step.cases)
  case (1 K s env b)
  then show ?thesis
    using assms(1) udfps.act_budget[of env b s] single_tap.act_budget[of env b s]
      double_tap.act_budget[of env b s]
    by (cases "cls s") (simp_all only: v_activate_def activations_activate sensor_step.simps
        sensor_class.case simp_thms prod.inject)
next
  case (7 K s env)
  then show ?thesis
    using assms(1) udfps.ret_budget[of s K env] single_tap.ret_budget[of s K env]
      double_tap.ret_budget[of s K env]
    by (cases "cls s") (simp_all add: v_poll_return_def activations_def)
next
  case (6 K s env)
  then show ?thesis
    using assms(1) oneshot_loop_keeps(6)[of s] by (auto simp: v_run_alt activations_def)
qed (simp_all add: virtual_defs injectEvent_refused armed_def activations_def)

lemma sensor_run_budget:
  assumes "cls s \<noteq> PlainSensor" and "\<not> supportsDataInjection K s"
    and "list_all (own_post K s) (posted s)"
  shows "(let s' = foldl (sensor_step K) s ops
    in length (posted s') + of_bool (armed s') \<le>
         length (posted s) + of_bool (armed s) + activations ops \<and>
       list_all (own_post K s) (posted s') \<and> mSensorInfo s' = mSensorInfo s \<and> cls s' = cls s)"
  using assms
proof (induction ops arbitrary: s)
  case (Cons ev ops)
  let ?s = "sensor_step K s ev"
  have st: "cls ?s = cls s" "mSensorInfo ?s = mSensorInfo s"
    using sensor_step_static[OF Cons.prems(1,2)] by auto
  have "activations (ev # ops) = activations [ev] + activations ops"
    by (simp add: activations_def)
  moreover have "\<not> supportsDataInjection K ?s" "list_all (own_post K ?s) (posted ?s)"
    using Cons.prems(2) sensor_step_own[OF Cons.prems] st(2) own_post_info[OF st(2)]
    by (simp_all add: supportsDataInjection_def)
  ultimately show ?case
    using Cons.IH[of ?s] Cons.prems(1) st sensor_step_budget[OF Cons.prems(1,2), of ev]
      own_post_info[OF st(2)]
    by (simp add: Let_def)
qed (simp add: activations_def Let_def)

lemma open_wait_fds_keeps [simp]:
  "cls (open_wait_fds o' s) = cls s" "mIsEnabled (open_wait_fds o' s) = mIsEnabled s"
  "mSensorInfo (open_wait_fds o' s) = mSensorInfo s" "posted (open_wait_fds o' s) = posted s"
  "pc (open_wait_fds o' s) = pc s" "gesture_log (open_wait_fds o' s) = gesture_log s"
  "mMode (open_wait_fds o' s) = mMode s" "pipe_bytes (open_wait_fds o' s) = pipe_bytes s"
  by (simp_all add: open_wait_fds_def Let_def)

lemmas ctor_defs =
  UdfpsSensor_ctor_def SingleTapSensor_ctor_def DoubleTapSensor_ctor_def UdfpsSensor_body_def
  SingleTapSensor_body_def DoubleTapSensor_body_def named_def OneShotSensor_ctor_def
  OneShotSensor_body_def Sensor_ctor_def Let_def

text \<open>The three constructors of the sub-HAL's sensors.\<close>

definition gesture_ctors :: "(sensor_consts \<Rightarrow> SensorInfo \<Rightarrow> open_env \<Rightarrow> i32 \<Rightarrow> sensor) set" where
  "gesture_ctors = {UdfpsSensor_ctor, SingleTapSensor_ctor, DoubleTapSensor_ctor}"

lemma ctor_facts:
  assumes "ctor \<in> gesture_ctors" and "consts_documented K"
  shows "cls (ctor K uninit o' h) \<noteq> PlainSensor" "\<not> supportsDataInjection K (ctor K uninit o' h)"
    "isWakeUpSensor K (ctor K uninit o' h)" "posted (ctor K uninit o' h) = []"
    "\<not> armed (ctor K uninit o' h)" "sensorHandle (mSensorInfo (ctor K uninit o' h)) = h"
    "gesture_log (ctor K uninit o' h) = []" "\<not> mIsEnabled (ctor K uninit o' h)"
proof -
  have fl: "flags (mSensorInfo (ctor K uninit o' h)) = ONE_SHOT_MODE K OR WAKE_UP K"
    using assms(1) by (auto simp: gesture_ctors_def ctor_defs)
  then show "\<not> supportsDataInjection K (ctor K uninit o' h)" "isWakeUpSensor K (ctor K uninit o' h)"
    using assms(2)
    by (simp_all add: supportsDataInjection_def isWakeUpSensor_def has_flag_or has_flag_self)
      (simp add: has_flag_def consts_documented_def, simp add: consts_documented_def)
qed (use assms(1) in \<open>auto simp: gesture_ctors_def ctor_defs armed_def\<close>)


definition sensor_example_env :: sensor_env where
  "sensor_example_env = \<lparr>elapsedRealtimeNano = 7, realtime_ns = 9, poll_rc = 1, revents0 = False,
     revents1 = True, lseek_rc = 0, read_rc = 1, read_buffer = ''1'', gesture_fd = 3,
     gesture_write_rc = 1, uninit_u = Floats [], uninit_timestamp = 0\<rparr>"

definition open_example :: open_env where
  "open_example = \<lparr>pipe_rc = 0, pipe_fds = (4, 5), poll_fd = 6, uninit_screen = (99, 99)\<rparr>"

definition tap_run :: "(sensor_env \<times> sensor_op) list" where
  "tap_run = map (Pair sensor_example_env)
     [OpActivate True, RunLoop, PollReturns, RunLoop, PollReturns, OpInject
       \<lparr>ev_handle = 2, ev_type = 5, timestamp = 0, u = Floats [1]\<rparr>]"

definition tapped :: sensor where
  "tapped = foldl (sensor_step android_consts)
     (SingleTapSensor_ctor android_consts SensorInfo_zero open_example 2) tap_run"

lemma tapped_posted: "posted tapped = [([\<lparr>ev_handle = 2, ev_type = 0x10002, timestamp = 7,
    u = Floats []\<rparr>], True)]"
  by (simp add: tapped_def tap_run_def ctor_defs open_wait_fds_def SensorInfo_zero_def open_example_def
      sensor_example_env_def virtual_defs SingleTap_activate_def oneshot_loop_def injectEvent_def
      SingleTap_poll_return_def SingleTap_readEvents_def readBool_def fire_defs android_consts_def
      supportsDataInjection_def has_flag_def)


subsection \<open>The touch driver's enable nodes\<close>

lemma single_step_node:
  assumes "cls s = SingleTapSensor" "\<not> supportsDataInjection K s" "gesture_accepts (fst ev)"
    "node_ok kSingleTapEnablePath s"
  shows "node_ok kSingleTapEnablePath (sensor_step K s ev)"
  using assms
  by (cases "(K, s, ev)" rule: sensor_step.cases)
    (simp_all add: virtual_defs injectEvent_refused single_tap.act_node_ok single_tap.ret_node_ok,
     simp_all add: node_ok_def)

lemma double_step_node:
  assumes "cls s = DoubleTapSensor" "\<not> supportsDataInjection K s" "gesture_accepts (fst ev)"
    "node_ok kDoubleTapEnablePath s"
  shows "node_ok kDoubleTapEnablePath (sensor_step K s ev)"
  using assms
  by (cases "(K, s, ev)" rule: sensor_step.cases)
    (simp_all add: virtual_defs injectEvent_refused double_tap.act_node_ok double_tap.ret_node_ok,
     simp_all add: node_ok_def)

lemma run_node:
  assumes "c \<noteq> PlainSensor"
    and "\<And>s ev. cls s = c \<Longrightarrow> \<not> supportsDataInjection K s \<Longrightarrow> gesture_accepts (fst ev) \<Longrightarrow>
      node_ok path s \<Longrightarrow> node_ok path (sensor_step K s ev)"
    and "cls s = c" "\<not> supportsDataInjection K s" "node_ok path s"
    and "\<forall>ev \<in> set ops. gesture_accepts (fst ev)"
  shows "node_ok path (foldl (sensor_step K) s ops)"
  using assms(3-6)
proof (induction ops arbitrary: s)
  case (Cons ev ops)
  then have "cls (sensor_step K s ev) = c" "\<not> supportsDataInjection K (sensor_step K s ev)"
    using assms(1) sensor_step_static[of s K ev] by (simp_all add: supportsDataInjection_def)
  then show ?case
    using Cons assms(2)[of s ev] by simp
qed simp

text \<open>
  The touch controller reports taps exactly while the sensor wants them: as long as the
  driver accepts the writes, the byte last written to \<open>single_en\<close> (\<open>double_en\<close>) is 1 iff the
  single-tap (double-tap) sensor is enabled, after any run, also when the sensor switched itself
  off by firing; and nothing else is written.
\<close>

theorem gesture_node_follows:
  assumes "consts_documented K" and "\<forall>ev \<in> set ops. gesture_accepts (fst ev)"
  shows "node_ok kSingleTapEnablePath
      (foldl (sensor_step K) (SingleTapSensor_ctor K uninit o' h) ops) \<and>
    node_ok kDoubleTapEnablePath
      (foldl (sensor_step K) (DoubleTapSensor_ctor K uninit o' h) ops)"
proof
  have c: "SingleTapSensor_ctor \<in> gesture_ctors" "DoubleTapSensor_ctor \<in> gesture_ctors"
    by (simp_all add: gesture_ctors_def)
  note s = ctor_facts[OF c(1) assms(1), of uninit o' h]
  note d = ctor_facts[OF c(2) assms(1), of uninit o' h]
  have start: "node_ok kSingleTapEnablePath (SingleTapSensor_ctor K uninit o' h)"
    "node_ok kDoubleTapEnablePath (DoubleTapSensor_ctor K uninit o' h)"
    using s(7,8) d(7,8) by (simp_all add: node_ok_def)
  have cl: "cls (SingleTapSensor_ctor K uninit o' h) = SingleTapSensor"
    "cls (DoubleTapSensor_ctor K uninit o' h) = DoubleTapSensor"
    by (simp_all add: ctor_defs)
  show "node_ok kSingleTapEnablePath
      (foldl (sensor_step K) (SingleTapSensor_ctor K uninit o' h) ops)"
    by (rule run_node[OF _ single_step_node cl(1) s(2) start(1) assms(2)]) simp_all
  show "node_ok kDoubleTapEnablePath
      (foldl (sensor_step K) (DoubleTapSensor_ctor K uninit o' h) ops)"
    by (rule run_node[OF _ double_step_node cl(2) d(2) start(2) assms(2)]) simp_all
qed

theorem gesture_node_follows_witness:
  "node_ok kSingleTapEnablePath tapped"
  using gesture_node_follows[OF android_consts_documented, of tap_run SensorInfo_zero open_example 2]
  by (simp add: tapped_def tap_run_def gesture_accepts_def sensor_example_env_def)

subsection \<open>Switching off and destruction against a thread in \<open>poll\<close>\<close>

text \<open>
  A sensor that is switched off while its thread is in \<open>poll\<close> still reports a tap when both
  descriptors are ready: the loop does not look at \<open>mIsEnabled\<close> again after \<open>poll\<close>.
\<close>

lemma event_after_deactivation:
  assumes "cls s = SingleTapSensor" "pc s = Polling" "poll_rc env \<ge> 0" "revents1 env" "readBool env"
  shows "\<exists>p. posted (sensor_step K (sensor_step K s (env0, OpActivate False)) (env, PollReturns)) =
    posted s @ [p]"
  using assms
  by (simp add: v_activate_def v_poll_return_def single_tap.act_keeps SingleTap_poll_return_def
      fire_defs)

text \<open>
  Destroying an enabled gesture sensor can block for ever. The destructor of the derived class
  interrupts \<open>poll\<close> before the base class sets \<open>mStopThread\<close>; if the thread takes the interrupt
  byte in between, it is back in \<open>poll\<close>, with no timeout and an empty pipe, when the flag is
  set, and \<open>join\<close> waits for a thread that waits for a touch.
\<close>

theorem destructor_can_hang:
  assumes "cls s \<noteq> PlainSensor" "pc s = Polling" "mIsEnabled s" "mMode s = NORMAL"
    "\<not> mStopThread s" "pipe_bytes s = 0" "snd (mWaitPipeFd s) \<ge> 0"
    and "poll_rc env \<ge> 0" "revents0 env" "\<not> revents1 env"
    and "s' = Sensor_destroy
      (foldl (sensor_step K) (v_destroy s) [(env, PollReturns), (env, RunLoop)])"
  shows "mStopThread s' \<and> pc s' = Polling \<and> pipe_bytes s' = 0"
  using assms
  by (cases "cls s")
    (simp_all add: Sensor_destroy_def v_destroy_alt interruptPoll_def v_poll_return_def v_run_alt oneshot_loop_def
      Udfps_poll_return_def SingleTap_poll_return_def DoubleTap_poll_return_def drain_pipe_def)

definition polling_sensor :: sensor where
  "polling_sensor = foldl (sensor_step android_consts)
     (UdfpsSensor_ctor android_consts SensorInfo_zero open_example 1)
     (map (Pair (sensor_example_env\<lparr>revents0 := True, revents1 := False\<rparr>))
        [OpActivate True, RunLoop, PollReturns, RunLoop])"

theorem destructor_can_hang_witness:
  "pc (Sensor_destroy (foldl (sensor_step android_consts) (v_destroy polling_sensor)
     [(sensor_example_env\<lparr>revents0 := True, revents1 := False\<rparr>, PollReturns),
      (sensor_example_env\<lparr>revents0 := True, revents1 := False\<rparr>, RunLoop)])) = Polling"
proof -
  have "cls polling_sensor \<noteq> PlainSensor" "pc polling_sensor = Polling" "mIsEnabled polling_sensor"
    "mMode polling_sensor = NORMAL" "\<not> mStopThread polling_sensor" "pipe_bytes polling_sensor = 0"
    "snd (mWaitPipeFd polling_sensor) \<ge> 0"
    by (simp_all add: polling_sensor_def ctor_defs open_wait_fds_def open_example_def
        sensor_example_env_def virtual_defs Udfps_activate_def interruptPoll_def oneshot_loop_def
        Udfps_poll_return_def drain_pipe_def)
  from destructor_can_hang[OF this, of "sensor_example_env\<lparr>revents0 := True, revents1 := False\<rparr>",
      OF _ _ _ refl, of android_consts]
  show ?thesis by (simp add: sensor_example_env_def)
qed

subsection \<open>Reading the fingerprint state\<close>

lemma show_nat_digits: "show_nat n \<noteq> [] \<and> list_all is_digit (show_nat n)"
proof (induction n rule: show_nat.induct)
  case (1 n)
  have "is_digit (char_of (48 + m))" if "m < 10" for m :: nat
    using that by (simp add: is_digit_def)
  then show ?case
    using 1 by (cases "n < 10") (simp_all add: show_nat.simps[of n])
qed

lemma scan_digits_show:
  assumes "rest = [] \<or> \<not> is_digit (hd rest)"
  shows "scan_digits (show_nat n @ rest) = Some (n, rest)"
proof -
  have all: "\<And>c. c \<in> set (show_nat n) \<Longrightarrow> is_digit c"
    using show_nat_digits[of n] by (simp add: list_all_iff)
  have "takeWhile is_digit rest = []" "dropWhile is_digit rest = rest"
    using assms by (cases rest; simp)+
  then have "takeWhile is_digit (show_nat n @ rest) = show_nat n"
    "dropWhile is_digit (show_nat n @ rest) = rest"
    using all by (simp_all add: takeWhile_append2 dropWhile_append2)
  then show ?thesis
    using show_nat_digits[of n] by (simp add: scan_digits_def read_show_nat)
qed

lemma digit_not_other: "is_digit c \<Longrightarrow> \<not> is_space c \<and> c \<noteq> CHR ''-'' \<and> c \<noteq> CHR ''+'' \<and> of_char c \<noteq> (0::nat)"
  by (auto simp: is_digit_def is_space_def)

lemma scan_int_show:
  assumes "rest = [] \<or> \<not> is_digit (hd rest)"
  shows "scan_int (show_int i @ rest) = Some (i, rest)"
proof (cases "i < 0")
  case True
  have "\<not> is_space (CHR ''-'')" by (simp add: is_space_def)
  with True show ?thesis
    using scan_digits_show[OF assms, of "nat (- i)"] by (simp add: show_int_def scan_int_def)
next
  case False
  obtain c cs where s: "show_nat (nat i) = c # cs" "is_digit c"
    using show_nat_digits[of "nat i"] by (cases "show_nat (nat i)") auto
  then show ?thesis
    using scan_digits_show[OF assms, of "nat i"] False digit_not_other[of c]
    by (simp add: show_int_def scan_int_def)
qed

lemma show_int_chars: "c \<in> set (show_int i) \<Longrightarrow> is_digit c \<or> c = CHR ''-''"
  using show_nat_digits by (auto simp: show_int_def list_all_iff split: if_splits)

lemma show_int_no_nul: "c \<in> set (show_int i) \<Longrightarrow> of_char c \<noteq> (0::nat)"
  using show_int_chars digit_not_other by fastforce

lemma show_int_start: "dropWhile is_space (show_int i @ r) \<noteq> []"
proof -
  have "show_int i \<noteq> []"
    using show_nat_digits by (auto simp: show_int_def)
  then obtain c cs where "show_int i = c # cs" by (cases "show_int i") auto
  moreover have "\<not> is_space c"
    using show_int_chars[of c i] digit_not_other[of c] \<open>show_int i = c # cs\<close>
    by (auto simp: is_space_def)
  ultimately show ?thesis by simp
qed

definition fp_text :: "int \<Rightarrow> int \<Rightarrow> int \<Rightarrow> string \<Rightarrow> string" where
  "fp_text x y state rest =
     show_int x @ '','' @ show_int y @ '','' @ show_int state @ rest"

lemma scan_fp_text:
  assumes "rest = [] \<or> \<not> is_digit (hd rest)"
  shows "scan_fp_state (fp_text x y state rest) x0 y0 =
    (3, word_of_int x, word_of_int y, word_of_int state)"
proof -
  let ?t = "takeWhile (\<lambda>c. of_char c \<noteq> (0::nat)) rest"
  have t: "takeWhile (\<lambda>c. of_char c \<noteq> (0::nat)) (fp_text x y state rest) = fp_text x y state ?t"
    using show_int_no_nul by (simp add: fp_text_def takeWhile_append2)
  have rest: "?t = [] \<or> \<not> is_digit (hd ?t)"
    using assms by (cases rest) auto
  have "\<not> is_digit (CHR '','')" by (simp add: is_digit_def)
  then have "scan_int (show_int x @ '','' @ r) = Some (x, '','' @ r)"
    and "scan_int (show_int y @ '','' @ r) = Some (y, '','' @ r)" for r
    by (simp_all add: scan_int_show)
  moreover have "\<not> is_space (CHR '','')" by (simp add: is_space_def)
  ultimately show ?thesis
    using t scan_int_show[OF rest] show_int_start
    by (simp add: scan_fp_state_def fp_text_def scan_comma_int_def)
qed

text \<open>
  When the driver signals a touch on the fingerprint area with the line \<open>x,y,state\<close> and a
  positive state, the sensor reports exactly one wake-up event that carries these coordinates,
  and switches itself off. (Coordinates below \<open>2^24\<close> are exact as \<open>float\<close>.)
\<close>

theorem udfps_reports_coordinates:
  assumes "consts_documented K" and "s = UdfpsSensor_ctor K uninit o' h \<lparr>mIsEnabled := True, pc := Polling\<rparr>"
    and "poll_rc env \<ge> 0" "revents1 env" "lseek_rc env = 0" "read_rc env \<ge> 0"
    and "read_buffer env = fp_text x y state rest" "rest = [] \<or> \<not> is_digit (hd rest)"
    and "\<bar>x\<bar> < 2 ^ 24" "\<bar>y\<bar> < 2 ^ 24" "0 < state" "state < 2 ^ 31"
  shows "posted (sensor_step K s (env, PollReturns)) =
      [([\<lparr>ev_handle = h, ev_type = DEVICE_PRIVATE_BASE K + 1,
         timestamp = elapsedRealtimeNano env, u = Floats [x, y]\<rparr>], True)] \<and>
    \<not> mIsEnabled (sensor_step K s (env, PollReturns))"
proof -
  have int32: "sint (word_of_int i :: i32) = i" if "\<bar>i\<bar> < 2 ^ 31" for i
    using that by (simp add: int_word_sint)
  have fired: "readFpState env x0 y0 = (True, word_of_int x, word_of_int y)" for x0 y0
    using assms(5-8,11,12) int32[of state] by (simp add: readFpState_def scan_fp_text)
  have "UdfpsSensor_ctor \<in> gesture_ctors" by (simp add: gesture_ctors_def)
  from ctor_facts[OF this assms(1)] have w: "isWakeUpSensor K (UdfpsSensor_ctor K uninit o' h)"
    "posted (UdfpsSensor_ctor K uninit o' h) = []" "sensorHandle (mSensorInfo (UdfpsSensor_ctor K uninit o' h)) = h"
    by blast+
  have c: "cls (UdfpsSensor_ctor K uninit o' h) = UdfpsSensor"
    "info_type (mSensorInfo (UdfpsSensor_ctor K uninit o' h)) = DEVICE_PRIVATE_BASE K + 1"
    by (simp_all add: ctor_defs)
  show ?thesis
    using assms(3,4,9,10) fired w c int32[of x] int32[of y]
    by (simp add: assms(2) v_poll_return_def Udfps_poll_return_def Udfps_readEvents_def post_def
        own_event_def isWakeUpSensor_def float_of_int_exact Let_def)
qed

theorem udfps_reports_coordinates_witness:
  "posted (sensor_step android_consts
     (UdfpsSensor_ctor android_consts SensorInfo_zero open_example 1 \<lparr>mIsEnabled := True, pc := Polling\<rparr>)
     (sensor_example_env\<lparr>read_buffer := fp_text 540 1890 1 [CHR 0x0A]\<rparr>, PollReturns)) =
   [([\<lparr>ev_handle = 1, ev_type = 0x10001, timestamp = 7, u = Floats [540, 1890]\<rparr>], True)]"
  using udfps_reports_coordinates[OF android_consts_documented refl,
      of "sensor_example_env\<lparr>read_buffer := fp_text 540 1890 1 [CHR 0x0A]\<rparr>" 540 1890 1
        "[CHR 0x0A]" SensorInfo_zero open_example 1]
  by (simp add: sensor_example_env_def android_consts_def is_digit_def)

end
