(* ===== verification/SubHal.thy ===== *)
theory SubHal
  imports Sensor
begin

text \<open>
  The sub-HAL with the three gesture sensors (\<^verbatim>\<open>src/hidl/sensors/SensorsSubHal.{h,cpp}\<close>).
  \<open>subhal\<close> is the class \<open>SensorsSubHal\<close>; the sensors are in its ordered map. The calls the
  sensors make of their callback are in the sensors' own records; \<open>SubHal_postEvents\<close> is what
  the sub-HAL does with one of them.
\<close>

subsection \<open>State and construction\<close>

record subhal =
  sh_mSensors :: "sensor omap"
  mNextHandle :: i32
  sh_mCurrentOperationMode :: OperationMode
  mCallback :: "nat option"

definition AddSensor ::
  "(sensor_consts \<Rightarrow> SensorInfo \<Rightarrow> open_env \<Rightarrow> i32 \<Rightarrow> sensor) \<Rightarrow>
   sensor_consts \<Rightarrow> SensorInfo \<Rightarrow> open_env \<Rightarrow> subhal \<Rightarrow> subhal" where
  "AddSensor ctor K uninit o' sh =
     (let s = ctor K uninit o' (mNextHandle sh) in
      sh\<lparr>mNextHandle := mNextHandle sh + 1,
         sh_mSensors := om_put (sensorHandle (mSensorInfo s)) s (sh_mSensors sh)\<rparr>)"

definition SensorsSubHal_ctor ::
  "sensor_consts \<Rightarrow> SensorInfo \<Rightarrow> open_env \<Rightarrow> open_env \<Rightarrow> open_env \<Rightarrow> subhal" where
  "SensorsSubHal_ctor K uninit o1 o2 o3 =
     AddSensor DoubleTapSensor_ctor K uninit o3
       (AddSensor SingleTapSensor_ctor K uninit o2
         (AddSensor UdfpsSensor_ctor K uninit o1
           \<lparr>sh_mSensors = om_empty, mNextHandle = 1, sh_mCurrentOperationMode = NORMAL,
            mCallback = None\<rparr>))"

text \<open>
  The entry point of the library: the one object of the process, built when it is first called,
  and the interface version it implements.
\<close>

definition get_gesture_sub_hal ::
  "u32 \<Rightarrow> sensor_consts \<Rightarrow> SensorInfo \<Rightarrow> open_env \<Rightarrow> open_env \<Rightarrow> open_env \<Rightarrow> subhal \<times> u32" where
  "get_gesture_sub_hal version_2_1 K uninit o1 o2 o3 = (SensorsSubHal_ctor K uninit o1 o2 o3, version_2_1)"

definition SubHal_getOperationMode :: "subhal \<Rightarrow> OperationMode" where
  "SubHal_getOperationMode sh = sh_mCurrentOperationMode sh"

subsection \<open>Operations\<close>

definition SubHal_getSensorsList :: "subhal \<Rightarrow> SensorInfo list" where
  "SubHal_getSensorsList sh = map (\<lambda>p. mSensorInfo (snd p)) (sh_mSensors sh)"

definition SubHal_setOperationMode :: "OperationMode \<Rightarrow> subhal \<Rightarrow> Result \<times> subhal" where
  "SubHal_setOperationMode mode sh =
     (OK, sh\<lparr>sh_mSensors := map (\<lambda>(h, s). (h, v_setOperationMode mode s)) (sh_mSensors sh),
             sh_mCurrentOperationMode := mode\<rparr>)"

definition SubHal_activate :: "sensor_env \<Rightarrow> i32 \<Rightarrow> bool \<Rightarrow> subhal \<Rightarrow> Result \<times> subhal" where
  "SubHal_activate env handle enabled sh =
     (case om_find (sh_mSensors sh) handle of
        Some s \<Rightarrow> (OK, sh\<lparr>sh_mSensors := om_put handle (v_activate env enabled s) (sh_mSensors sh)\<rparr>)
      | None \<Rightarrow> (BAD_VALUE, sh))"

text \<open>The 64-bit period is passed on as a 32-bit argument.\<close>

definition SubHal_batch :: "i32 \<Rightarrow> i64 \<Rightarrow> i64 \<Rightarrow> subhal \<Rightarrow> Result \<times> subhal" where
  "SubHal_batch handle samplingPeriodNs maxReportLatencyNs sh =
     (case om_find (sh_mSensors sh) handle of
        Some s \<Rightarrow> (OK, sh\<lparr>sh_mSensors := om_put handle (v_batch (ucast samplingPeriodNs) s) (sh_mSensors sh)\<rparr>)
      | None \<Rightarrow> (BAD_VALUE, sh))"

definition SubHal_flush :: "sensor_consts \<Rightarrow> sensor_env \<Rightarrow> i32 \<Rightarrow> subhal \<Rightarrow> Result \<times> subhal" where
  "SubHal_flush K env handle sh =
     (case om_find (sh_mSensors sh) handle of
        Some s \<Rightarrow> (let (r, s) = v_flush K env s in (r, sh\<lparr>sh_mSensors := om_put handle s (sh_mSensors sh)\<rparr>))
      | None \<Rightarrow> (BAD_VALUE, sh))"

definition SubHal_injectSensorData :: "sensor_consts \<Rightarrow> Event \<Rightarrow> subhal \<Rightarrow> Result \<times> subhal" where
  "SubHal_injectSensorData K event sh =
     (case om_find (sh_mSensors sh) (ev_handle event) of
        Some s \<Rightarrow> (let (r, s) = injectEvent K event s
                   in (r, sh\<lparr>sh_mSensors := om_put (ev_handle event) s (sh_mSensors sh)\<rparr>))
      | None \<Rightarrow> (BAD_VALUE, sh))"

definition SubHal_registerDirectChannel :: "subhal \<Rightarrow> (Result \<times> int) \<times> subhal" where
  "SubHal_registerDirectChannel sh = ((INVALID_OPERATION, -1), sh)"

definition SubHal_unregisterDirectChannel :: "i32 \<Rightarrow> subhal \<Rightarrow> Result \<times> subhal" where
  "SubHal_unregisterDirectChannel channelHandle sh = (INVALID_OPERATION, sh)"

definition SubHal_configDirectReport :: "i32 \<Rightarrow> i32 \<Rightarrow> int \<Rightarrow> subhal \<Rightarrow> (Result \<times> int) \<times> subhal" where
  "SubHal_configDirectReport handle channelHandle rate sh = ((INVALID_OPERATION, 0), sh)"

definition SubHal_getName :: string where
  "SubHal_getName = ''FakeSubHal''"

definition newline :: string where
  "newline = [CHR 0x0A]"

definition SubHal_debug :: "bool \<Rightarrow> nat \<Rightarrow> subhal \<Rightarrow> string option" where
  "SubHal_debug has_fd num_args sh =
     (if \<not> has_fd then None
      else Some (
        (if num_args \<noteq> 0
         then ''Note: sub-HAL '' @ SubHal_getName @
              '' currently does not support args. Input arguments are ignored.'' @ newline else []) @
        ''Available sensors:'' @ newline @
        concat (map (\<lambda>p. let info = mSensorInfo (snd p) in
          ''Name: '' @ info_name info @ newline @
          ''Min delay: '' @ show_int (sint (minDelay info)) @ newline @
          ''Flags: '' @ show_int (uint (flags info)) @ newline) (sh_mSensors sh)) @ newline))"

text \<open>The callback is known by the index of the sub-HAL the proxy made it for.\<close>

definition SubHal_initialize :: "nat \<Rightarrow> subhal \<Rightarrow> Result \<times> subhal" where
  "SubHal_initialize halProxyCallback sh =
     (OK, snd (SubHal_setOperationMode NORMAL (sh\<lparr>mCallback := Some halProxyCallback\<rparr>)))"

text \<open>
  The two calls made of the proxy's callback. Before \<open>initialize\<close> the callback is a null
  pointer, and posting dereferences it: \<open>None\<close>.
\<close>

datatype callback_call = CreateScopedWakelock bool | CallbackPostEvents "Event list" bool

definition SubHal_postEvents :: "Event list \<Rightarrow> bool \<Rightarrow> subhal \<Rightarrow> callback_call list option" where
  "SubHal_postEvents evs wakeup sh =
     (if mCallback sh = None then None
      else Some [CreateScopedWakelock wakeup, CallbackPostEvents evs wakeup])"

definition SUB_HAL_OPS :: "sensor_consts \<Rightarrow> sensor_env \<Rightarrow> subhal sub_hal_ops" where
  "SUB_HAL_OPS K env =
     \<lparr>op_getSensorsList = (\<lambda>sh. Some (SubHal_getSensorsList sh)),
      op_setOperationMode = SubHal_setOperationMode,
      op_activate = SubHal_activate env,
      op_batch = SubHal_batch,
      op_flush = SubHal_flush K env,
      op_injectSensorData = SubHal_injectSensorData K,
      op_initialize = SubHal_initialize,
      op_registerDirectChannel = SubHal_registerDirectChannel,
      op_unregisterDirectChannel = SubHal_unregisterDirectChannel,
      op_configDirectReport = SubHal_configDirectReport,
      op_name = (\<lambda>sh. SubHal_getName)\<rparr>"

interpretation own_sub_hal: mode_switching "SUB_HAL_OPS K env" sh_mCurrentOperationMode for K env
  by unfold_locales (auto simp: SUB_HAL_OPS_def SubHal_setOperationMode_def)

subsection \<open>Runs\<close>

datatype subhal_op =
    SubSetMode OperationMode | SubActivate i32 bool | SubBatch i32 i64 i64 | SubFlush i32
  | SubInject Event | SubInitialize nat | SubThread i32 sensor_op

fun subhal_step :: "sensor_consts \<Rightarrow> subhal \<Rightarrow> sensor_env \<times> subhal_op \<Rightarrow> subhal" where
  "subhal_step K sh (env, SubSetMode m) = snd (SubHal_setOperationMode m sh)"
| "subhal_step K sh (env, SubActivate h b) = snd (SubHal_activate env h b sh)"
| "subhal_step K sh (env, SubBatch h p l) = snd (SubHal_batch h p l sh)"
| "subhal_step K sh (env, SubFlush h) = snd (SubHal_flush K env h sh)"
| "subhal_step K sh (env, SubInject e) = snd (SubHal_injectSensorData K e sh)"
| "subhal_step K sh (env, SubInitialize i) = snd (SubHal_initialize i sh)"
| "subhal_step K sh (env, SubThread h t) =
     (if t \<in> {RunLoop, PollReturns} then
        (case om_find (sh_mSensors sh) h of
           Some s \<Rightarrow> sh\<lparr>sh_mSensors := om_put h (sensor_step K s (env, t)) (sh_mSensors sh)\<rparr>
         | None \<Rightarrow> sh)
      else sh)"

lemma om_put_existing:
  "om_sorted m \<Longrightarrow> om_find m k = Some x \<Longrightarrow>
   om_put k v m = map (\<lambda>p. if fst p = k then (k, v) else p) m"
proof (induction k v m rule: om_put.induct)
  case (2 k v a b m)
  show ?case
  proof (cases "k = a")
    case True
    then have "\<forall>p \<in> set m. fst p \<noteq> k"
      using 2(2) by (auto simp: om_sorted_def)
    then have "map (\<lambda>p. if fst p = k then (k, v) else p) m = m"
      by (simp add: map_idI)
    with True show ?thesis by simp
  next
    case False
    then have "om_find m k = Some x"
      using 2(3) by (simp add: om_find_def)
    moreover from this have "sint a < sint k"
      using 2(2) by (fastforce simp: om_sorted_def om_find_def dest: map_of_SomeD)
    ultimately show ?thesis
      using 2 False by (simp add: om_sorted_def)
  qed
qed (simp add: om_find_def)

text \<open>
  \<open>subhal_inv\<close>: the map is ordered, every sensor is a gesture sensor under its own handle that
  refuses injection, and all are in the sub-HAL's operation mode. \<open>L\<close> is the sensor list, which
  never changes.
\<close>

definition sensor_ok :: "sensor_consts \<Rightarrow> OperationMode \<Rightarrow> i32 \<times> sensor \<Rightarrow> bool" where
  "sensor_ok K m p \<longleftrightarrow> cls (snd p) \<noteq> PlainSensor \<and> \<not> supportsDataInjection K (snd p) \<and>
     mMode (snd p) = m \<and> sensorHandle (mSensorInfo (snd p)) = fst p"

definition subhal_inv :: "sensor_consts \<Rightarrow> SensorInfo list \<Rightarrow> subhal \<Rightarrow> bool" where
  "subhal_inv K L sh \<longleftrightarrow> om_sorted (sh_mSensors sh) \<and>
     list_all (sensor_ok K (sh_mCurrentOperationMode sh)) (sh_mSensors sh) \<and>
     SubHal_getSensorsList sh = L"

lemma subhal_inv_find:
  "subhal_inv K L sh \<Longrightarrow> om_find (sh_mSensors sh) h = Some s \<Longrightarrow>
   sensor_ok K (sh_mCurrentOperationMode sh) (h, s)"
  by (auto simp: subhal_inv_def om_find_def list_all_iff dest: map_of_SomeD)

lemma subhal_inv_update:
  assumes "subhal_inv K L sh" and "om_find (sh_mSensors sh) h = Some s"
    and "cls s' = cls s" "mSensorInfo s' = mSensorInfo s" "mMode s' = mMode s"
  shows "subhal_inv K L (sh\<lparr>sh_mSensors := om_put h s' (sh_mSensors sh)\<rparr>)"
proof -
  let ?m = "sh_mSensors sh"
  have sorted: "om_sorted ?m" using assms(1) by (simp add: subhal_inv_def)
  note put = om_put_existing[OF sorted assms(2), of s']
  have "sensor_ok K (sh_mCurrentOperationMode sh) (h, s')"
    using subhal_inv_find[OF assms(1,2)] assms(3-5)
    by (simp add: sensor_ok_def supportsDataInjection_def)
  moreover have "mSensorInfo (snd p) = mSensorInfo s'" if "p \<in> set ?m" "fst p = h" for p
    using that assms(2,4) om_find_mem[OF sorted, of h "snd p"] by (cases p) auto
  ultimately show ?thesis
    using assms(1) om_sorted_put[OF sorted, of h s']
    by (auto simp: subhal_inv_def put list_all_iff SubHal_getSensorsList_def)
qed

lemma v_setOperationMode_mode: "mMode (v_setOperationMode m s) = m"
  by (simp add: v_setOperationMode_alt oneshot_setOperationMode_def Sensor_setOperationMode_def
      interruptPoll_def)

lemma setOperationMode_inv:
  "subhal_inv K L sh \<Longrightarrow> subhal_inv K L (snd (SubHal_setOperationMode m sh))"
  by (auto simp: subhal_inv_def SubHal_setOperationMode_def om_sorted_def list_all_iff sensor_ok_def
      SubHal_getSensorsList_def v_setOperationMode_mode supportsDataInjection_def case_prod_beta
      o_def)

lemma subhal_inv_sensor_step:
  assumes "subhal_inv K L sh" and "om_find (sh_mSensors sh) h = Some s" and "\<forall>m. op \<noteq> OpSetMode m"
  shows "subhal_inv K L (sh\<lparr>sh_mSensors := om_put h (sensor_step K s (env, op)) (sh_mSensors sh)\<rparr>)"
proof -
  have "cls s \<noteq> PlainSensor" "\<not> supportsDataInjection K s"
    using subhal_inv_find[OF assms(1,2)] by (simp_all add: sensor_ok_def)
  then show ?thesis
    using subhal_inv_update[OF assms(1,2)] sensor_step_static sensor_step_mode assms(3) by simp
qed

lemma subhal_step_inv: "subhal_inv K L sh \<Longrightarrow> subhal_inv K L (subhal_step K sh ev)"
proof (cases "(K, sh, ev)" rule: subhal_step.cases)
  case (2 K' sh' env h b)
  assume "subhal_inv K L sh"
  with 2 subhal_inv_sensor_step[of K L sh h _ "OpActivate b" env] show ?thesis
    by (auto simp: SubHal_activate_def split: option.splits)
next
  case (3 K' sh' env h p l)
  assume "subhal_inv K L sh"
  with 3 subhal_inv_sensor_step[of K L sh h _ "OpBatch (ucast p)" env] show ?thesis
    by (auto simp: SubHal_batch_def split: option.splits)
next
  case (4 K' sh' env h)
  assume "subhal_inv K L sh"
  with 4 subhal_inv_sensor_step[of K L sh h _ OpFlush env] show ?thesis
    by (auto simp: SubHal_flush_def split: option.splits prod.splits)
next
  case (5 K' sh' env e)
  assume "subhal_inv K L sh"
  with 5 subhal_inv_sensor_step[of K L sh "ev_handle e" _ "OpInject e" env] show ?thesis
    by (auto simp: SubHal_injectSensorData_def split: option.splits prod.splits)
next
  case (6 K' sh' env i)
  assume "subhal_inv K L sh"
  then have "subhal_inv K L (sh\<lparr>mCallback := Some i\<rparr>)"
    by (simp add: subhal_inv_def SubHal_getSensorsList_def)
  with 6 show ?thesis
    by (simp add: SubHal_initialize_def setOperationMode_inv)
next
  case (7 K' sh' env h t)
  assume "subhal_inv K L sh"
  with 7 subhal_inv_sensor_step[of K L sh h _ t env] show ?thesis
    by (auto split: option.splits simp del: sensor_step.simps)
qed (simp_all add: setOperationMode_inv)

interpretation subhal_runs: op_system "subhal_step K" "subhal_inv K L" for K L
  by unfold_locales (rule subhal_step_inv)

subsection \<open>Properties\<close>

definition subhal_infos :: "sensor_consts \<Rightarrow> SensorInfo \<Rightarrow> SensorInfo list" where
  "subhal_infos K uninit = map (\<lambda>(h, nm, ts). uninit\<lparr>sensorHandle := h, info_name := nm,
     info_vendor := ''The LineageOS Project'', info_version := 1,
     info_type := DEVICE_PRIVATE_BASE K + h, typeAsString := ts, maxRange := 2048, resolution := 1,
     info_power := 0, minDelay := -1, maxDelay := 0,
     fifoReservedEventCount := 0, fifoMaxEventCount := 0, requiredPermission := [], flags := ONE_SHOT_MODE K OR WAKE_UP K\<rparr>)
   [(1, ''UDFPS Sensor'', ''org.lineageos.sensor.udfps''),
    (2, ''Single Tap Sensor'', ''org.lineageos.sensor.single_touch''),
    (3, ''Double Tap Sensor'', ''org.lineageos.sensor.double_touch'')]"

lemma subhal_ctor_sensors:
  "sh_mSensors (SensorsSubHal_ctor K uninit o1 o2 o3) =
     [(1, UdfpsSensor_ctor K uninit o1 1), (2, SingleTapSensor_ctor K uninit o2 2),
      (3, DoubleTapSensor_ctor K uninit o3 3)]"
  by (simp add: SensorsSubHal_ctor_def AddSensor_def Let_def om_empty_def)
    (simp add: ctor_defs)

lemma subhal_ctor_inv:
  assumes "consts_documented K"
  shows "subhal_inv K (subhal_infos K uninit) (SensorsSubHal_ctor K uninit o1 o2 o3)"
proof -
  have c: "UdfpsSensor_ctor \<in> gesture_ctors" "SingleTapSensor_ctor \<in> gesture_ctors"
    "DoubleTapSensor_ctor \<in> gesture_ctors"
    by (simp_all add: gesture_ctors_def)
  have "mMode (ctor K uninit o' h) = NORMAL" if "ctor \<in> gesture_ctors" for ctor o' h
    using that by (auto simp: gesture_ctors_def ctor_defs)
  moreover have "sh_mCurrentOperationMode (SensorsSubHal_ctor K uninit o1 o2 o3) = NORMAL"
    by (simp add: SensorsSubHal_ctor_def AddSensor_def Let_def)
  ultimately have "list_all (sensor_ok K (sh_mCurrentOperationMode (SensorsSubHal_ctor K uninit o1 o2 o3)))
      (sh_mSensors (SensorsSubHal_ctor K uninit o1 o2 o3))"
    using ctor_facts[OF c(1) assms] ctor_facts[OF c(2) assms] ctor_facts[OF c(3) assms] c
    by (simp add: subhal_ctor_sensors sensor_ok_def)
  moreover have "SubHal_getSensorsList (SensorsSubHal_ctor K uninit o1 o2 o3) = subhal_infos K uninit"
    by (simp add: SubHal_getSensorsList_def subhal_ctor_sensors subhal_infos_def)
      (simp add: ctor_defs)
  ultimately show ?thesis
    by (simp add: subhal_inv_def subhal_ctor_sensors om_sorted_def)
qed

text \<open>
  The sub-HAL offers exactly its three sensors, under the handles 1 to 3 with the private
  types in the same order, and that list never changes; after any calls, from any thread, every
  sensor is in the operation mode the sub-HAL reports.
\<close>

theorem subhal_stable:
  assumes "consts_documented K"
    and "sh = foldl (subhal_step K) (SensorsSubHal_ctor K uninit o1 o2 o3) ops"
  shows "SubHal_getSensorsList sh = subhal_infos K uninit \<and>
    (\<forall>(h, s) \<in> set (sh_mSensors sh). mMode s = SubHal_getOperationMode sh)"
proof -
  have "subhal_inv K (subhal_infos K uninit) sh"
    unfolding assms(2) by (rule subhal_runs.run_inv[OF subhal_ctor_inv[OF assms(1)]])
  then show ?thesis
    by (auto simp: subhal_inv_def list_all_iff sensor_ok_def SubHal_getOperationMode_def)
qed

theorem subhal_stable_witness:
  "map sensorHandle (SubHal_getSensorsList (foldl (subhal_step android_consts)
     (SensorsSubHal_ctor android_consts SensorInfo_zero open_example open_example open_example)
     [(sensor_example_env, SubInitialize 0), (sensor_example_env, SubActivate 2 True)])) = [1, 2, 3]"
  using subhal_stable[OF android_consts_documented refl, of SensorInfo_zero open_example open_example
      open_example "[(sensor_example_env, SubInitialize 0), (sensor_example_env, SubActivate 2 True)]"]
  by (simp add: subhal_infos_def del: foldl_Cons)

text \<open>An unknown handle is refused and changes nothing; a known one changes that sensor alone.\<close>

lemma SubHal_activate_spec:
  assumes "om_sorted (sh_mSensors sh)"
  shows "case om_find (sh_mSensors sh) h of
      None \<Rightarrow> SubHal_activate env h b sh = (BAD_VALUE, sh)
    | Some s \<Rightarrow> fst (SubHal_activate env h b sh) = OK \<and>
        om_find (sh_mSensors (snd (SubHal_activate env h b sh))) =
          (om_find (sh_mSensors sh))(h \<mapsto> v_activate env b s)"
  using om.find_put[OF assms] by (simp add: SubHal_activate_def split: option.splits)

lemma v_activate_enables: "mIsEnabled (v_activate env b s) = b"
  by (cases "cls s")
    (simp_all add: v_activate_def Sensor_activate_def udfps.act_sets single_tap.act_sets
      double_tap.act_sets)

end
