(* ===== verification/SensorStart.thy ===== *)
theory SensorStart
  imports Sensor
begin

text \<open>
  How a gesture sensor comes to life (\<^verbatim>\<open>src/hidl/sensors/Sensor.cpp\<close>, lines 108-124, 180-208
  and the constructors of the derived classes).

  The constructor of the base class \<open>Sensor\<close> ends by starting the thread that calls the virtual
  function \<open>run\<close>; the constructors of \<open>OneShotSensor\<close> and of the sensor's own class run after it.
  Which \<open>run\<close> the thread enters depends on how far construction has come when the thread makes
  the call: \<open>runs\<close> is the class whose \<open>run\<close> it entered. A constructor of a derived class makes the
  object one of its class before its body runs. Nobody calls a sensor before its constructor has
  returned. The constructors take no lock, but a thread in its loop reads nothing of what they
  write except \<open>mStopThread\<close>, so a body is one step.
\<close>

subsection \<open>State and steps\<close>

datatype ctor_stage = InSensor | InOneShot | InDerived | Constructed

record starting =
  obj :: sensor
  stage :: ctor_stage
  runs :: "sensor_class option"

definition dynamic_class :: "starting \<Rightarrow> sensor_class" where
  "dynamic_class st = (if stage st \<in> {InSensor, InOneShot} then PlainSensor else cls (obj st))"

definition startThread :: "starting \<Rightarrow> starting" where
  "startThread st = (if runs st = None then st\<lparr>runs := Some (dynamic_class st)\<rparr> else st)"

definition derived_body :: "sensor_consts \<Rightarrow> open_env \<Rightarrow> sensor \<Rightarrow> sensor" where
  "derived_body K o' s =
     (case cls s of
        PlainSensor \<Rightarrow> s
      | UdfpsSensor \<Rightarrow> UdfpsSensor_body K o' s
      | SingleTapSensor \<Rightarrow> SingleTapSensor_body K o' s
      | DoubleTapSensor \<Rightarrow> DoubleTapSensor_body K o' s)"

definition construct :: "sensor_consts \<Rightarrow> open_env \<Rightarrow> starting \<Rightarrow> starting" where
  "construct K o' st =
     (case stage st of
        InSensor \<Rightarrow> st\<lparr>obj := OneShotSensor_body K (obj st), stage := InOneShot\<rparr>
      | InOneShot \<Rightarrow> st\<lparr>stage := InDerived\<rparr>
      | InDerived \<Rightarrow> st\<lparr>obj := derived_body K o' (obj st), stage := Constructed\<rparr>
      | Constructed \<Rightarrow> st)"

datatype start_op = Construct | StartThread | SensorOp sensor_op

text \<open>A loop evaluation of the \<open>run\<close> the thread is in.\<close>

definition entered_run :: "sensor_consts \<Rightarrow> sensor_env \<Rightarrow> sensor_class \<Rightarrow> sensor \<Rightarrow> sensor" where
  "entered_run K env c s =
     (if pc s \<noteq> Looping then s else case c of PlainSensor \<Rightarrow> Sensor_run K env s | UdfpsSensor \<Rightarrow> oneshot_loop s
      | SingleTapSensor \<Rightarrow> SingleTap_loop s | DoubleTapSensor \<Rightarrow> DoubleTap_loop s)"

lemma entered_run_alt:
  "entered_run K env c s =
     (if pc s \<noteq> Looping then s else if c = PlainSensor then Sensor_run K env s else oneshot_loop s)"
  by (simp add: entered_run_def split: sensor_class.split)

fun start_step :: "sensor_consts \<Rightarrow> open_env \<Rightarrow> starting \<Rightarrow> sensor_env \<times> start_op \<Rightarrow> starting" where
  "start_step K o' st (env, Construct) = construct K o' st"
| "start_step K o' st (env, StartThread) = startThread st"
| "start_step K o' st (env, SensorOp RunLoop) =
     (case runs st of None \<Rightarrow> st | Some c \<Rightarrow> st\<lparr>obj := entered_run K env c (obj st)\<rparr>)"
| "start_step K o' st (env, SensorOp PollReturns) =
     (case runs st of
        None \<Rightarrow> st | Some c \<Rightarrow> st\<lparr>obj := sensor_step K (obj st) (env, PollReturns)\<rparr>)"
| "start_step K o' st (env, SensorOp op) =
     (if stage st = Constructed then st\<lparr>obj := sensor_step K (obj st) (env, op)\<rparr> else st)"

definition being_born :: "SensorInfo \<Rightarrow> sensor_class \<Rightarrow> i32 \<Rightarrow> starting" where
  "being_born uninit c h = \<lparr>obj = Sensor_ctor uninit c h, stage = InSensor, runs = None\<rparr>"

definition class_ctor ::
  "sensor_class \<Rightarrow> sensor_consts \<Rightarrow> SensorInfo \<Rightarrow> open_env \<Rightarrow> i32 \<Rightarrow> sensor" where
  "class_ctor c K uninit o' h = derived_body K o' (OneShotSensor_ctor K uninit c h)"

lemma class_ctor_simps:
  "class_ctor UdfpsSensor = UdfpsSensor_ctor" "class_ctor SingleTapSensor = SingleTapSensor_ctor"
  "class_ctor DoubleTapSensor = DoubleTapSensor_ctor"
  by (simp_all add: fun_eq_iff class_ctor_def derived_body_def UdfpsSensor_ctor_def
      SingleTapSensor_ctor_def DoubleTapSensor_ctor_def OneShotSensor_ctor_def OneShotSensor_body_def
      Sensor_ctor_def Let_def)

subsection \<open>A thread that starts in time\<close>

definition calls_of :: "(sensor_env \<times> start_op) list \<Rightarrow> (sensor_env \<times> sensor_op) list" where
  "calls_of ops = concat (map (\<lambda>(env, op). case op of SensorOp c \<Rightarrow> [(env, c)] | _ \<Rightarrow> []) ops)"

lemma runs_stay: "runs st = Some c \<Longrightarrow> runs (start_step K o' st ev) = Some c"
  by (cases "(K, o', st, ev)" rule: start_step.cases)
    (auto simp: construct_def startThread_def split: ctor_stage.splits)

lemma gesture_class_ctor: "c \<noteq> PlainSensor \<Longrightarrow> class_ctor c \<in> gesture_ctors"
  by (cases c) (simp_all add: class_ctor_simps gesture_ctors_def)

lemma ctor_cls: "c \<noteq> PlainSensor \<Longrightarrow> cls (class_ctor c K uninit o' h) = c"
  by (cases c) (simp_all add: class_ctor_simps ctor_defs)

lemma run_cls:
  assumes "consts_documented K" and "c \<noteq> PlainSensor"
  shows "cls (foldl (sensor_step K) (class_ctor c K uninit o' h) ops) = c"
  using sensor_run_budget[OF ctor_facts(1,2)[OF gesture_class_ctor[OF assms(2)] assms(1)], of uninit o' h ops]
    ctor_facts(4)[OF gesture_class_ctor[OF assms(2)] assms(1)] ctor_cls[OF assms(2)]
  by (simp add: Let_def)

text \<open>How far the object is, as long as the thread has entered no \<open>run\<close> or that of the class.\<close>

definition born ::
  "sensor_consts \<Rightarrow> SensorInfo \<Rightarrow> open_env \<Rightarrow> sensor_class \<Rightarrow> i32 \<Rightarrow> (sensor_env \<times> start_op) list \<Rightarrow>
   starting \<Rightarrow> bool" where
  "born K uninit o' c h ops st \<longleftrightarrow> runs st \<in> {None, Some c} \<and>
     (case stage st of
        InSensor \<Rightarrow> runs st = None \<and> obj st = Sensor_ctor uninit c h
      | InOneShot \<Rightarrow> runs st = None \<and> obj st = OneShotSensor_ctor K uninit c h
      | InDerived \<Rightarrow> obj st = OneShotSensor_ctor K uninit c h
      | Constructed \<Rightarrow> (\<exists>ops'. subseq ops' (calls_of ops) \<and>
          obj st = foldl (sensor_step K) (class_ctor c K uninit o' h) ops'))"

lemma oneshot_ctor_idle:
  "entered_run K' env c (OneShotSensor_ctor K uninit d h) = OneShotSensor_ctor K uninit d h"
  "pc (OneShotSensor_ctor K uninit d h) = Looping" "cls (OneShotSensor_ctor K uninit d h) = d"
  by (simp_all add: entered_run_alt oneshot_loop_def Sensor_run_def OneShotSensor_ctor_def
      OneShotSensor_body_def Sensor_ctor_def Let_def)

lemma entered_run_own:
  "cls s = c \<Longrightarrow> c \<noteq> PlainSensor \<Longrightarrow> entered_run K env c s = sensor_step K s (env, RunLoop)"
  by (simp add: entered_run_alt v_run_alt)

lemma calls_snoc:
  "calls_of (ops @ [(env, Construct)]) = calls_of ops" "calls_of (ops @ [(env, StartThread)]) = calls_of ops"
  "calls_of (ops @ [(env, SensorOp p)]) = calls_of ops @ [(env, p)]"
  by (simp_all add: calls_of_def)

lemma subseq_snoc: "subseq xs ys \<Longrightarrow> subseq xs (ys @ [y])" "subseq xs ys \<Longrightarrow> subseq (xs @ [y]) (ys @ [y])"
  by (simp_all add: subseq_rev_drop_many list_emb_append_mono)

lemma born_call:
  assumes "born K uninit o' c h ops st" and "consts_documented K" and "c \<noteq> PlainSensor"
    and "stage st = Constructed"
    and "obj st' = obj st \<or> obj st' = sensor_step K (obj st) (env, p)"
    and "stage st' = Constructed" "runs st' = runs st"
  shows "born K uninit o' c h (ops @ [(env, SensorOp p)]) st'"
proof -
  obtain ops' where o: "subseq ops' (calls_of ops)"
    "obj st = foldl (sensor_step K) (class_ctor c K uninit o' h) ops'"
    using assms(1,4) by (auto simp: born_def)
  from assms(5) have "\<exists>qs. subseq qs (calls_of ops @ [(env, p)]) \<and>
      obj st' = foldl (sensor_step K) (class_ctor c K uninit o' h) qs"
  proof
    assume "obj st' = obj st"
    then show ?thesis using o subseq_snoc(1) by metis
  next
    assume "obj st' = sensor_step K (obj st) (env, p)"
    then show ?thesis using o subseq_snoc(2)[OF o(1), of "(env, p)"]
      by (intro exI[of _ "ops' @ [(env, p)]"]) simp
  qed
  then show ?thesis
    using assms(1,6,7) by (simp add: born_def calls_snoc)
qed

lemma start_call:
  assumes "stage st = Constructed" and "runs st \<in> {None, Some c}" and "cls (obj st) = c" "c \<noteq> PlainSensor"
  shows "obj (start_step K o' st (env, SensorOp p)) \<in> {obj st, sensor_step K (obj st) (env, p)}"
    "stage (start_step K o' st (env, SensorOp p)) = Constructed"
    "runs (start_step K o' st (env, SensorOp p)) = runs st"
  using assms entered_run_own[OF assms(3,4), of K env]
  by (cases p; auto simp del: sensor_step.simps)+

lemma born_step:
  assumes "born K uninit o' c h ops st" and "consts_documented K" and "c \<noteq> PlainSensor"
    and "runs (start_step K o' st ev) \<noteq> Some PlainSensor"
  shows "born K uninit o' c h (ops @ [ev]) (start_step K o' st ev)"
proof (cases "stage st = Constructed")
  case True
  have c: "cls (obj st) = c" "runs st \<in> {None, Some c}"
    using assms(1) True run_cls[OF assms(2,3)] by (auto simp: born_def)
  obtain env op where ev: "ev = (env, op)" by fastforce
  show ?thesis
  proof (cases op)
    case (SensorOp p)
    then show ?thesis
      using born_call[OF assms(1-3) True _ start_call(2,3)[OF True c(2,1) assms(3)]]
        start_call(1)[OF True c(2,1) assms(3), of K o' env p] ev by auto
  qed (use assms(1) True c in \<open>auto simp: ev construct_def startThread_def dynamic_class_def born_def calls_snoc\<close>)
next
  case False
  then show ?thesis
    using assms(1,3,4)
    by (cases "(K, o', st, ev)" rule: start_step.cases; cases "stage st")
      (auto simp: born_def construct_def startThread_def dynamic_class_def calls_snoc class_ctor_def
        oneshot_ctor_idle OneShotSensor_ctor_def[symmetric] intro: exI[of _ "[]"])
qed

lemma born_run:
  assumes "consts_documented K" and "c \<noteq> PlainSensor"
    and "runs (foldl (start_step K o') (being_born uninit c h) ops) \<noteq> Some PlainSensor"
  shows "born K uninit o' c h ops (foldl (start_step K o') (being_born uninit c h) ops)"
  using assms(3)
proof (induction ops rule: rev_induct)
  case Nil
  then show ?case by (simp add: born_def being_born_def)
next
  case (snoc ev ops)
  let ?st = "foldl (start_step K o') (being_born uninit c h) ops"
  have "runs ?st \<noteq> Some PlainSensor"
    using snoc.prems runs_stay[of ?st PlainSensor K o' ev] by auto
  with snoc show ?case
    using born_step[OF _ assms(1,2), of uninit o' h ops ?st ev] by simp
qed


text \<open>The sensor in \<open>Sensor::run\<close> after \<open>n\<close> turns.\<close>

definition flooding :: "sensor_consts \<Rightarrow> sensor_env \<Rightarrow> i32 \<Rightarrow> nat \<Rightarrow> sensor \<Rightarrow> bool" where
  "flooding K env h n s \<longleftrightarrow> mIsEnabled s \<and> \<not> mStopThread s \<and> mMode s = NORMAL \<and> pc s = Looping \<and>
     mSamplingPeriodNs s = 0 \<and> sint (mLastSampleTimeNs s) \<le> sint (realtime_ns env) \<and>
     isWakeUpSensor K s \<and> sensorHandle (mSensorInfo s) = h \<and> length (posted s) = n \<and>
     list_all (\<lambda>p. snd p \<and> map ev_handle (fst p) = [h]) (posted s)"

lemma v_readEvents_handle: "map ev_handle (v_readEvents env s) = [sensorHandle (mSensorInfo s)]"
  by (cases "cls s") (simp_all add: v_readEvents_def Sensor_readEvents_def Udfps_readEvents_def
      SingleTap_readEvents_def DoubleTap_readEvents_def own_event_def)

lemma flooding_turn: "flooding K env h n s \<Longrightarrow> flooding K env h (Suc n) (entered_run K env PlainSensor s)"
  by (simp add: flooding_def entered_run_alt Sensor_run_def post_def isWakeUpSensor_def
      v_readEvents_handle Let_def v_readEvents_handle[of env "s\<lparr>mLastSampleTimeNs := realtime_ns env\<rparr>", simplified])

lemma activate_info:
  "cls (v_activate env b s) = cls s" "mSensorInfo (v_activate env b s) = mSensorInfo s"
  "mSamplingPeriodNs (v_activate env b s) = mSamplingPeriodNs s" "pc (v_activate env b s) = pc s"
  "mLastSampleTimeNs (v_activate env b s) = mLastSampleTimeNs s" "mMode (v_activate env b s) = mMode s"
  "mStopThread (v_activate env b s) = mStopThread s" "posted (v_activate env b s) = posted s"
  "mIsEnabled (v_activate env b s) = b"
  by (cases "cls s"; simp add: v_activate_def Sensor_activate_def Udfps_activate_def SingleTap_activate_def
      DoubleTap_activate_def interruptPoll_def writeGestureEnable_def)+

lemma fresh_ctor:
  assumes "c \<noteq> PlainSensor"
    and "pipe_rc o' \<ge> 0" "fst (pipe_fds o') \<ge> 0" "snd (pipe_fds o') \<ge> 0" "poll_fd o' \<ge> 0"
  shows "\<not> mStopThread (class_ctor c K uninit o' h)" "mMode (class_ctor c K uninit o' h) = NORMAL"
    "pc (class_ctor c K uninit o' h) = Looping" "mSamplingPeriodNs (class_ctor c K uninit o' h) = 0"
    "mLastSampleTimeNs (class_ctor c K uninit o' h) = 0"
  using assms by (cases c; simp add: class_ctor_simps ctor_defs open_wait_fds_def)+

lemma early_start:
  "foldl (start_step K o') (being_born uninit c h)
     (map (Pair env) [StartThread, Construct, Construct, Construct, SensorOp (OpActivate True)]) =
   \<lparr>obj = v_activate env True (class_ctor c K uninit o' h), stage = Constructed, runs = Some PlainSensor\<rparr>"
  by (simp add: being_born_def startThread_def dynamic_class_def construct_def class_ctor_def
      OneShotSensor_ctor_def)

text \<open>
  A thread that is faster than the constructors enters \<open>Sensor::run\<close>, and the one-shot sensor
  becomes a sampling sensor with a period of zero: once activated it posts a wake-up event of
  its own at every turn of the loop, any number of them from one activation and without any
  gesture, and stays enabled.
\<close>

theorem early_start_floods:
  assumes "consts_documented K" and "c \<noteq> PlainSensor"
    and "pipe_rc o' \<ge> 0" "fst (pipe_fds o') \<ge> 0" "snd (pipe_fds o') \<ge> 0" "poll_fd o' \<ge> 0"
    and "0 \<le> sint (realtime_ns env)"
    and "st = foldl (start_step K o') (being_born uninit c h)
      (map (Pair env) ([StartThread, Construct, Construct, Construct, SensorOp (OpActivate True)] @
         replicate n (SensorOp RunLoop)))"
  shows "length (posted (obj st)) = n \<and> mIsEnabled (obj st) \<and>
    list_all (\<lambda>p. snd p \<and> map ev_handle (fst p) = [h]) (posted (obj st))"
proof -
  let ?s = "v_activate env True (class_ctor c K uninit o' h)"
  note f = ctor_facts[OF gesture_class_ctor[OF assms(2)] assms(1), of uninit o' h]
  have "flooding K env h 0 ?s"
    using f(3,4,6) fresh_ctor[OF assms(2-6), of K uninit h] assms(7)
    by (simp add: flooding_def activate_info isWakeUpSensor_def)
  then have "\<exists>s. flooding K env h n s \<and>
      foldl (start_step K o') \<lparr>obj = ?s, stage = Constructed, runs = Some PlainSensor\<rparr>
        (map (Pair env) (replicate n (SensorOp RunLoop))) =
      \<lparr>obj = s, stage = Constructed, runs = Some PlainSensor\<rparr>"
  proof (induction n)
    case (Suc n)
    then obtain s where s: "flooding K env h n s"
      "foldl (start_step K o') \<lparr>obj = ?s, stage = Constructed, runs = Some PlainSensor\<rparr>
        (map (Pair env) (replicate n (SensorOp RunLoop))) =
      \<lparr>obj = s, stage = Constructed, runs = Some PlainSensor\<rparr>" by blast
    have "replicate (Suc n) (SensorOp RunLoop) = replicate n (SensorOp RunLoop) @ [SensorOp RunLoop]"
      by (simp add: replicate_append_same)
    then show ?case
      using flooding_turn[OF s(1)] s(2) by (simp del: replicate_Suc)
  qed simp
  then show ?thesis
    unfolding assms(8) map_append foldl_append early_start by (auto simp: flooding_def)
qed


theorem early_start_floods_witness:
  "length (posted (obj (foldl (start_step android_consts open_example) (being_born SensorInfo_zero DoubleTapSensor 3)
     (map (Pair sensor_example_env) ([StartThread, Construct, Construct, Construct, SensorOp (OpActivate True)] @
        replicate 1000 (SensorOp RunLoop)))))) = 1000"
  using early_start_floods[OF android_consts_documented, of DoubleTapSensor open_example sensor_example_env _ SensorInfo_zero 3 1000, OF _ _ _ _ _ _ refl]
  by (simp add: open_example_def sensor_example_env_def del: replicate.simps)

end
