(* ===== verification/SessionOrder.thy ===== *)
theory SessionOrder
  imports Session
begin

text \<open>
  Order and repetition in a fingerprint session (\<^verbatim>\<open>src/fingerprint/Session.cpp\<close>): the tasks the
  client's calls hand to the worker against the tasks it runs, what the binder threads do
  themselves, and what is reported or released twice.
\<close>

subsection \<open>Tasks in, tasks out\<close>

text \<open>The task a call hands to the worker; \<open>onUiReady\<close> hands over none.\<close>

fun task_of :: "client_call \<Rightarrow> task option" where
  "task_of CallGenerateChallenge = Some TaskGenerateChallenge"
| "task_of (CallRevokeChallenge c) = Some (TaskRevokeChallenge c)"
| "task_of (CallEnroll hat) = Some (TaskEnroll hat)"
| "task_of (CallAuthenticate i) = Some (TaskAuthenticate i)"
| "task_of CallDetectInteraction = Some TaskDetectInteraction"
| "task_of CallEnumerateEnrollments = Some TaskEnumerateEnrollments"
| "task_of (CallRemoveEnrollments ids) = Some (TaskRemoveEnrollments ids)"
| "task_of CallGetAuthenticatorId = Some TaskGetAuthenticatorId"
| "task_of CallInvalidateAuthenticatorId = Some TaskInvalidateAuthenticatorId"
| "task_of (CallResetLockout hat) = Some TaskResetLockout"
| "task_of (CallPointerDown p x y) = Some TaskPointerDown"
| "task_of (CallPointerUp p) = Some TaskPointerUp"
| "task_of CallUiReady = None"
| "task_of CallCancel = Some TaskCancel"
| "task_of CallClose = Some TaskClose"

text \<open>What a step adds to the worker's queue, and what it takes from it.\<close>

fun task_in :: "session \<Rightarrow> fp_env \<times> fp_event \<Rightarrow> task list" where
  "task_in s (env, Client c) =
     (case task_of c of Some t \<Rightarrow> if worker_accepts env then [t] else [] | None \<Rightarrow> [])"
| "task_in s (env, ClientDeath) = (if \<not> mClosed s \<and> worker_accepts env then [TaskClose] else [])"
| "task_in s (env, _) = []"

fun task_out :: "session \<Rightarrow> fp_env \<times> fp_event \<Rightarrow> task list" where
  "task_out s (env, Worker) = take 1 (worker_queue s)"
| "task_out s (env, _) = []"

fun tasks_in tasks_out :: "session \<Rightarrow> (fp_env \<times> fp_event) list \<Rightarrow> task list" where
  "tasks_in s [] = []"
| "tasks_in s (ev # evs) = task_in s ev @ tasks_in (session_step s ev) evs"
| "tasks_out s [] = []"
| "tasks_out s (ev # evs) = task_out s ev @ tasks_out (session_step s ev) evs"

lemma run_task_queue: "worker_queue (run_task env t s) = worker_queue s"
  by (cases t) (auto simp: emitting clearLockout_def checkSensorLockout_def startLockoutTimer_def Let_def
      split: option.split prod.split)

lemma notify_queue: "worker_queue (session_notify env msg s) = worker_queue s"
  by (cases msg) (auto simp: emitting checkSensorLockout_def startLockoutTimer_def Let_def split: prod.split)

lemma client_call_queue:
  "worker_queue (snd (client_step env c s)) =
     worker_queue s @ (case task_of c of Some t \<Rightarrow> if worker_accepts env then [t] else [] | None \<Rightarrow> [])"
  by (cases c) (simp_all add: client_defs schedule_def setFodHbm_def)

lemma timer_queue: "worker_queue (lockoutTimerExpired s) = worker_queue s"
  by (simp add: lockoutTimerExpired_def clearLockout_def Let_def)

lemma step_queue: "worker_queue s @ task_in s ev = task_out s ev @ worker_queue (session_step s ev)"
proof (cases "(s, ev)" rule: session_step.cases)
  case (2 s env)
  then show ?thesis
    by (cases "worker_queue s") (simp_all add: run_task_queue)
next
  case (4 s env)
  then show ?thesis by (cases "timers s") (simp_all add: timer_queue)
next
  case (5 s env)
  then show ?thesis
    by (auto simp: onClientDeath_def isClosed_def close_def schedule_def)
qed (simp_all add: client_call_queue notify_queue)


subsection \<open>What the binder threads do themselves\<close>

text \<open>
  A call leaves everything to the worker, with two exceptions: \<open>onUiReady\<close> lights the sensor area,
  and \<open>close\<close> tells the framework and gives up the death recipient from the binder thread.
\<close>

lemma client_outputs:
  "out (snd (client_step env c s)) = out s @
     (case c of CallUiReady \<Rightarrow> [SetFodHbm True]
      | CallClose \<Rightarrow> [OnSessionClosed, DeathRecipientDelete] | _ \<Rightarrow> [])"
  by (cases c) (simp_all add: client_defs setFodHbm_def)

subsection \<open>Repeated reports and releases\<close>

text \<open>Which steps of a run close the session; only the client's death asks whether it is closed already.\<close>

fun closing :: "session \<Rightarrow> fp_env \<times> fp_event \<Rightarrow> bool" where
  "closing s (env, Client CallClose) \<longleftrightarrow> True"
| "closing s (env, ClientDeath) \<longleftrightarrow> \<not> mClosed s"
| "closing s (env, _) \<longleftrightarrow> False"

fun closings :: "session \<Rightarrow> (fp_env \<times> fp_event) list \<Rightarrow> nat" where
  "closings s [] = 0"
| "closings s (ev # evs) = of_bool (closing s ev) + closings (session_step s ev) evs"

definition releases :: "session \<Rightarrow> nat" where
  "releases s = count_list (out s) DeathRecipientDelete"

lemma releases_frame [simp]:
  "releases (emit os s) = releases s + count_list os DeathRecipientDelete"
  "releases (schedule env t s) = releases s" "releases (s\<lparr>mUiReady := b\<rparr>) = releases s"
  "releases (s\<lparr>mIsLockoutTimerAborted := b\<rparr>) = releases s" "releases (s\<lparr>mLockoutTracker := l\<rparr>) = releases s"
  "releases (s\<lparr>worker_queue := q\<rparr>) = releases s" "releases (s\<lparr>timers := ts\<rparr>) = releases s"
  "releases (s\<lparr>mClosed := b\<rparr>) = releases s" "releases (s\<lparr>enrollments := es\<rparr>) = releases s"
  "releases (s\<lparr>mIsLockoutTimerStarted := b\<rparr>) = releases s"
  by (simp_all add: releases_def)

lemma releases_check [simp]: "releases (snd (checkSensorLockout env s)) = releases s"
  by (auto simp: checkSensorLockout_def emitting startLockoutTimer_def Let_def split: prod.split)

lemma releases_task: "releases (run_task env t s) = releases s"
proof -
  have "count_list (map (\<lambda>i. DevRemove u i) ids) DeathRecipientDelete = 0" for u ids
    by (induction ids) simp_all
  then show ?thesis
    by (cases t) (simp_all add: emitting clearLockout_def Let_def split: option.split)
qed

lemma releases_notify: "releases (session_notify env m s) = releases s"
  by (cases m) (auto simp: emitting Let_def split: prod.split)

lemma releases_step: "releases (session_step s ev) = releases s + of_bool (closing s ev)"
proof (cases "(s, ev)" rule: session_step.cases)
  case (1 s' env c)
  then show ?thesis by (cases c) (simp_all add: client_defs setFodHbm_def)
next
  case (2 s' env)
  then show ?thesis by (cases "worker_queue s'") (simp_all add: releases_task)
next
  case (3 s' env m)
  then show ?thesis by (simp add: releases_notify)
next
  case (4 s' env)
  then show ?thesis
    by (cases "timers s'") (simp_all add: lockoutTimerExpired_def clearLockout_def Let_def)
next
  case (5 s' env)
  then show ?thesis by (simp add: onClientDeath_def isClosed_def close_def)
qed

text \<open>
  The death recipient is deleted once for every step that closes the session. A client that calls
  \<open>close\<close> twice has it deleted twice: unlike \<open>onClientDeath\<close>, \<open>close\<close> does not ask whether the session
  is closed.
\<close>

lemma releases_count_closings: "releases (foldl session_step s evs) = releases s + closings s evs"
  by (induction evs arbitrary: s) (simp_all add: releases_step)

lemma close_twice_releases_twice:
  "releases (foldl session_step s [(e1, Client CallClose), (e2, Client CallClose)]) = releases s + 2"
  by (simp add: releases_count_closings del: foldl.simps)

lemma death_after_close_releases_once:
  "releases (foldl session_step s [(e1, Client CallClose), (e2, ClientDeath)]) = releases s + 1"
  by (simp add: releases_count_closings close_def del: foldl.simps)

text \<open>
  The module confirms a cancellation with the error \<open>FINGERPRINT_ERROR_CANCELED\<close>, as its header
  documents; the session reports the cancellation to the framework then, and has already done so
  when the call to the module succeeded.
\<close>

lemma cancel_reported_twice:
  assumes "cancel_ret env = 0"
  shows "out (session_notify env' (FINGERPRINT_ERROR FINGERPRINT_ERROR_CANCELED) (run_task env TaskCancel s)) =
    out s @ [SetFodHbm False, DevGoodixExtCmd 0 0, DevCancel, OnError Error_CANCELED 0, OnError Error_CANCELED 0]"
  using assms
  by (simp add: emitting Let_def VendorErrorFilter_def
      FINGERPRINT_ERROR_HW_UNAVAILABLE_def FINGERPRINT_ERROR_UNABLE_TO_PROCESS_def
      FINGERPRINT_ERROR_TIMEOUT_def FINGERPRINT_ERROR_NO_SPACE_def FINGERPRINT_ERROR_CANCELED_def)

subsection \<open>A full worker queue\<close>

text \<open>
  The worker is built with room for five tasks; the worker thread of the fingerprint framework
  documents that it refuses a task when its queue is full. \<open>obeys_limit\<close> says of a run that the
  worker did so in every step; tasks of an earlier session may take up room as well.
\<close>

definition WORKER_QUEUE_SIZE :: nat where "WORKER_QUEUE_SIZE = 5"

fun obeys_limit :: "session \<Rightarrow> (fp_env \<times> fp_event) list \<Rightarrow> bool" where
  "obeys_limit s [] \<longleftrightarrow> True"
| "obeys_limit s (ev # evs) \<longleftrightarrow>
     (worker_accepts (fst ev) \<longrightarrow> length (worker_queue s) < WORKER_QUEUE_SIZE) \<and>
     obeys_limit (session_step s ev) evs"

lemma task_in_accepted: "length (task_in s ev) \<le> of_bool (worker_accepts (fst ev))"
  by (cases "(s, ev)" rule: task_in.cases) (simp_all split: option.split)

lemma worker_queue_bounded:
  "obeys_limit s evs \<Longrightarrow> length (worker_queue s) \<le> WORKER_QUEUE_SIZE \<Longrightarrow>
   length (worker_queue (foldl session_step s evs)) \<le> WORKER_QUEUE_SIZE"
proof (induction evs arbitrary: s)
  case (Cons ev evs)
  have "length (worker_queue (session_step s ev)) \<le> length (worker_queue s) + length (task_in s ev)"
    using arg_cong[OF step_queue[of s ev], of length] by simp
  also have "\<dots> \<le> WORKER_QUEUE_SIZE"
    using task_in_accepted[of s ev] Cons.prems by (cases "worker_accepts (fst ev)") simp_all
  finally show ?case using Cons by simp
qed simp

text \<open>
  The answer of the worker is ignored: a call that did not fit is answered like any other, and
  nothing of it happens or is ever reported.
\<close>

lemma refused_call_is_lost:
  assumes "\<not> worker_accepts env" and "c \<noteq> CallUiReady" "c \<noteq> CallClose" and "client_step env c s = (r, s')"
  shows "r = StatusOk \<and> worker_queue s' = worker_queue s \<and> out s' = out s"
  using assms by (cases c) (auto simp: client_defs schedule_def)

text \<open>A session closed while the queue is full is closed without its illumination being switched off.\<close>

lemma refused_close_keeps_light:
  assumes "\<not> worker_accepts env" and "client_step env CallClose s = (r, s')"
  shows "r = StatusOk \<and> mClosed s' \<and> worker_queue s' = worker_queue s \<and> lit (out s') = lit (out s)"
  using assms by (auto simp: client_defs schedule_def lit_keep)

end
