(* ===== verification/SessionRace.thy ===== *)
theory SessionRace
  imports Session
begin

text \<open>
  The lockout check of a session, statement by statement
  (\<^verbatim>\<open>src/fingerprint/Session.cpp\<close>, lines 342-389).

  \<open>checkSensorLockout\<close> runs on two threads: the module's, which reports a failed finger, and the
  worker's, which handles a pointer that goes down. The timer's thread runs
  \<open>lockoutTimerExpired\<close>. The flags they share are plain \<open>bool\<close> members and no lock is held, so
  the statements of the two checks and the timer may interleave. A step of this theory is a part of a
  check up to the next access of a flag; everything else is a step of the session as before.
\<close>

subsection \<open>Steps\<close>

datatype check_pc =
    CkIdle | CkCalled | CkLocked LockoutMode | CkTimed int | CkStart int | CkSpawned | CkDone

text \<open>
  In the order of the source: \<open>getMode\<close>; switching the light and the sensor off and telling the
  framework; the test of \<open>mIsLockoutTimerStarted\<close>; \<open>startLockoutTimer\<close> up to the new thread, and
  its last line.
\<close>

fun check_micro :: "fp_env \<Rightarrow> check_pc \<Rightarrow> session \<Rightarrow> check_pc \<times> session" where
  "check_micro env CkCalled s =
     (let (lockoutMode, tracker) = getMode (clk env 1) (mLockoutTracker s)
      in (if lockoutMode = NONE then CkDone else CkLocked lockoutMode, s\<lparr>mLockoutTracker := tracker\<rparr>))"
| "check_micro env (CkLocked lockoutMode) s =
     (let s = goodixExtCmd 0 0 (setFodHbm False s) in
      if lockoutMode = PERMANENT
      then (CkDone, (emit [OnLockoutPermanent] s)\<lparr>mIsLockoutTimerAborted := True\<rparr>)
      else let timeLeft = getLockoutTimeLeft (clk env 2) (mLockoutTracker s)
           in (CkTimed timeLeft, emit [OnLockoutTimed timeLeft] s))"
| "check_micro env (CkTimed timeLeft) s =
     (if \<not> mIsLockoutTimerStarted s then CkStart timeLeft else CkDone, s)"
| "check_micro env (CkStart timeout) s =
     (CkSpawned, s\<lparr>mIsLockoutTimerAborted := False, timers := timers s @ [timeout]\<rparr>)"
| "check_micro env CkSpawned s = (CkDone, s\<lparr>mIsLockoutTimerStarted := True\<rparr>)"
| "check_micro env CkDone s = (CkIdle, s)"
| "check_micro env CkIdle s = (CkIdle, s)"

record race =
  shared :: session
  module_pc :: check_pc
  worker_pc :: check_pc

datatype race_op = REvent fp_event | RModule | RWorker

text \<open>The messages on which \<open>notify\<close> checks the lockout.\<close>

fun failed_msg :: "fingerprint_msg \<Rightarrow> bool" where
  "failed_msg (FINGERPRINT_AUTHENTICATED finger hat) \<longleftrightarrow> fid finger = 0"
| "failed_msg _ \<longleftrightarrow> False"

text \<open>The parts of \<open>notify\<close> and of the pointer task before and after the check.\<close>

definition notify_failed_begin :: "fp_env \<Rightarrow> session \<Rightarrow> session" where
  "notify_failed_begin env s =
     (let s = emit [OnAuthenticationFailed] s
      in s\<lparr>mLockoutTracker := addFailedAttempt (clk env 0) (mLockoutTracker s)\<rparr>)"

definition module_returns :: "check_pc \<Rightarrow> session \<Rightarrow> session" where
  "module_returns pc s = (if pc = CkDone then s\<lparr>mUiReady := False\<rparr> else s)"

fun race_step :: "race \<Rightarrow> fp_env \<times> race_op \<Rightarrow> race" where
  "race_step R (env, RModule) =
     (let (pc, s) = check_micro env (module_pc R) (shared R)
      in R\<lparr>module_pc := pc, shared := module_returns (module_pc R) s\<rparr>)"
| "race_step R (env, RWorker) =
     (let (pc, s) = check_micro env (worker_pc R) (shared R) in R\<lparr>worker_pc := pc, shared := s\<rparr>)"
| "race_step R (env, REvent (Notify msg)) =
     (if module_pc R \<noteq> CkIdle then R
      else if failed_msg msg
      then R\<lparr>module_pc := CkCalled, shared := notify_failed_begin env (shared R)\<rparr>
      else R\<lparr>shared := session_step (shared R) (env, Notify msg)\<rparr>)"
| "race_step R (env, REvent Worker) =
     (if worker_pc R \<noteq> CkIdle then R
      else case worker_queue (shared R) of
        TaskPointerDown # ts \<Rightarrow>
          R\<lparr>worker_pc := CkCalled, shared := goodixExtCmd 1 0 ((shared R)\<lparr>worker_queue := ts\<rparr>)\<rparr>
      | _ \<Rightarrow> R\<lparr>shared := session_step (shared R) (env, Worker)\<rparr>)"
| "race_step R (env, REvent ev) = R\<lparr>shared := session_step (shared R) (env, ev)\<rparr>"

definition race_start :: "session \<Rightarrow> race" where
  "race_start s = \<lparr>shared = s, module_pc = CkIdle, worker_pc = CkIdle\<rparr>"

subsection \<open>An uninterrupted check\<close>

lemma replicate_6: "replicate 6 x = [x, x, x, x, x, x]"
  by (simp add: numeral_eq_Suc)

lemma module_check:
  "module_pc R = CkCalled \<Longrightarrow> foldl race_step R (replicate 6 (env, RModule)) =
     R\<lparr>module_pc := CkIdle, shared := (snd (checkSensorLockout env (shared R)))\<lparr>mUiReady := False\<rparr>\<rparr>"
  by (cases "fst (getMode (clk env 1) (mLockoutTracker (shared R)))")
    (simp_all add: replicate_6 checkSensorLockout_def module_returns_def emitting startLockoutTimer_def
      Let_def case_prod_beta emit_def)

lemma worker_check:
  "worker_pc R = CkCalled \<Longrightarrow> foldl race_step R (replicate 6 (env, RWorker)) =
     R\<lparr>worker_pc := CkIdle, shared := snd (checkSensorLockout env (shared R))\<rparr>"
  by (cases "fst (getMode (clk env 1) (mLockoutTracker (shared R)))")
    (simp_all add: replicate_6 checkSensorLockout_def emitting startLockoutTimer_def
      Let_def case_prod_beta emit_def)

text \<open>
  A check that is not interrupted is the check of the session's steps: from the report of a
  failed finger, or from the pointer task, the six parts of the check run one after the other
  do exactly what the single step of the session does.
\<close>

theorem uninterrupted_check_is_step:
  assumes "module_pc R = CkIdle" "worker_pc R = CkIdle" and "failed_msg msg"
    and "worker_queue (shared R) = TaskPointerDown # ts"
  shows "foldl race_step R ((env, REvent (Notify msg)) # replicate 6 (env, RModule)) =
      R\<lparr>shared := session_step (shared R) (env, Notify msg)\<rparr> \<and>
    foldl race_step R ((env, REvent Worker) # replicate 6 (env, RWorker)) =
      R\<lparr>shared := session_step (shared R) (env, Worker)\<rparr>"
proof
  show "foldl race_step R ((env, REvent (Notify msg)) # replicate 6 (env, RModule)) =
     R\<lparr>shared := session_step (shared R) (env, Notify msg)\<rparr>"
    using assms(1,3) by (cases msg) (simp_all add: module_check notify_failed_begin_def notify_failed Let_def)
  show "foldl race_step R ((env, REvent Worker) # replicate 6 (env, RWorker)) =
     R\<lparr>shared := session_step (shared R) (env, Worker)\<rparr>"
    using assms(2,4) by (simp add: worker_check)
qed

subsection \<open>What the other steps leave alone\<close>

definition starts_check :: "session \<Rightarrow> fp_event \<Rightarrow> bool" where
  "starts_check s ev \<longleftrightarrow>
     (case ev of Notify msg \<Rightarrow> failed_msg msg
      | Worker \<Rightarrow> (case worker_queue s of t # ts \<Rightarrow> t = TaskPointerDown | [] \<Rightarrow> False)
      | _ \<Rightarrow> False)"

lemma client_step_timer:
  "timers (snd (client_step env c s)) = timers s"
  "mIsLockoutTimerStarted (snd (client_step env c s)) = mIsLockoutTimerStarted s"
  by (cases c; simp add: client_defs emitting)+

lemma run_task_timer:
  assumes "t \<noteq> TaskPointerDown"
  shows "timers (run_task env t s) = timers s \<and>
    mIsLockoutTimerStarted (run_task env t s) = mIsLockoutTimerStarted s"
  using assms by (cases t) (simp_all add: emitting clearLockout_def Let_def split: option.split)

lemma notify_timer:
  assumes "\<not> failed_msg msg"
  shows "timers (session_notify env msg s) = timers s \<and>
    mIsLockoutTimerStarted (session_notify env msg s) = mIsLockoutTimerStarted s"
  using assms by (cases msg) (simp_all add: emitting Let_def split: prod.split)

lemma session_step_timer:
  assumes "ev \<noteq> Timer" and "\<not> starts_check s ev"
  shows "timers (session_step s (env, ev)) = timers s \<and>
    mIsLockoutTimerStarted (session_step s (env, ev)) = mIsLockoutTimerStarted s"
proof (cases ev)
  case Worker
  then show ?thesis
    using assms run_task_timer[of _ env "s\<lparr>worker_queue := _\<rparr>"]
    by (cases "worker_queue s") (simp_all add: starts_check_def)
qed (use assms in \<open>simp_all add: starts_check_def client_step_timer notify_timer onClientDeath_def
  close_def emitting\<close>)

text \<open>An event of the session in the interleaved model: a step, the start of a check, or nothing.\<close>

lemma race_event_cases:
  obtains "race_step R (env, REvent ev) = R"
  | "\<not> starts_check (shared R) ev"
    "race_step R (env, REvent ev) = R\<lparr>shared := session_step (shared R) (env, ev)\<rparr>"
  | s where "starts_check (shared R) ev" "module_pc R = CkIdle" "ev \<noteq> Timer"
    "race_step R (env, REvent ev) = R\<lparr>module_pc := CkCalled, shared := s\<rparr>"
    "timers s = timers (shared R)" "mIsLockoutTimerStarted s = mIsLockoutTimerStarted (shared R)"
  | s where "starts_check (shared R) ev" "worker_pc R = CkIdle" "ev \<noteq> Timer"
    "race_step R (env, REvent ev) = R\<lparr>worker_pc := CkCalled, shared := s\<rparr>"
    "timers s = timers (shared R)" "mIsLockoutTimerStarted s = mIsLockoutTimerStarted (shared R)"
proof (cases ev)
  case (Notify msg)
  show ?thesis
  proof (cases "module_pc R = CkIdle \<and> failed_msg msg")
    case True
    then have "timers (notify_failed_begin env (shared R)) = timers (shared R)"
      "mIsLockoutTimerStarted (notify_failed_begin env (shared R)) = mIsLockoutTimerStarted (shared R)"
      by (simp_all add: notify_failed_begin_def Let_def)
    with True that(3) show ?thesis by (simp add: Notify starts_check_def)
  next
    case False
    show ?thesis
    proof (cases "module_pc R = CkIdle")
      case True
      with False that(2) show ?thesis by (simp add: Notify starts_check_def)
    qed (use that(1) in \<open>simp add: Notify\<close>)
  qed
next
  case Worker
  show ?thesis
  proof (cases "worker_pc R = CkIdle")
    case True
    show ?thesis
    proof (cases "starts_check (shared R) Worker")
      case starts: True
      then obtain ts where "worker_queue (shared R) = TaskPointerDown # ts"
        by (auto simp: starts_check_def split: list.splits)
      with True starts that(4) show ?thesis by (simp add: Worker emitting)
    next
      case False
      then have "race_step R (env, REvent Worker) = R\<lparr>shared := session_step (shared R) (env, Worker)\<rparr>"
        using True by (auto simp: starts_check_def split: list.splits task.splits)
      with False that(2) show ?thesis by (simp add: Worker)
    qed
  qed (use that(1) in \<open>simp add: Worker\<close>)
qed (use that(2) in \<open>simp_all add: starts_check_def\<close>)


subsection \<open>The flag that is never taken back\<close>

fun starting :: "check_pc \<Rightarrow> bool" where
  "starting (CkStart t) \<longleftrightarrow> True"
| "starting CkSpawned \<longleftrightarrow> True"
| "starting _ \<longleftrightarrow> False"

definition stuck :: "race \<Rightarrow> bool" where
  "stuck R \<longleftrightarrow> mIsLockoutTimerStarted (shared R) \<and> timers (shared R) = [] \<and>
     \<not> starting (module_pc R) \<and> \<not> starting (worker_pc R)"

lemma micro_stuck:
  assumes "check_micro env pc s = (pc', s')" and "mIsLockoutTimerStarted s" "timers s = []" "\<not> starting pc"
  shows "mIsLockoutTimerStarted s'" "timers s' = []" "\<not> starting pc'"
  using assms by (cases pc; auto simp: emitting Let_def split: prod.splits if_splits)+

lemma module_returns_timer [simp]:
  "timers (module_returns pc s) = timers s"
  "mIsLockoutTimerStarted (module_returns pc s) = mIsLockoutTimerStarted s"
  by (simp_all add: module_returns_def)

lemma stuck_event: "stuck R \<Longrightarrow> stuck (race_step R (env, REvent ev))"
proof (cases rule: race_event_cases[of R env ev])
  assume "stuck R"
  case 2
  then show ?thesis
    using \<open>stuck R\<close> session_step_timer[of ev "shared R" env]
    by (cases "ev = Timer") (simp_all add: stuck_def)
qed (simp_all add: stuck_def)

lemma stuck_step:
  assumes "stuck R"
  shows "stuck (race_step R (env, op))"
proof (cases op)
  case (REvent ev)
  then show ?thesis using stuck_event[OF assms] by simp
next
  case RModule
  obtain pc s where m: "check_micro env (module_pc R) (shared R) = (pc, s)" by fastforce
  from micro_stuck[OF m] assms show ?thesis by (simp add: RModule m stuck_def)
next
  case RWorker
  obtain pc s where m: "check_micro env (worker_pc R) (shared R) = (pc, s)" by fastforce
  from micro_stuck[OF m] assms show ?thesis by (simp add: RWorker m stuck_def)
qed

interpretation stuck_runs: op_system race_step stuck
  by unfold_locales (metis stuck_step surj_pair)


text \<open>Two checks that both look at the flag before either sets it start two timers.\<close>

lemma overlapping_checks_start_two_timers:
  assumes "module_pc R = CkTimed t1" "worker_pc R = CkTimed t2" and "\<not> mIsLockoutTimerStarted (shared R)"
  shows "timers (shared (foldl race_step R [(e1, RModule), (e2, RWorker), (e3, RModule), (e4, RWorker)])) =
    timers (shared R) @ [t1, t2]"
  using assms by (simp add: module_returns_def)

subsection \<open>Checks one at a time\<close>

text \<open>
  What a lock around the check and the end of the timer would ensure: a check starts only when no
  other runs, and a timer does not end between its start and the setting of the flag.
\<close>

definition exclusive :: "race \<Rightarrow> race_op \<Rightarrow> bool" where
  "exclusive R op \<longleftrightarrow>
     (case op of
        REvent ev \<Rightarrow>
          (starts_check (shared R) ev \<longrightarrow> module_pc R = CkIdle \<and> worker_pc R = CkIdle) \<and>
          (ev = Timer \<longrightarrow> module_pc R \<noteq> CkSpawned \<and> worker_pc R \<noteq> CkSpawned)
      | _ \<Rightarrow> True)"

fun exclusive_run :: "race \<Rightarrow> (fp_env \<times> race_op) list \<Rightarrow> bool" where
  "exclusive_run R [] \<longleftrightarrow> True"
| "exclusive_run R (ev # evs) \<longleftrightarrow> exclusive R (snd ev) \<and> exclusive_run (race_step R ev) evs"

fun pc_ok :: "check_pc \<Rightarrow> session \<Rightarrow> bool" where
  "pc_ok (CkStart t) s \<longleftrightarrow> \<not> mIsLockoutTimerStarted s \<and> timers s = []"
| "pc_ok CkSpawned s \<longleftrightarrow> \<not> mIsLockoutTimerStarted s \<and> length (timers s) = 1"
| "pc_ok pc s \<longleftrightarrow> timer_ok s"

definition race_inv :: "race \<Rightarrow> bool" where
  "race_inv R \<longleftrightarrow> (module_pc R = CkIdle \<or> worker_pc R = CkIdle) \<and>
     pc_ok (if module_pc R = CkIdle then worker_pc R else module_pc R) (shared R)"

lemma pc_ok_cong:
  "timers s' = timers s \<Longrightarrow> mIsLockoutTimerStarted s' = mIsLockoutTimerStarted s \<Longrightarrow> pc_ok pc s' = pc_ok pc s"
  by (cases pc) (simp_all add: timer_ok_def)

lemma pc_ok_returns [simp]: "pc_ok pc (module_returns pc' s) = pc_ok pc s"
  by (rule pc_ok_cong) simp_all

lemma micro_ok: "check_micro env pc s = (pc', s') \<Longrightarrow> pc_ok pc s \<Longrightarrow> pc_ok pc' s'"
  by (cases pc) (auto simp: timer_ok_def emitting Let_def split: prod.splits if_splits)

lemma timer_ok_event: "pc_ok pc s \<Longrightarrow> pc \<noteq> CkSpawned \<Longrightarrow> pc_ok pc (session_step s (env, Timer))"
  by (cases pc) (auto simp: timer_ok_def lockoutTimerExpired_def clearLockout_def Let_def split: list.split)

lemma race_inv_event:
  assumes "race_inv R" and "exclusive R (REvent ev)"
  shows "race_inv (race_step R (env, REvent ev))"
proof (cases rule: race_event_cases[of R env ev])
  case 2
  then show ?thesis
    using assms session_step_timer[of ev "shared R" env] timer_ok_event[of _ "shared R" env]
      timer_ok_event[of CkIdle "shared R" env]
    by (cases "ev = Timer") (auto simp: race_inv_def exclusive_def pc_ok_cong[of "session_step (shared R) (env, ev)" "shared R"]
        simp del: session_step.simps)
next
  case (3 s)
  then show ?thesis using assms pc_ok_cong[of s "shared R"] by (simp add: race_inv_def exclusive_def timer_ok_def)
next
  case (4 s)
  then show ?thesis using assms pc_ok_cong[of s "shared R"] by (simp add: race_inv_def exclusive_def timer_ok_def)
qed (use assms in simp)

lemma race_inv_step:
  assumes "race_inv R" and "exclusive R op"
  shows "race_inv (race_step R (env, op))"
proof (cases op)
  case RModule
  then show ?thesis
    using assms(1) micro_ok[of env "module_pc R" "shared R"]
      pc_ok_returns[of CkIdle]
    by (cases "module_pc R = CkIdle") (auto simp: race_inv_def module_returns_def[of CkIdle] split: prod.split)
next
  case RWorker
  then show ?thesis
    using assms(1) micro_ok[of env "worker_pc R" "shared R"]
    by (cases "worker_pc R = CkIdle") (auto simp: race_inv_def split: prod.split)
qed (use assms race_inv_event in simp)

lemma race_run_inv: "race_inv R \<Longrightarrow> exclusive_run R evs \<Longrightarrow> race_inv (foldl race_step R evs)"
proof (induction evs arbitrary: R)
  case (Cons ev evs)
  then show ?case using race_inv_step[of R "snd ev" "fst ev"] by simp
qed simp



subsection \<open>Instances\<close>

text \<open>A session on its fifth failed attempt, with a pointer task waiting.\<close>

definition race_example :: race where
  "race_example = race_start (Session_ctor 0 (LockoutTracker_init\<lparr>mFailedCount := 4\<rparr>) [TaskPointerDown] [] [])"

definition race_starting :: race where
  "race_starting = foldl race_step race_example
     [(example_env 1, REvent (Notify no_match)), (example_env 1, RModule), (example_env 1, RModule),
      (example_env 1, RModule)]"

lemma race_starting_pc:
  "module_pc race_starting = CkStart 30000" "worker_pc race_starting = CkIdle" "timers (shared race_starting) = []"
  by (simp_all add: race_starting_def race_example_def race_start_def no_match_def notify_failed_begin_def
      module_returns_def Session_ctor_def LockoutTracker_init_def addFailedAttempt_def getMode_def example_env_def
      documented_clock_def LOCKOUT_TIMED_DURATION_def LOCKOUT_TIMED_THRESHOLD_def
      LOCKOUT_PERMANENT_THRESHOLD_def getLockoutTimeLeft_def emitting sdiv_million Let_def)

theorem uninterrupted_check_is_step_witness:
  "foldl race_step race_example ((example_env 1, REvent (Notify no_match)) # replicate 6 (example_env 1, RModule)) =
     race_example\<lparr>shared := session_step (shared race_example) (example_env 1, Notify no_match)\<rparr>"
  using uninterrupted_check_is_step[of race_example no_match "[]" "example_env 1"]
  by (simp add: race_example_def race_start_def Session_ctor_def no_match_def del: race_step.simps session_step.simps)



end
