(* ===== verification/SessionLife.thy ===== *)
theory SessionLife
  imports Fingerprint
begin

text \<open>
  The life of session objects (\<^verbatim>\<open>src/fingerprint/Fingerprint.cpp\<close>, \<^verbatim>\<open>src/fingerprint/Session.cpp\<close>,
  \<^verbatim>\<open>src/fingerprint/CancellationSignal.cpp\<close>).

  A session is a shared object: it lives as long as the service's \<open>mSession\<close> points to it or the
  framework holds its binder. Three things keep only a plain pointer to it: the tasks in the
  worker's queue and the sleeping lockout timer, which capture \<open>this\<close>, and the cancellation
  signals. \<open>fp_life\<close> adds to the service which sessions the framework holds and which
  cancellation signals it holds; \<open>life_step\<close> is \<open>None\<close> when a session is used that no longer
  exists. An event that cannot happen leaves the state as it is. Deleting the death recipient in
  \<open>close\<close> also unlinks it, as libbinder documents, so no death reaches a closed session.
\<close>

subsection \<open>State and steps\<close>

record fp_life =
  service :: fp_service
  client_refs :: "nat list"
  signals :: "nat list"

definition session_alive :: "fp_life \<Rightarrow> nat \<Rightarrow> bool" where
  "session_alive L i \<longleftrightarrow> mSession (service L) = Some i \<or> i \<in> set (client_refs L)"

datatype life_event =
    LCreate i32 | LClient nat client_call | LCancel nat | LWorker | LNotify fingerprint_msg
  | LTimer nat | LDeath nat | LRelease nat | LDropSignal nat

text \<open>The calls that return a cancellation signal.\<close>

fun returns_signal :: "client_call \<Rightarrow> bool" where
  "returns_signal (CallEnroll hat) \<longleftrightarrow> True"
| "returns_signal (CallAuthenticate i) \<longleftrightarrow> True"
| "returns_signal CallDetectInteraction \<longleftrightarrow> True"
| "returns_signal _ \<longleftrightarrow> False"

text \<open>Code of session \<open>i\<close> runs, on an object that must exist.\<close>

definition use_session :: "nat \<Rightarrow> (fp_service \<Rightarrow> fp_service) \<Rightarrow> fp_life \<Rightarrow> fp_life option" where
  "use_session i f L = (if session_alive L i then Some (L\<lparr>service := f (service L)\<rparr>) else None)"

fun life_step :: "fp_life \<Rightarrow> fp_env \<times> life_event \<Rightarrow> fp_life option" where
  "life_step L (env, LCreate user) =
     (case createSession user (service L) of
        Inl e \<Rightarrow> Some L
      | Inr svc \<Rightarrow> Some (L\<lparr>service := svc, client_refs := client_refs L @ [length (heap (service L))]\<rparr>))"
| "life_step L (env, LClient i c) =
     (if i \<in> set (client_refs L)
      then use_session i (on_session i (\<lambda>s. session_step s (env, Client c)))
             (if returns_signal c then L\<lparr>signals := signals L @ [i]\<rparr> else L)
      else Some L)"
| "life_step L (env, LCancel i) =
     (if i \<in> set (signals L)
      then use_session i (on_session i (\<lambda>s. snd (CancellationSignal_cancel env s))) L else Some L)"
| "life_step L (env, LWorker) =
     (case task_order (service L) of
        [] \<Rightarrow> Some L
      | i # is \<Rightarrow>
          use_session i (\<lambda>svc. on_session i (\<lambda>s. session_step s (env, Worker)) (svc\<lparr>task_order := is\<rparr>)) L)"
| "life_step L (env, LNotify msg) = Some (L\<lparr>service := Fingerprint_notify env msg (service L)\<rparr>)"
| "life_step L (env, LTimer i) =
     (if i < length (heap (service L)) \<and> timers (heap (service L) ! i) \<noteq> []
      then use_session i (on_session i (\<lambda>s. session_step s (env, Timer))) L else Some L)"
| "life_step L (env, LDeath i) =
     (if i < length (heap (service L)) \<and> \<not> mClosed (heap (service L) ! i)
      then use_session i (on_session i (\<lambda>s. session_step s (env, ClientDeath))) L else Some L)"
| "life_step L (env, LRelease i) = Some (L\<lparr>client_refs := removeAll i (client_refs L)\<rparr>)"
| "life_step L (env, LDropSignal i) = Some (L\<lparr>signals := removeAll i (signals L)\<rparr>)"

fun life_run :: "fp_life \<Rightarrow> (fp_env \<times> life_event) list \<Rightarrow> fp_life option" where
  "life_run L [] = Some L"
| "life_run L (ev # evs) = Option.bind (life_step L ev) (\<lambda>L. life_run L evs)"

definition life_start :: "fp_service \<Rightarrow> fp_life" where
  "life_start svc = \<lparr>service = svc, client_refs = [], signals = []\<rparr>"

subsection \<open>The invariant\<close>

definition life_inv :: "fp_life \<Rightarrow> bool" where
  "life_inv L \<longleftrightarrow> svc_inv (service L) \<and>
     (\<forall>i \<in> set (client_refs L) \<union> set (signals L). i < length (heap (service L)))"

lemma heap_on_session [simp]: "length (heap (on_session i f svc)) = length (heap svc)"
  by (simp add: on_session_def Let_def)

lemma heap_notify [simp]: "length (heap (Fingerprint_notify env msg svc)) = length (heap svc)"
  by (simp add: Fingerprint_notify_def split: option.split)

lemma cancel_is_call: "snd (CancellationSignal_cancel env s) = session_step s (env, Client CallCancel)"
  by (simp add: CancellationSignal_cancel_def)

lemma use_session_inv:
  assumes "life_inv L" and "use_session i f L = Some L'" and "svc_step (service L) ev (f (service L))"
    and "length (heap (f (service L))) = length (heap (service L))"
  shows "life_inv L'"
  using assms svc_step_inv[OF assms(3)] by (auto simp: life_inv_def use_session_def split: if_splits)

lemma life_inv_signal: "life_inv L \<Longrightarrow> i \<in> set (client_refs L) \<Longrightarrow> life_inv (L\<lparr>signals := signals L @ [i]\<rparr>)"
  by (auto simp: life_inv_def)

lemma life_inv_index:
  "life_inv L \<Longrightarrow> i \<in> set (client_refs L) \<or> i \<in> set (signals L) \<Longrightarrow> i < length (heap (service L))"
  by (auto simp: life_inv_def)

lemma guarded_use_inv:
  assumes "life_inv L" and "(if G then use_session i (on_session i f) L else Some L) = Some L'"
    and "G \<Longrightarrow> svc_step (service L) ev (on_session i f (service L))"
  shows "life_inv L'"
proof (cases G)
  case True
  then have used: "use_session i (on_session i f) L = Some L'" using assms(2) by simp
  show ?thesis by (rule use_session_inv[OF assms(1) used assms(3)[OF True]]) simp
qed (use assms in simp)

lemma life_step_inv:
  assumes "life_inv L" and "life_step L (env, ev) = Some L'"
  shows "life_inv L'"
proof (cases ev)
  case (LCreate user)
  show ?thesis
  proof (cases "createSession user (service L)")
    case (Inr svc)
    then have "svc_inv svc" "length (heap svc) = Suc (length (heap (service L)))"
      using createSession_inv[OF _ Inr] createSession_heap(4)[OF Inr] assms(1) by (simp_all add: life_inv_def)
    with Inr LCreate assms show ?thesis by (auto simp: life_inv_def less_Suc_eq)
  qed (use assms LCreate in simp)
next
  case (LClient i c)
  let ?L = "if i \<in> set (client_refs L) \<and> returns_signal c then L\<lparr>signals := signals L @ [i]\<rparr> else L"
  have inv: "life_inv ?L" using assms(1) by (simp add: life_inv_signal)
  have "(if i \<in> set (client_refs L) then use_session i (on_session i (\<lambda>s. session_step s (env, Client c))) ?L
      else Some ?L) = Some L'"
    using LClient assms(2) by (auto simp del: session_step.simps split: if_splits)
  then show ?thesis
    by (rule guarded_use_inv[OF inv _ svc_step.client]) (simp add: life_inv_index assms(1))
next
  case (LCancel i)
  note step = assms(2)[unfolded LCancel life_step.simps cancel_is_call]
  show ?thesis
    by (rule guarded_use_inv[OF assms(1) step svc_step.client]) (simp add: life_inv_index assms(1))
next
  case LWorker
  show ?thesis
  proof (cases "task_order (service L)")
    case (Cons i "is")
    then have used: "use_session i (\<lambda>svc. on_session i (\<lambda>s. session_step s (env, Worker)) (svc\<lparr>task_order := is\<rparr>)) L = Some L'"
      using LWorker assms(2) by (simp del: session_step.simps)
    show ?thesis by (rule use_session_inv[OF assms(1) used svc_step.worker[OF Cons]]) simp
  qed (use assms LWorker in simp)
next
  case (LNotify msg)
  then show ?thesis
    using assms svc_step_inv[OF svc_step.notify[of "service L" env msg]] by (auto simp: life_inv_def)
next
  case (LTimer i)
  note step = assms(2)[unfolded LTimer life_step.simps]
  show ?thesis by (rule guarded_use_inv[OF assms(1) step svc_step.timer]) simp_all
next
  case (LDeath i)
  note step = assms(2)[unfolded LDeath life_step.simps]
  show ?thesis by (rule guarded_use_inv[OF assms(1) step svc_step.death]) simp
qed (use assms in \<open>auto simp: life_inv_def\<close>)

lemma life_run_inv: "life_inv L \<Longrightarrow> life_run L evs = Some L' \<Longrightarrow> life_inv L'"
proof (induction evs arbitrary: L)
  case (Cons ev evs)
  then show ?case
    using life_step_inv[of L "fst ev" "snd ev"] by (auto simp: Option.bind_eq_Some_conv)
qed simp

lemma life_start_inv: "svc_inv svc \<Longrightarrow> life_inv (life_start svc)"
  by (simp add: life_inv_def life_start_def)

text \<open>A session that is not the service's own is closed, and the service's own is alive.\<close>

lemma dead_is_old:
  assumes "life_inv L" and "i < length (heap (service L))" and "\<not> session_alive L i"
  shows "Suc i < length (heap (service L)) \<and> mClosed (heap (service L) ! i) \<and> i \<notin> set (client_refs L)"
proof -
  have ok: "sessions_ok (service L)" using assms(1) by (simp add: life_inv_def svc_inv_def)
  have "Suc i < length (heap (service L))"
  proof (rule ccontr)
    assume "\<not> Suc i < length (heap (service L))"
    then have "length (heap (service L)) - 1 = i" using assms(2) by simp
    then show False using ok assms(2,3) by (auto simp: sessions_ok_def session_alive_def split: if_splits)
  qed
  with ok assms(3) show ?thesis by (simp add: sessions_ok_def session_alive_def)
qed

text \<open>The session a step uses through a plain pointer.\<close>

definition plain_use :: "fp_life \<Rightarrow> life_event \<Rightarrow> nat \<Rightarrow> bool" where
  "plain_use L ev i \<longleftrightarrow> i < length (heap (service L)) \<and>
     (ev = LWorker \<and> (\<exists>is. task_order (service L) = i # is) \<or>
      ev = LTimer i \<and> timers (heap (service L) ! i) \<noteq> [] \<or>
      ev = LCancel i \<and> i \<in> set (signals L))"

lemma open_session_alive:
  "life_inv L \<Longrightarrow> i < length (heap (service L)) \<Longrightarrow> \<not> mClosed (heap (service L) ! i) \<Longrightarrow> session_alive L i"
  using dead_is_old[of L i] by blast

lemma step_faults_iff:
  assumes "life_inv L"
  shows "life_step L (env, ev) = None \<longleftrightarrow> (\<exists>i. plain_use L ev i \<and> \<not> session_alive L i)"
proof (cases ev)
  case LWorker
  show ?thesis
  proof (cases "task_order (service L)")
    case (Cons i "is")
    then have "i < length (heap (service L))"
      using assms by (simp add: life_inv_def svc_inv_def queue_ok_def)
    with Cons LWorker show ?thesis
      by (auto simp: plain_use_def use_session_def simp del: session_step.simps)
  qed (simp add: LWorker plain_use_def)
next
  case (LCancel i)
  then show ?thesis
    using life_inv_index[OF assms, of i] by (auto simp: plain_use_def use_session_def)
next
  case (LDeath i)
  then show ?thesis
    using open_session_alive[OF assms, of i]
    by (auto simp: plain_use_def use_session_def simp del: session_step.simps)
next
  case (LClient i c)
  then show ?thesis
    by (auto simp: plain_use_def use_session_def session_alive_def simp del: session_step.simps)
qed (auto simp: plain_use_def use_session_def simp del: session_step.simps split: sum.split)

subsection \<open>Properties\<close>


text \<open>
  A client that gives a session back only when it is closed and nothing is left to do for it.
\<close>

definition settled :: "fp_life \<Rightarrow> nat \<Rightarrow> bool" where
  "settled L i \<longleftrightarrow> mClosed (heap (service L) ! i) \<and> i \<notin> set (task_order (service L)) \<and>
     timers (heap (service L) ! i) = [] \<and> i \<notin> set (signals L)"

fun careful :: "fp_life \<Rightarrow> life_event \<Rightarrow> bool" where
  "careful L (LRelease i) \<longleftrightarrow> i < length (heap (service L)) \<longrightarrow> settled L i"
| "careful L _ \<longleftrightarrow> True"

fun careful_run :: "fp_life \<Rightarrow> (fp_env \<times> life_event) list \<Rightarrow> bool" where
  "careful_run L [] \<longleftrightarrow> True"
| "careful_run L (ev # evs) \<longleftrightarrow> careful L (snd ev) \<and>
     (case life_step L ev of None \<Rightarrow> True | Some L' \<Rightarrow> careful_run L' evs)"

definition tidy :: "fp_life \<Rightarrow> bool" where
  "tidy L \<longleftrightarrow> life_inv L \<and> (\<forall>i < length (heap (service L)). i \<in> set (client_refs L) \<or> settled L i)"

lemma tidy_no_fault:
  assumes "tidy L" shows "life_step L (env, ev) \<noteq> None"
proof -
  have "session_alive L i" if "plain_use L ev i" for i
    using assms that by (auto simp: tidy_def plain_use_def settled_def session_alive_def)
  then show ?thesis
    using step_faults_iff[of L env ev] assms by (auto simp: tidy_def)
qed

text \<open>Running code of one session leaves the others settled.\<close>

lemma on_session_others:
  assumes "i \<noteq> j"
  shows "heap (on_session j f svc) ! i = heap svc ! i"
    "i \<in> set (task_order (on_session j f svc)) \<longleftrightarrow> i \<in> set (task_order svc)"
  using assms by (simp_all add: on_session_def Let_def)

lemma tidy_use:
  assumes "tidy L" and "life_inv (L\<lparr>service := svc\<rparr>)" and "j \<in> set (client_refs L)"
    and "length (heap svc) = length (heap (service L))"
    and "\<And>i. i \<noteq> j \<Longrightarrow> heap svc ! i = heap (service L) ! i"
    and "\<And>i. i \<noteq> j \<Longrightarrow> i \<in> set (task_order svc) \<Longrightarrow> i \<in> set (task_order (service L))"
  shows "tidy (L\<lparr>service := svc\<rparr>)"
proof -
  have "i \<in> set (client_refs L) \<or> settled (L\<lparr>service := svc\<rparr>) i" if "i < length (heap svc)" for i
    using assms(1,3,4) assms(5)[of i] assms(6)[of i] that by (cases "i = j") (auto simp: tidy_def settled_def)
  with assms(2) show ?thesis by (simp add: tidy_def)
qed

lemma tidy_ref: "tidy L \<Longrightarrow> i < length (heap (service L)) \<Longrightarrow> \<not> settled L i \<Longrightarrow> i \<in> set (client_refs L)"
  by (auto simp: tidy_def)

lemma tidy_on_session:
  assumes "tidy L" and "use_session j (on_session j f) L = Some L'" and "life_inv L'"
    and "j \<in> set (client_refs L)"
  shows "tidy L'"
proof -
  have L': "L' = L\<lparr>service := on_session j f (service L)\<rparr>"
    using assms(2) by (auto simp: use_session_def split: if_splits)
  show ?thesis
    unfolding L' by (rule tidy_use[OF assms(1) assms(3)[unfolded L'] assms(4)]) (simp_all add: on_session_others)
qed

lemma tidy_notify:
  assumes "tidy L" and "life_inv (L\<lparr>service := Fingerprint_notify env msg (service L)\<rparr>)"
  shows "tidy (L\<lparr>service := Fingerprint_notify env msg (service L)\<rparr>)"
proof (cases "Fingerprint_notify env msg (service L) = service L")
  case False
  then obtain m where m: "mSession (service L) = Some m" "\<not> mClosed (heap (service L) ! m)"
    and svc: "Fingerprint_notify env msg (service L) = on_session m (session_notify env msg) (service L)"
    by (auto simp: Fingerprint_notify_def isClosed_def split: option.splits if_splits)
  have "m < length (heap (service L))"
    using assms(1) m(1) by (auto simp: tidy_def life_inv_def svc_inv_def sessions_ok_def split: if_splits)
  then have "m \<in> set (client_refs L)"
    using tidy_ref[OF assms(1)] m(2) by (simp add: settled_def)
  from tidy_use[OF assms this] show ?thesis by (simp add: svc on_session_others)
qed (use assms in simp)

lemma tidy_worker:
  assumes "tidy L" and "life_step L (env, LWorker) = Some L'"
  shows "tidy L'"
proof (cases "task_order (service L)")
  case (Cons i "is")
  let ?svc = "on_session i (\<lambda>s. session_step s (env, Worker)) ((service L)\<lparr>task_order := is\<rparr>)"
  have inv: "life_inv L" using assms(1) by (simp add: tidy_def)
  have L': "L' = L\<lparr>service := ?svc\<rparr>"
    using assms(2) Cons by (auto simp: use_session_def simp del: session_step.simps split: if_splits)
  have "i < length (heap (service L))"
    using inv Cons by (simp add: life_inv_def svc_inv_def queue_ok_def)
  then have "i \<in> set (client_refs L)" using tidy_ref[OF assms(1)] Cons by (simp add: settled_def)
  then show ?thesis
    unfolding L' by (rule tidy_use[OF assms(1) life_step_inv[OF inv assms(2), unfolded L']])
      (simp_all add: on_session_others Cons del: session_step.simps)
qed (use assms in simp)

lemma tidy_step:
  assumes "tidy L" and "careful L ev" and "life_step L (env, ev) = Some L'"
  shows "tidy L'"
proof -
  have inv: "life_inv L" using assms(1) by (simp add: tidy_def)
  note inv' = life_step_inv[OF inv assms(3)]
  note on_use = tidy_on_session[OF _ _ inv'] and ref = tidy_ref[OF assms(1)]
  show ?thesis
  proof (cases ev)
    case (LCreate user)
    show ?thesis
    proof (cases "createSession user (service L)")
      case (Inr svc)
      with LCreate assms(1,3) inv' createSession_heap(4,6)[OF Inr] show ?thesis
        by (auto simp: tidy_def settled_def nth_append less_Suc_eq)
    qed (use assms LCreate in simp)
  next
    case (LClient i c)
    have "tidy (L\<lparr>signals := signals L @ [i]\<rparr>)" if "i \<in> set (client_refs L)"
      using assms(1) that by (auto simp: tidy_def settled_def life_inv_signal)
    then show ?thesis
      using on_use assms(1,3) LClient by (auto simp del: session_step.simps split: if_splits)
  next
    case (LCancel i)
    then show ?thesis
      using assms on_use[of L i] ref[of i] life_inv_index[OF inv, of i] by (auto simp: settled_def split: if_splits)
  next
    case (LTimer i)
    then show ?thesis
      using assms on_use[of L i] ref[of i]
      by (auto simp: settled_def simp del: session_step.simps split: if_splits)
  next
    case (LDeath i)
    then show ?thesis
      using assms on_use[of L i] ref[of i]
      by (auto simp: settled_def simp del: session_step.simps split: if_splits)
  next
    case (LNotify msg)
    then show ?thesis using assms inv' tidy_notify by auto
  next
    case LWorker
    then show ?thesis using assms tidy_worker by blast
  qed (use assms inv' in \<open>auto simp: tidy_def settled_def\<close>)
qed


text \<open>
  Closing a session is enough to lose it: \<open>close\<close> schedules a task that holds a plain pointer. If
  the framework opens its next session and gives the closed one back before the worker has come
  to that task, the worker runs it on the destroyed object.
\<close>

theorem close_outlives_session:
  assumes "mSession (service L) = Some i" "i < length (heap (service L))" "i \<in> set (client_refs L)"
    and "task_order (service L) = []" "mDevice (service L)" "worker_accepts env"
    and "length (worker_queue (heap (service L) ! i)) = 0"
  shows "life_run L [(env, LClient i CallClose), (env, LCreate user), (env, LRelease i), (env, LWorker)] = None"
proof -
  let ?svc = "on_session i (\<lambda>s. session_step s (env, Client CallClose)) (service L)"
  have svc: "task_order ?svc = [i]" "mSession ?svc = Some i" "mClosed (heap ?svc ! i)" "mDevice ?svc"
    using assms by (simp_all add: on_session_def Let_def close_def schedule_def)
  then obtain svc' where "createSession user ?svc = Inr svc'" and
    "mSession svc' = Some (length (heap (service L)))" "task_order svc' = [i]"
    by (auto simp: createSession_def no_open_session_def isClosed_def)
  with assms show ?thesis
    by (simp add: use_session_def session_alive_def del: session_step.simps)
qed

definition life_one :: fp_life where
  "life_one = \<lparr>service = svc_one, client_refs = [0], signals = []\<rparr>"

definition life_closed :: fp_life where
  "life_closed = life_one\<lparr>service := on_session 0 (\<lambda>s. session_step s (example_env 1, Client CallClose)) svc_one\<rparr>"

lemma life_one_created: "life_step (life_start svc_started) (env, LCreate 0) = Some life_one"
  by (simp add: life_start_def svc_one_created life_one_def) (simp add: svc_started_def Fingerprint_ctor_def)

lemma life_one_closed: "life_step life_one (example_env 1, LClient 0 CallClose) = Some life_closed"
  by (simp add: life_one_def life_closed_def use_session_def session_alive_def del: session_step.simps)

lemma svc_one_order [simp]: "task_order svc_one = []"
  by (simp add: svc_one_def svc_started_def Fingerprint_ctor_def)

lemma life_closed_simps [simp]:
  "client_refs life_closed = [0]" "signals life_closed = []" "mSession (service life_closed) = Some 0"
  "task_order (service life_closed) = [0]" "length (heap (service life_closed)) = Suc 0"
  "mClosed (heap (service life_closed) ! 0)" "timers (heap (service life_closed) ! 0) = []"
  "mDevice (service life_closed)"
  by (simp_all add: life_closed_def life_one_def on_session_def Let_def close_def schedule_def
      example_env_def linkToDeath_def Session_ctor_def)

theorem close_outlives_session_witness:
  "life_run life_one (map (Pair (example_env 1)) [LClient 0 CallClose, LCreate 10, LRelease 0, LWorker]) = None"
  using close_outlives_session[of life_one 0 "example_env 1" 10]
  by (simp add: life_one_def example_env_def linkToDeath_def Session_ctor_def del: life_run.simps life_step.simps)



end
