(* ===== verification/HalEvents.thy ===== *)
theory HalEvents
  imports SensorTypes
begin

text \<open>
  Event delivery and the shared wakelock of the multi-HAL proxy
  (\<^verbatim>\<open>src/hidl/sensors/HalProxy.cpp\<close>, lines 536-725 and 750-759).

  \<open>proxy_events\<close> holds the members of \<open>HalProxy\<close> these functions use; the theory on the proxy
  extends it. \<open>pw_pc\<close> and \<open>wl_pc\<close> say where the two threads of the proxy stand: each releases
  its lock around one blocking call on a message queue, so an iteration is two steps, before and
  after that call. \<open>proxy_out\<close> is what was done to the message queues and to the kernel's
  wakelock. The message queues, the clock and the limits of \<open>HalProxy.h\<close> are not part of the
  repository: what the queues answer is \<open>ev_env\<close>, the limits are \<open>proxy_limits\<close>. Times are
  nanoseconds as integers.

  \<open>ScopedWakelock\<close> is not part of the repository either. It calls the increment and the
  decrement of the reference count, so a run may contain such calls (\<open>WlIncrement\<close>,
  \<open>WlDecrement\<close>) with any arguments at any time.
\<close>

subsection \<open>State\<close>

datatype pending_pc = PwNotStarted | PwIdle | PwWriting nat nat nat | PwDone

datatype wakelock_pc = WlNotStarted | WlIdle | WlReading int | WlDone

datatype proxy_out =
    EvWrite "Event list" | EvWakeReadAndProcess | EvDrain | EvWakeEventsRead
  | WlWriteZero | WlWakeDataWritten | AcquireWakeLock | ReleaseWakeLock

record proxy_events =
  mThreadsRun :: bool
  mPendingWriteEventsQueue :: "(Event list \<times> nat) list"
  mSizePendingWriteEventsQueue :: nat
  mMostEventsObserved :: nat
  mWakelockRefCount :: nat
  mWakelockTimeoutStartTime :: int
  mWakelockTimeoutResetTime :: int
  mSensors :: "SensorInfo omap"
  event_flag :: bool
  wakelock_flag :: bool
  pw_pc :: pending_pc
  wl_pc :: wakelock_pc
  proxy_out :: "proxy_out list"

record proxy_limits =
  kWakelockTimeoutNs :: int
  kMaxSizePendingWriteEventsQueue :: nat

record ev_env =
  getTimeNow :: int
  availableToWrite :: nat
  write_ok :: bool
  writeBlocking_ok :: bool
  getQuantumCount :: nat
  readBlocking :: "u32 option"
  event_flag_created :: bool
  wakelock_flag_created :: bool

definition out_all :: "proxy_out list \<Rightarrow> 'a proxy_events_scheme \<Rightarrow> 'a proxy_events_scheme" where
  "out_all os s = s\<lparr>proxy_out := proxy_out s @ os\<rparr>"

definition msFromNs :: "int \<Rightarrow> int" where
  "msFromNs nanos = (if nanos < 0 then - ((- nanos) div 1000000) else nanos div 1000000)"

subsection \<open>The shared wakelock\<close>

definition incrementRefCountAndMaybeAcquireWakelock ::
  "ev_env \<Rightarrow> nat \<Rightarrow> 'a proxy_events_scheme \<Rightarrow> (bool \<times> int option) \<times> 'a proxy_events_scheme" where
  "incrementRefCountAndMaybeAcquireWakelock env delta s =
     (if \<not> mThreadsRun s then ((False, None), s)
      else let s = (if mWakelockRefCount s = 0 then out_all [AcquireWakeLock] s else s);
               s = s\<lparr>mWakelockTimeoutStartTime := getTimeNow env,
                     mWakelockRefCount := mWakelockRefCount s + delta\<rparr>
           in ((True, Some (mWakelockTimeoutStartTime s)), s))"

definition decrementRefCountAndMaybeReleaseWakelock ::
  "nat \<Rightarrow> int \<Rightarrow> 'a proxy_events_scheme \<Rightarrow> 'a proxy_events_scheme" where
  "decrementRefCountAndMaybeReleaseWakelock delta timeoutStart s =
     (if \<not> mThreadsRun s then s
      else let ts = (if timeoutStart = -1 then mWakelockTimeoutResetTime s else timeoutStart) in
           if mWakelockRefCount s = 0 \<or> ts < mWakelockTimeoutResetTime s then s
           else let s = s\<lparr>mWakelockRefCount := mWakelockRefCount s - min (mWakelockRefCount s) delta\<rparr>
                in if mWakelockRefCount s = 0 then out_all [ReleaseWakeLock] s else s)"

definition sharedWakelockDidTimeout ::
  "proxy_limits \<Rightarrow> ev_env \<Rightarrow> 'a proxy_events_scheme \<Rightarrow> bool \<times> int option" where
  "sharedWakelockDidTimeout L env s =
     (let duration = getTimeNow env - mWakelockTimeoutStartTime s in
      if duration > kWakelockTimeoutNs L then (True, None)
      else (False, Some (kWakelockTimeoutNs L - duration)))"

definition resetSharedWakelock :: "ev_env \<Rightarrow> 'a proxy_events_scheme \<Rightarrow> 'a proxy_events_scheme" where
  "resetSharedWakelock env s =
     (decrementRefCountAndMaybeReleaseWakelock (mWakelockRefCount s) (-1) s)
       \<lparr>mWakelockTimeoutResetTime := getTimeNow env\<rparr>"

text \<open>An iteration of \<open>handleWakelocks\<close> up to \<open>readBlocking\<close>, and from its return on.\<close>

definition handleWakelocks_begin ::
  "proxy_limits \<Rightarrow> ev_env \<Rightarrow> 'a proxy_events_scheme \<Rightarrow> 'a proxy_events_scheme" where
  "handleWakelocks_begin L env s =
     (if wl_pc s \<noteq> WlIdle then s
      else if \<not> mThreadsRun s then (resetSharedWakelock env s)\<lparr>wl_pc := WlDone\<rparr>
      else if mWakelockRefCount s = 0 then s
      else case sharedWakelockDidTimeout L env s of
        (True, _) \<Rightarrow> resetSharedWakelock env s
      | (False, None) \<Rightarrow> s
      | (False, Some timeLeft) \<Rightarrow> s\<lparr>wl_pc := WlReading timeLeft\<rparr>)"

definition handleWakelocks_end :: "ev_env \<Rightarrow> 'a proxy_events_scheme \<Rightarrow> 'a proxy_events_scheme" where
  "handleWakelocks_end env s =
     (case wl_pc s of
        WlReading timeLeft \<Rightarrow>
          (case readBlocking env of
             Some numWakeLocksProcessed \<Rightarrow>
               decrementRefCountAndMaybeReleaseWakelock (unat numWakeLocksProcessed) (-1) s
           | None \<Rightarrow> s)\<lparr>wl_pc := WlIdle\<rparr>
      | _ \<Rightarrow> s)"

subsection \<open>Writing events\<close>

text \<open>\<open>mSensors[h]\<close> inserts a default entry when there is none; \<open>events[i]\<close> is used with \<open>i < n\<close>.\<close>

fun countNumWakeupEvents ::
  "sensor_consts \<Rightarrow> Event list \<Rightarrow> nat \<Rightarrow> 'a proxy_events_scheme \<Rightarrow> nat \<times> 'a proxy_events_scheme" where
  "countNumWakeupEvents K (e # es) (Suc n) s =
     (let (info, m) = om_index SensorInfo_zero (ev_handle e) (mSensors s);
          (c, s) = countNumWakeupEvents K es n (s\<lparr>mSensors := m\<rparr>)
      in (if has_flag (flags info) (WAKE_UP K) then c + 1 else c, s))"
| "countNumWakeupEvents K _ _ s = (0, s)"

definition num_to_write :: "ev_env \<Rightarrow> Event list \<Rightarrow> 'a proxy_events_scheme \<Rightarrow> nat" where
  "num_to_write env events s =
     (if mPendingWriteEventsQueue s = [] then
        (let numToWrite = min (length events) (availableToWrite env) in
         if numToWrite > 0 then (if write_ok env then numToWrite else 0) else numToWrite)
      else 0)"

definition postEventsToMessageQueue ::
  "proxy_limits \<Rightarrow> ev_env \<Rightarrow> Event list \<Rightarrow> nat \<Rightarrow> bool \<Rightarrow> 'a proxy_events_scheme \<Rightarrow> 'a proxy_events_scheme" where
  "postEventsToMessageQueue L env events numWakeupEvents wakelock_isLocked s =
     (let s = (if wakelock_isLocked
               then snd (incrementRefCountAndMaybeAcquireWakelock env numWakeupEvents s) else s);
          numToWrite = num_to_write env events s;
          s = (if numToWrite > 0
               then out_all [EvWrite (take numToWrite events), EvWakeReadAndProcess] s else s);
          numLeft = length events - numToWrite
      in if numToWrite < length events \<and>
            mSizePendingWriteEventsQueue s + numLeft \<le> kMaxSizePendingWriteEventsQueue L
         then s\<lparr>mPendingWriteEventsQueue :=
                  mPendingWriteEventsQueue s @ [(drop numToWrite events, numWakeupEvents)],
                mSizePendingWriteEventsQueue := mSizePendingWriteEventsQueue s + numLeft,
                mMostEventsObserved :=
                  max (mMostEventsObserved s) (mSizePendingWriteEventsQueue s + numLeft)\<rparr>
         else s)"

text \<open>An iteration of \<open>handlePendingWrites\<close> up to \<open>writeBlocking\<close>, and from its return on.\<close>

definition handlePendingWrites_begin :: "ev_env \<Rightarrow> 'a proxy_events_scheme \<Rightarrow> 'a proxy_events_scheme" where
  "handlePendingWrites_begin env s =
     (if pw_pc s \<noteq> PwIdle then s
      else if \<not> mThreadsRun s then s\<lparr>pw_pc := PwDone\<rparr>
      else case mPendingWriteEventsQueue s of
        [] \<Rightarrow> s
      | (pendingWriteEvents, numWakeupEvents) # _ \<Rightarrow>
          let eventQueueSize = getQuantumCount env;
              numToWrite = min (length pendingWriteEvents) eventQueueSize
          in s\<lparr>pw_pc := PwWriting numToWrite numWakeupEvents eventQueueSize\<rparr>)"

definition drop_decrement ::
  "sensor_consts \<Rightarrow> Event list \<Rightarrow> nat \<Rightarrow> nat \<Rightarrow> 'a proxy_events_scheme \<Rightarrow> 'a proxy_events_scheme" where
  "drop_decrement K pendingWriteEvents numWakeupEvents eventQueueSize s =
     (if numWakeupEvents > 0 then
        (if length pendingWriteEvents > eventQueueSize then
           (let (n, s) = countNumWakeupEvents K pendingWriteEvents eventQueueSize s
            in decrementRefCountAndMaybeReleaseWakelock n (-1) s)
         else decrementRefCountAndMaybeReleaseWakelock numWakeupEvents (-1) s)
      else s)"

definition handlePendingWrites_end ::
  "sensor_consts \<Rightarrow> ev_env \<Rightarrow> 'a proxy_events_scheme \<Rightarrow> 'a proxy_events_scheme" where
  "handlePendingWrites_end K env s =
     (case (pw_pc s, mPendingWriteEventsQueue s) of
        (PwWriting numToWrite numWakeupEvents eventQueueSize, (events, w) # rest) \<Rightarrow>
          (let s = (if writeBlocking_ok env
                    then out_all [EvWrite (take numToWrite events), EvWakeReadAndProcess] s
                    else drop_decrement K events numWakeupEvents eventQueueSize s);
               s = s\<lparr>mSizePendingWriteEventsQueue := mSizePendingWriteEventsQueue s - numToWrite\<rparr>
           in s\<lparr>mPendingWriteEventsQueue :=
                  (if length events > eventQueueSize then (drop eventQueueSize events, w) # rest
                   else rest),
                pw_pc := PwIdle\<rparr>)
      | _ \<Rightarrow> s)"

subsection \<open>Stopping the threads\<close>

text \<open>
  \<open>event_flag\<close> and \<open>wakelock_flag\<close>: the event flags exist; the queues they belong to then exist
  too.
\<close>

text \<open>Everything \<open>stopThreads\<close> does before it joins the threads; \<open>joined\<close> is when it returns.\<close>

definition stopThreads :: "'a proxy_events_scheme \<Rightarrow> 'a proxy_events_scheme" where
  "stopThreads s =
     (let s = s\<lparr>mThreadsRun := False\<rparr>;
          s = (if event_flag s then out_all [EvDrain, EvWakeEventsRead] s else s)
      in if wakelock_flag s then out_all [WlWriteZero, WlWakeDataWritten] s else s)"

definition joined :: "'a proxy_events_scheme \<Rightarrow> bool" where
  "joined s \<longleftrightarrow> pw_pc s \<in> {PwNotStarted, PwDone} \<and> wl_pc s \<in> {WlNotStarted, WlDone}"

definition startThreads :: "'a proxy_events_scheme \<Rightarrow> 'a proxy_events_scheme" where
  "startThreads s = s\<lparr>mThreadsRun := True, pw_pc := PwIdle, wl_pc := WlIdle\<rparr>"

definition makeFlags :: "ev_env \<Rightarrow> 'a proxy_events_scheme \<Rightarrow> 'a proxy_events_scheme" where
  "makeFlags env s =
     s\<lparr>event_flag := event_flag_created env, wakelock_flag := wakelock_flag_created env\<rparr>"

definition clearPending :: "'a proxy_events_scheme \<Rightarrow> 'a proxy_events_scheme" where
  "clearPending s = s\<lparr>mPendingWriteEventsQueue := [], mSizePendingWriteEventsQueue := 0\<rparr>"

subsection \<open>Interleavings\<close>

datatype ev_op =
    Post "Event list" nat bool | WlIncrement nat | WlDecrement nat int
  | PwBegin | PwEnd | WlBegin | WlEnd | Stop | Restart

text \<open>\<open>Restart\<close> is the part of \<open>initializeCommon\<close> on these members, once the threads are joined.\<close>

fun ev_step ::
  "proxy_limits \<Rightarrow> sensor_consts \<Rightarrow> 'a proxy_events_scheme \<Rightarrow> ev_env \<times> ev_op \<Rightarrow> 'a proxy_events_scheme" where
  "ev_step L K s (env, Post evs n locked) = postEventsToMessageQueue L env evs n locked s"
| "ev_step L K s (env, WlIncrement d) = snd (incrementRefCountAndMaybeAcquireWakelock env d s)"
| "ev_step L K s (env, WlDecrement d t) = decrementRefCountAndMaybeReleaseWakelock d t s"
| "ev_step L K s (env, PwBegin) = handlePendingWrites_begin env s"
| "ev_step L K s (env, PwEnd) = handlePendingWrites_end K env s"
| "ev_step L K s (env, WlBegin) = handleWakelocks_begin L env s"
| "ev_step L K s (env, WlEnd) = handleWakelocks_end env s"
| "ev_step L K s (env, Stop) = stopThreads s"
| "ev_step L K s (env, Restart) =
     (if joined s \<and> \<not> mThreadsRun s
      then startThreads (makeFlags env (clearPending (resetSharedWakelock env s))) else s)"

subsection \<open>Accounting of the pending queue\<close>

definition pending_total :: "(Event list \<times> nat) list \<Rightarrow> nat" where
  "pending_total q = sum_list (map (\<lambda>p. length (fst p)) q)"

fun writing_ok :: "pending_pc \<Rightarrow> (Event list \<times> nat) list \<Rightarrow> bool" where
  "writing_ok (PwWriting n w k) q =
     (q \<noteq> [] \<and> n = min (length (fst (hd q))) k \<and> w = snd (hd q))"
| "writing_ok _ q = True"

definition pending_inv :: "proxy_limits \<Rightarrow> 'a proxy_events_scheme \<Rightarrow> bool" where
  "pending_inv L s \<longleftrightarrow>
     mSizePendingWriteEventsQueue s = pending_total (mPendingWriteEventsQueue s) \<and>
     mSizePendingWriteEventsQueue s \<le> kMaxSizePendingWriteEventsQueue L \<and>
     list_all (\<lambda>p. fst p \<noteq> []) (mPendingWriteEventsQueue s) \<and>
     writing_ok (pw_pc s) (mPendingWriteEventsQueue s)"

lemma out_all_simps [simp]:
  "mThreadsRun (out_all os s) = mThreadsRun s"
  "mPendingWriteEventsQueue (out_all os s) = mPendingWriteEventsQueue s"
  "mSizePendingWriteEventsQueue (out_all os s) = mSizePendingWriteEventsQueue s"
  "mMostEventsObserved (out_all os s) = mMostEventsObserved s"
  "mWakelockRefCount (out_all os s) = mWakelockRefCount s"
  "mWakelockTimeoutStartTime (out_all os s) = mWakelockTimeoutStartTime s"
  "mWakelockTimeoutResetTime (out_all os s) = mWakelockTimeoutResetTime s"
  "mSensors (out_all os s) = mSensors s" "pw_pc (out_all os s) = pw_pc s"
  "wl_pc (out_all os s) = wl_pc s" "proxy_out (out_all os s) = proxy_out s @ os"
  "event_flag (out_all os s) = event_flag s" "wakelock_flag (out_all os s) = wakelock_flag s"
  by (simp_all add: out_all_def)

text \<open>The events written to the framework's queue so far, in order.\<close>

fun written :: "proxy_out \<Rightarrow> Event list" where
  "written (EvWrite evs) = evs"
| "written _ = []"

definition delivered :: "'a proxy_events_scheme \<Rightarrow> Event list" where
  "delivered s = concat (map written (proxy_out s))"

lemma delivered_out [simp]: "delivered (out_all os s) = delivered s @ concat (map written os)"
  by (simp add: delivered_def)

lemma delivered_frame [simp]:
  "delivered (s\<lparr>mPendingWriteEventsQueue := q\<rparr>) = delivered s"
  "delivered (s\<lparr>mSizePendingWriteEventsQueue := n\<rparr>) = delivered s"
  "delivered (s\<lparr>mMostEventsObserved := n\<rparr>) = delivered s"
  "delivered (s\<lparr>mThreadsRun := b\<rparr>) = delivered s"
  "delivered (s\<lparr>pw_pc := c\<rparr>) = delivered s" "delivered (s\<lparr>wl_pc := d\<rparr>) = delivered s"
  "delivered (s\<lparr>event_flag := b\<rparr>) = delivered s"
  "delivered (s\<lparr>wakelock_flag := b\<rparr>) = delivered s"
  by (simp_all add: delivered_def)

text \<open>What the wakelock functions and the counting leave alone.\<close>

definition same_pending :: "'a proxy_events_scheme \<Rightarrow> 'a proxy_events_scheme \<Rightarrow> bool" where
  "same_pending s' s \<longleftrightarrow> mPendingWriteEventsQueue s' = mPendingWriteEventsQueue s \<and>
     mSizePendingWriteEventsQueue s' = mSizePendingWriteEventsQueue s \<and>
     pw_pc s' = pw_pc s \<and> mThreadsRun s' = mThreadsRun s \<and> delivered s' = delivered s"

lemma increment_pending:
  "same_pending (snd (incrementRefCountAndMaybeAcquireWakelock env d s)) s"
  by (simp add: same_pending_def incrementRefCountAndMaybeAcquireWakelock_def delivered_def Let_def)

lemma decrement_pending: "same_pending (decrementRefCountAndMaybeReleaseWakelock d t s) s"
  by (simp add: same_pending_def decrementRefCountAndMaybeReleaseWakelock_def delivered_def Let_def)

lemma reset_pending: "same_pending (resetSharedWakelock env s) s"
  using decrement_pending[of "mWakelockRefCount s" "-1" s]
  by (simp add: same_pending_def resetSharedWakelock_def delivered_def)

lemma count_pending: "same_pending (snd (countNumWakeupEvents K es n s)) s"
  by (induction K es n s rule: countNumWakeupEvents.induct)
    (auto simp: same_pending_def delivered_def Let_def split: prod.splits)

lemma same_pending_trans: "same_pending a b \<Longrightarrow> same_pending b c \<Longrightarrow> same_pending a c"
  by (simp add: same_pending_def)

lemma drop_decrement_pending: "same_pending (drop_decrement K es w k s) s"
  using count_pending[of K es k s] decrement_pending same_pending_trans
  by (fastforce simp: drop_decrement_def same_pending_def[of s s] split: prod.splits)

lemma wakelock_threads_pending:
  "same_pending (handleWakelocks_begin L env s) s" "same_pending (handleWakelocks_end env s) s"
  using reset_pending[of env s] decrement_pending[of _ "-1" s]
  by (auto simp: handleWakelocks_begin_def handleWakelocks_end_def same_pending_def delivered_def
      split: prod.splits option.splits bool.splits wakelock_pc.splits)

lemma pending_inv_same: "same_pending s' s \<Longrightarrow> pending_inv L s' = pending_inv L s"
  by (simp add: same_pending_def pending_inv_def)

lemmas pending_frames =
  increment_pending[THEN pending_inv_same] decrement_pending[THEN pending_inv_same]
  wakelock_threads_pending(1)[THEN pending_inv_same] wakelock_threads_pending(2)[THEN pending_inv_same]

lemma post_pending:
  "pending_inv L s \<Longrightarrow> pending_inv L (postEventsToMessageQueue L env evs n locked s)"
proof -
  assume inv: "pending_inv L s"
  let ?s = "if locked then snd (incrementRefCountAndMaybeAcquireWakelock env n s) else s"
  have "pending_inv L ?s"
    using inv pending_inv_same[OF increment_pending[of env n s], of L] by simp
  moreover have "writing_ok c (q @ [x])" if "writing_ok c q" for c q and x :: "Event list \<times> nat"
    using that by (cases c) auto
  ultimately show ?thesis
    by (auto simp: postEventsToMessageQueue_def pending_inv_def pending_total_def Let_def)
qed

lemma pw_begin_pending: "pending_inv L s \<Longrightarrow> pending_inv L (handlePendingWrites_begin env s)"
  by (auto simp: handlePendingWrites_begin_def pending_inv_def Let_def split: list.splits)

lemma pw_end_pending: "pending_inv L s \<Longrightarrow> pending_inv L (handlePendingWrites_end K env s)"
proof (cases "pw_pc s")
  case (PwWriting n w k)
  assume inv: "pending_inv L s"
  then obtain evs rest where q: "mPendingWriteEventsQueue s = (evs, w) # rest"
    and n: "n = min (length evs) k"
    using PwWriting by (cases "mPendingWriteEventsQueue s") (auto simp: pending_inv_def)
  show ?thesis
    using inv drop_decrement_pending[of K evs w k s]
    by (auto simp: handlePendingWrites_end_def PwWriting q n Let_def pending_inv_def
        pending_total_def same_pending_def)
qed (simp_all add: handlePendingWrites_end_def)

lemma ev_step_pending: "pending_inv L s \<Longrightarrow> pending_inv L (ev_step L K s ev)"
proof (cases "(L, K, s, ev)" rule: ev_step.cases)
  case (8 L' K' s' env)
  assume "pending_inv L s"
  with 8 show ?thesis by (simp add: stopThreads_def pending_inv_def Let_def)
next
  case (9 L' K' s' env)
  assume "pending_inv L s"
  with 9 show ?thesis
    by (auto simp: startThreads_def makeFlags_def clearPending_def pending_inv_def pending_total_def)
qed (simp_all add: post_pending pw_begin_pending pw_end_pending pending_frames)

interpretation event_runs: op_system "ev_step L K" "pending_inv L" for L K
  by unfold_locales (rule ev_step_pending)

subsection \<open>The event stream\<close>

text \<open>
  The abstract view: one sequence of events, those delivered followed by those that wait. A post
  appends to it what is accepted; moving waiting events to the framework does not change it; a
  blocking write that times out removes the events it tried to write; a restart forgets the
  waiting ones.
\<close>

definition stream :: "'a proxy_events_scheme \<Rightarrow> Event list" where
  "stream s = delivered s @ concat (map fst (mPendingWriteEventsQueue s))"

definition accepted_events ::
  "proxy_limits \<Rightarrow> ev_env \<Rightarrow> Event list \<Rightarrow> 'a proxy_events_scheme \<Rightarrow> Event list" where
  "accepted_events L env evs s =
     (let n = num_to_write env evs s in
      if mSizePendingWriteEventsQueue s + (length evs - n) \<le> kMaxSizePendingWriteEventsQueue L
      then evs else take n evs)"

fun stream_spec :: "proxy_limits \<Rightarrow> 'a proxy_events_scheme \<Rightarrow> ev_env \<times> ev_op \<Rightarrow> Event list" where
  "stream_spec L s (env, Post evs n locked) = stream s @ accepted_events L env evs s"
| "stream_spec L s (env, PwEnd) =
     (case pw_pc s of
        PwWriting n w k \<Rightarrow>
          if writeBlocking_ok env then stream s
          else delivered s @ drop n (concat (map fst (mPendingWriteEventsQueue s)))
      | _ \<Rightarrow> stream s)"
| "stream_spec L s (env, Restart) =
     (if joined s \<and> \<not> mThreadsRun s then delivered s else stream s)"
| "stream_spec L s (env, _) = stream s"

lemma stream_same: "same_pending s' s \<Longrightarrow> stream s' = stream s"
  by (simp add: same_pending_def stream_def)

lemma stream_post:
  assumes "pending_inv L s"
  shows "stream (postEventsToMessageQueue L env evs n locked s) = stream s @ accepted_events L env evs s"
proof -
  define t where "t = (if locked then snd (incrementRefCountAndMaybeAcquireWakelock env n s) else s)"
  have sp: "same_pending t s"
    using increment_pending[of env n s] by (simp add: t_def same_pending_def)
  define k where "k = num_to_write env evs s"
  have k: "num_to_write env evs t = k"
    using sp by (simp add: k_def num_to_write_def same_pending_def)
  have "k \<le> length evs" "k > 0 \<Longrightarrow> mPendingWriteEventsQueue s = []"
    by (auto simp: k_def num_to_write_def Let_def split: if_splits)
  moreover have "mPendingWriteEventsQueue t = mPendingWriteEventsQueue s"
    "mSizePendingWriteEventsQueue t = mSizePendingWriteEventsQueue s" "delivered t = delivered s"
    using sp by (simp_all add: same_pending_def)
  ultimately show ?thesis
    using assms
    by (auto simp: postEventsToMessageQueue_def t_def[symmetric] k Let_def stream_def
        accepted_events_def k_def[symmetric] pending_inv_def)
qed

lemma stream_pw_end:
  assumes "pending_inv L s"
  shows "stream (handlePendingWrites_end K env s) = stream_spec L s (env, PwEnd)"
proof (cases "pw_pc s")
  case (PwWriting n w k)
  then obtain evs rest where q: "mPendingWriteEventsQueue s = (evs, w) # rest"
    and n: "n = min (length evs) k"
    using assms by (cases "mPendingWriteEventsQueue s") (auto simp: pending_inv_def)
  have "delivered (drop_decrement K evs w k s) = delivered s"
    using drop_decrement_pending[of K evs w k s] by (simp add: same_pending_def)
  then show ?thesis
    by (simp add: handlePendingWrites_end_def PwWriting q n Let_def stream_def)
qed (simp_all add: handlePendingWrites_end_def)

lemmas stream_frames =
  increment_pending[THEN stream_same] decrement_pending[THEN stream_same]
  wakelock_threads_pending(1)[THEN stream_same] wakelock_threads_pending(2)[THEN stream_same]

lemma ev_step_stream:
  assumes "pending_inv L s"
  shows "stream (ev_step L K s ev) = stream_spec L s ev"
proof (cases "(L, K, s, ev)" rule: ev_step.cases)
  case (4 L' K' s' env)
  then show ?thesis
    by (simp add: handlePendingWrites_begin_def stream_def Let_def split: list.splits)
next
  case (8 L' K' s' env)
  then show ?thesis by (simp add: stopThreads_def stream_def Let_def)
next
  case (9 L' K' s' env)
  then show ?thesis
    using reset_pending[of env s]
    by (simp add: startThreads_def makeFlags_def clearPending_def stream_def same_pending_def)
qed (use assms in \<open>simp_all add: stream_post stream_pw_end stream_frames\<close>)

text \<open>
  C3. No event overtakes another and none appears twice: in every step of any interleaving the
  proxy implements the abstract sequence of events above. Posts append to it (an over-full
  queue takes only what fits the framework's queue at once), the writer thread moves its front
  to the framework without changing it, and only a timed-out blocking write or a restart removes
  events.
\<close>

theorem event_stream_refines:
  assumes "pending_inv L s"
  shows "stream (ev_step L K s ev) = stream_spec L s ev"
  by (rule ev_step_stream[OF assms])

definition idle_proxy :: proxy_events where
  "idle_proxy = \<lparr>mThreadsRun = True, mPendingWriteEventsQueue = [], mSizePendingWriteEventsQueue = 0,
     mMostEventsObserved = 0, mWakelockRefCount = 0, mWakelockTimeoutStartTime = 0,
     mWakelockTimeoutResetTime = 0, mSensors = [], event_flag = True, wakelock_flag = True,
     pw_pc = PwIdle, wl_pc = WlIdle, proxy_out = []\<rparr>"

definition limits_example :: proxy_limits where
  "limits_example = \<lparr>kWakelockTimeoutNs = 1000000000, kMaxSizePendingWriteEventsQueue = 2\<rparr>"

definition ev_example :: "int \<Rightarrow> nat \<Rightarrow> ev_env" where
  "ev_example now room = \<lparr>getTimeNow = now, availableToWrite = room, write_ok = True,
     writeBlocking_ok = True, getQuantumCount = 2, readBlocking = None, event_flag_created = True,
     wakelock_flag_created = True\<rparr>"

definition example_event :: "i32 \<Rightarrow> Event" where
  "example_event h = \<lparr>ev_handle = h, ev_type = 1, timestamp = 0, u = Floats []\<rparr>"

lemma idle_proxy_inv: "pending_inv limits_example idle_proxy"
  by (simp add: pending_inv_def idle_proxy_def pending_total_def)

theorem event_stream_refines_witness:
  "stream (ev_step limits_example android_consts idle_proxy
     (ev_example 5 1, Post [example_event 1, example_event 2, example_event 3] 0 False)) = [example_event 1, example_event 2, example_event 3]"
  using event_stream_refines[OF idle_proxy_inv, of android_consts
      "(ev_example 5 1, Post [example_event 1, example_event 2, example_event 3] 0 False)"]
  by (simp add: accepted_events_def num_to_write_def idle_proxy_def ev_example_def limits_example_def
      stream_def delivered_def)

text \<open>
  The size of the pending queue is right: after any interleaving the counter
  \<open>mSizePendingWriteEventsQueue\<close> equals the number of events that wait, never exceeds the limit,
  and never goes below zero when the writer subtracts what it wrote; no empty batch waits.
\<close>

theorem pending_queue_accounting:
  assumes "pending_inv L s" and "s' = foldl (ev_step L K) s ops"
  shows "mSizePendingWriteEventsQueue s' = length (concat (map fst (mPendingWriteEventsQueue s'))) \<and>
    mSizePendingWriteEventsQueue s' \<le> kMaxSizePendingWriteEventsQueue L \<and>
    (\<forall>n w k. pw_pc s' = PwWriting n w k \<longrightarrow> n \<le> mSizePendingWriteEventsQueue s') \<and>
    (\<forall>(evs, w) \<in> set (mPendingWriteEventsQueue s'). evs \<noteq> [])"
proof -
  have inv: "pending_inv L s'"
    unfolding assms(2) by (rule event_runs.run_inv[OF assms(1)])
  have "n \<le> mSizePendingWriteEventsQueue s'" if "pw_pc s' = PwWriting n w k" for n w k
    using inv that
    by (cases "mPendingWriteEventsQueue s'") (auto simp: pending_inv_def pending_total_def)
  with inv show ?thesis
    by (auto simp: pending_inv_def pending_total_def length_concat o_def list_all_iff)
qed

theorem pending_queue_accounting_witness:
  "mSizePendingWriteEventsQueue (foldl (ev_step limits_example android_consts) idle_proxy
     [(ev_example 5 1, Post [example_event 1, example_event 2, example_event 3] 0 False), (ev_example 6 0, PwBegin),
      (ev_example 6 0, Post [example_event 4] 1 True)]) \<le> 2"
  using pending_queue_accounting[OF idle_proxy_inv refl, of android_consts
      "[(ev_example 5 1, Post [example_event 1, example_event 2, example_event 3] 0 False), (ev_example 6 0, PwBegin),
        (ev_example 6 0, Post [example_event 4] 1 True)]"]
  by (simp add: limits_example_def del: foldl_Cons)

subsection \<open>The wakelock against its count\<close>

definition held :: "proxy_out list \<Rightarrow> bool" where
  "held os = foldl (\<lambda>b x. if x = AcquireWakeLock then True else if x = ReleaseWakeLock then False else b)
     False os"

lemma held_append [simp]:
  "held (os @ [x]) = (if x = AcquireWakeLock then True else if x = ReleaseWakeLock then False else held os)"
  "held (os @ [x, y]) = (if y = AcquireWakeLock then True else if y = ReleaseWakeLock then False
     else if x = AcquireWakeLock then True else if x = ReleaseWakeLock then False else held os)"
  by (simp_all add: held_def)

text \<open>\<open>zero_increment\<close>: a step that asks for the wakelock without counting anything.\<close>

fun zero_increment :: "ev_op \<Rightarrow> bool" where
  "zero_increment (Post evs n locked) = (locked \<and> n = 0)"
| "zero_increment (WlIncrement d) = (d = 0)"
| "zero_increment _ = False"

text \<open>A counted wakelock is held (\<open>strict\<close>: and an uncounted one is not).\<close>

definition lock_inv :: "bool \<Rightarrow> 'a proxy_events_scheme \<Rightarrow> bool" where
  "lock_inv strict s \<longleftrightarrow> (mWakelockRefCount s > 0 \<longrightarrow> held (proxy_out s)) \<and>
     (strict \<longrightarrow> held (proxy_out s) \<longrightarrow> mWakelockRefCount s > 0)"

lemma lock_frame [simp]:
  "lock_inv b (s\<lparr>mPendingWriteEventsQueue := q\<rparr>) = lock_inv b s"
  "lock_inv b (s\<lparr>mSizePendingWriteEventsQueue := n\<rparr>) = lock_inv b s"
  "lock_inv b (s\<lparr>mMostEventsObserved := n\<rparr>) = lock_inv b s"
  "lock_inv b (s\<lparr>mSensors := m\<rparr>) = lock_inv b s" "lock_inv b (s\<lparr>mThreadsRun := r\<rparr>) = lock_inv b s"
  "lock_inv b (s\<lparr>pw_pc := c\<rparr>) = lock_inv b s" "lock_inv b (s\<lparr>wl_pc := d\<rparr>) = lock_inv b s"
  "lock_inv b (s\<lparr>event_flag := r\<rparr>) = lock_inv b s" "lock_inv b (s\<lparr>wakelock_flag := r\<rparr>) = lock_inv b s"
  "lock_inv b (s\<lparr>mWakelockTimeoutResetTime := t\<rparr>) = lock_inv b s"
  by (simp_all add: lock_inv_def)

lemma lock_out [simp]:
  "x \<notin> {AcquireWakeLock, ReleaseWakeLock} \<Longrightarrow> y \<notin> {AcquireWakeLock, ReleaseWakeLock} \<Longrightarrow>
   lock_inv b (out_all [x, y] s) = lock_inv b s"
  by (simp add: lock_inv_def)

lemma lock_increment:
  "lock_inv b s \<Longrightarrow> b \<longrightarrow> d \<noteq> 0 \<Longrightarrow>
   lock_inv b (snd (incrementRefCountAndMaybeAcquireWakelock env d s))"
  by (auto simp: lock_inv_def incrementRefCountAndMaybeAcquireWakelock_def Let_def)

lemma lock_decrement:
  "lock_inv b s \<Longrightarrow> lock_inv b (decrementRefCountAndMaybeReleaseWakelock d t s)"
  by (auto simp: lock_inv_def decrementRefCountAndMaybeReleaseWakelock_def Let_def)

lemma lock_reset: "lock_inv b s \<Longrightarrow> lock_inv b (resetSharedWakelock env s)"
  by (simp add: resetSharedWakelock_def lock_decrement)

lemma lock_count: "lock_inv b (snd (countNumWakeupEvents K es n s)) = lock_inv b s"
  by (induction K es n s rule: countNumWakeupEvents.induct) (auto simp: Let_def split: prod.splits)

lemma lock_drop: "lock_inv b s \<Longrightarrow> lock_inv b (drop_decrement K es w k s)"
  using lock_count[of b K es k s] by (auto simp: drop_decrement_def lock_decrement split: prod.splits)

lemma lock_post:
  "lock_inv b s \<Longrightarrow> b \<longrightarrow> \<not> zero_increment (Post evs n locked) \<Longrightarrow>
   lock_inv b (postEventsToMessageQueue L env evs n locked s)"
  using lock_increment[of b s n env] by (auto simp: postEventsToMessageQueue_def Let_def)

lemma lock_pw_begin: "lock_inv b (handlePendingWrites_begin env s) = lock_inv b s"
  by (simp add: handlePendingWrites_begin_def Let_def split: list.splits)

lemma lock_pw_end:
  assumes "lock_inv b s"
  shows "lock_inv b (handlePendingWrites_end K env s)"
proof (cases "pw_pc s")
  case (PwWriting n w k)
  with assms show ?thesis
    by (cases "mPendingWriteEventsQueue s")
      (auto simp: handlePendingWrites_end_def lock_drop Let_def)
qed (use assms in \<open>simp_all add: handlePendingWrites_end_def\<close>)

lemma lock_wl_begin: "lock_inv b s \<Longrightarrow> lock_inv b (handleWakelocks_begin L env s)"
  by (simp add: handleWakelocks_begin_def lock_reset split: prod.splits bool.splits option.splits)

lemma lock_wl_end: "lock_inv b s \<Longrightarrow> lock_inv b (handleWakelocks_end env s)"
  by (simp add: handleWakelocks_end_def lock_decrement split: wakelock_pc.splits option.splits)

lemma lock_stop: "lock_inv b (stopThreads s) = lock_inv b s"
  by (simp add: stopThreads_def Let_def)

lemma lock_step:
  "lock_inv b s \<Longrightarrow> b \<longrightarrow> \<not> zero_increment (snd ev) \<Longrightarrow> lock_inv b (ev_step L K s ev)"
  by (cases "(L, K, s, ev)" rule: ev_step.cases)
    (simp_all add: lock_increment lock_decrement lock_reset lock_post lock_pw_begin lock_pw_end
      lock_wl_begin lock_wl_end lock_stop startThreads_def makeFlags_def clearPending_def
      del: zero_increment.simps(1))

lemma lock_run:
  "lock_inv b s \<Longrightarrow> \<forall>ev \<in> set ops. b \<longrightarrow> \<not> zero_increment (snd ev) \<Longrightarrow>
   lock_inv b (foldl (ev_step L K) s ops)"
  by (induction ops arbitrary: s) (simp_all add: lock_step)

text \<open>
  C10. The device cannot fall asleep over counted wake-up events: through any interleaving of
  posts, scoped wakelocks, the two threads, stops and restarts, the kernel wakelock is held
  whenever the reference count is positive. If no step asks for the wakelock with a count of
  zero, it is held only then.
\<close>

theorem wakelock_follows_count:
  assumes "held (proxy_out s) \<longleftrightarrow> mWakelockRefCount s > 0" and "s' = foldl (ev_step L K) s ops"
  shows "(mWakelockRefCount s' > 0 \<longrightarrow> held (proxy_out s')) \<and>
    ((\<forall>ev \<in> set ops. \<not> zero_increment (snd ev)) \<longrightarrow>
       (held (proxy_out s') \<longleftrightarrow> mWakelockRefCount s' > 0))"
proof -
  have "lock_inv False s" "lock_inv True s"
    using assms(1) by (auto simp: lock_inv_def)
  then show ?thesis
    using lock_run[of False s ops L K] lock_run[of True s ops L K] unfolding assms(2)
    by (auto simp: lock_inv_def)
qed

theorem wakelock_follows_count_witness:
  "held (proxy_out (foldl (ev_step limits_example android_consts) idle_proxy
     [(ev_example 5 1, WlIncrement 1), (ev_example 6 1, Post [example_event 1] 1 True),
      (ev_example 7 0, WlDecrement 1 5)]))"
proof -
  let ?ops = "[(ev_example 5 1, WlIncrement 1), (ev_example 6 1, Post [example_event 1] 1 True),
      (ev_example 7 0, WlDecrement 1 5)]"
  have "mWakelockRefCount (foldl (ev_step limits_example android_consts) idle_proxy ?ops) > 0"
    by (simp add: idle_proxy_def incrementRefCountAndMaybeAcquireWakelock_def
        postEventsToMessageQueue_def num_to_write_def decrementRefCountAndMaybeReleaseWakelock_def
        out_all_def Let_def ev_example_def)
  then show ?thesis
    using wakelock_follows_count[OF _ refl, of idle_proxy limits_example android_consts ?ops]
    by (simp add: idle_proxy_def held_def del: foldl_Cons)
qed

text \<open>
  C39. The wakelock cannot be kept for ever by lost acknowledgements: once the timeout has passed
  since the last increment, the next evaluation of the wakelock thread's loop takes the count to
  zero and releases the wakelock, and a scoped wakelock taken before this reset no longer counts
  when it ends, whatever has happened since.
\<close>

theorem wakelock_timeout_releases:
  assumes "mThreadsRun s" "wl_pc s = WlIdle" "mWakelockRefCount s > 0"
    and "getTimeNow env - mWakelockTimeoutStartTime s > kWakelockTimeoutNs L"
    and "s' = ev_step L K s (env, WlBegin)"
  shows "mWakelockRefCount s' = 0 \<and> \<not> held (proxy_out s') \<and> wl_pc s' = WlIdle \<and>
    (\<forall>s'' d t env'. mWakelockTimeoutResetTime s'' = mWakelockTimeoutResetTime s' \<longrightarrow>
       t \<noteq> -1 \<longrightarrow> t < getTimeNow env \<longrightarrow> ev_step L K s'' (env', WlDecrement d t) = s'')"
  using assms
  by (auto simp: handleWakelocks_begin_def sharedWakelockDidTimeout_def resetSharedWakelock_def
      decrementRefCountAndMaybeReleaseWakelock_def Let_def)

definition locked_proxy :: proxy_events where
  "locked_proxy = ev_step limits_example android_consts idle_proxy
     (ev_example 10 4, Post [example_event 1] 1 True)"

theorem wakelock_timeout_releases_witness:
  "mWakelockRefCount (ev_step limits_example android_consts locked_proxy
     (ev_example 1000000011 4, WlBegin)) = 0"
proof -
  have "mThreadsRun locked_proxy" "wl_pc locked_proxy = WlIdle" "mWakelockRefCount locked_proxy > 0"
    "getTimeNow (ev_example 1000000011 4) - mWakelockTimeoutStartTime locked_proxy >
       kWakelockTimeoutNs limits_example"
    by (simp_all add: locked_proxy_def idle_proxy_def postEventsToMessageQueue_def num_to_write_def
        incrementRefCountAndMaybeAcquireWakelock_def ev_example_def limits_example_def Let_def)
  from wakelock_timeout_releases[OF this refl, of android_consts] show ?thesis by blast
qed

text \<open>While the threads are stopped no step touches the wakelock.\<close>

definition same_lock :: "'a proxy_events_scheme \<Rightarrow> 'a proxy_events_scheme \<Rightarrow> bool" where
  "same_lock s' s \<longleftrightarrow> mWakelockRefCount s' = mWakelockRefCount s \<and>
     held (proxy_out s') = held (proxy_out s) \<and> \<not> mThreadsRun s'"

lemma stopped_decrement: "\<not> mThreadsRun s \<Longrightarrow> decrementRefCountAndMaybeReleaseWakelock d t s = s"
  by (simp add: decrementRefCountAndMaybeReleaseWakelock_def)

lemma stopped_increment:
  "\<not> mThreadsRun s \<Longrightarrow> snd (incrementRefCountAndMaybeAcquireWakelock env d s) = s"
  by (simp add: incrementRefCountAndMaybeAcquireWakelock_def)

lemma countNumWakeupEvents_sensors:
  "\<exists>m. snd (countNumWakeupEvents K es n s) = s\<lparr>mSensors := m\<rparr>"
proof (induction es arbitrary: n s)
  case (Cons e es)
  obtain info m where "om_index SensorInfo_zero (ev_handle e) (mSensors s) = (info, m)"
    by fastforce
  then show ?case
    using Cons.IH[of "n - 1" "s\<lparr>mSensors := m\<rparr>"]
    by (cases n) (auto split: prod.splits intro: exI[of _ "mSensors s"])
next
  case Nil
  have "s = s\<lparr>mSensors := mSensors s\<rparr>" by simp
  then show ?case by (metis countNumWakeupEvents.simps(2) snd_conv)
qed

lemma decrement_wl_pc [simp]: "wl_pc (decrementRefCountAndMaybeReleaseWakelock d t s) = wl_pc s"
  by (simp add: decrementRefCountAndMaybeReleaseWakelock_def Let_def)

lemma drop_decrement_wl_pc [simp]: "wl_pc (drop_decrement K es w k s) = wl_pc s"
  using countNumWakeupEvents_sensors[of K es k s] by (auto simp: drop_decrement_def split: prod.splits)

lemma handlePendingWrites_wl_pc:
  "wl_pc (handlePendingWrites_begin env (handlePendingWrites_end K env s)) = wl_pc s"
  by (auto simp: handlePendingWrites_begin_def handlePendingWrites_end_def Let_def
      split: list.splits pending_pc.splits)

lemma stopped_count: "\<not> mThreadsRun s \<Longrightarrow> same_lock (snd (countNumWakeupEvents K es n s)) s"
  using countNumWakeupEvents_sensors[of K es n s] by (auto simp: same_lock_def)

lemma stopped_drop: "\<not> mThreadsRun s \<Longrightarrow> same_lock (drop_decrement K es w k s) s"
  using stopped_count[of s K es k]
  by (auto simp: drop_decrement_def stopped_decrement same_lock_def split: prod.splits)

lemma stopped_pw_end:
  assumes "\<not> mThreadsRun s"
  shows "same_lock (handlePendingWrites_end K env s) s"
proof (cases "pw_pc s")
  case (PwWriting n w k)
  with assms show ?thesis
    using stopped_drop[OF assms, of K _ w k]
    by (cases "mPendingWriteEventsQueue s"; cases "writeBlocking_ok env")
      (auto simp: handlePendingWrites_end_def same_lock_def Let_def)
qed (use assms in \<open>simp_all add: handlePendingWrites_end_def same_lock_def\<close>)

lemma stopped_step:
  assumes "\<not> mThreadsRun s" and "snd ev \<noteq> Restart"
  shows "same_lock (ev_step L K s ev) s"
proof (cases "(L, K, s, ev)" rule: ev_step.cases)
  case (5 L' K' s' env)
  with assms stopped_pw_end[of s K env] show ?thesis by simp
qed (use assms in \<open>auto simp: same_lock_def stopped_decrement stopped_increment stopThreads_def
      postEventsToMessageQueue_def handlePendingWrites_begin_def handleWakelocks_begin_def
      handleWakelocks_end_def resetSharedWakelock_def Let_def
      split: wakelock_pc.splits option.splits\<close>)

lemma stopped_run:
  "\<not> mThreadsRun s \<Longrightarrow> \<forall>ev \<in> set ops. snd ev \<noteq> Restart \<Longrightarrow>
   same_lock (foldl (ev_step L K) s ops) s"
proof (induction ops arbitrary: s)
  case (Cons ev ops)
  then show ?case
    using stopped_step[of s ev L K] Cons.IH[of "ev_step L K s ev"] by (simp add: same_lock_def)
qed (simp add: same_lock_def)

text \<open>
  Re-initialising the proxy does not reset the shared wakelock, although the code calls
  \<open>resetSharedWakelock\<close> there and at the end of the wakelock thread: both calls come after
  \<open>mThreadsRun\<close> is cleared, when the decrement returns at once. The count survives from the stop
  to the restart, and a held wakelock stays held.
\<close>

theorem reinit_keeps_wakelock:
  assumes "\<forall>ev \<in> set ops. snd ev \<noteq> Restart"
    and "s' = foldl (ev_step L K) s ((env, Stop) # ops @ [(env', Restart)])"
  shows "mWakelockRefCount s' = mWakelockRefCount s \<and> held (proxy_out s') = held (proxy_out s)"
proof -
  have stop: "\<not> mThreadsRun (stopThreads s)" "mWakelockRefCount (stopThreads s) = mWakelockRefCount s"
    "held (proxy_out (stopThreads s)) = held (proxy_out s)"
    by (simp_all add: stopThreads_def Let_def held_def)
  let ?t = "foldl (ev_step L K) (stopThreads s) ops"
  have t: "same_lock ?t (stopThreads s)"
    by (rule stopped_run[OF stop(1) assms(1)])
  then have "decrementRefCountAndMaybeReleaseWakelock (mWakelockRefCount ?t) (-1) ?t = ?t"
    by (simp add: same_lock_def stopped_decrement)
  then have "mWakelockRefCount s' = mWakelockRefCount ?t" "held (proxy_out s') = held (proxy_out ?t)"
    by (simp_all add: assms(2) startThreads_def makeFlags_def clearPending_def resetSharedWakelock_def)
  with t stop(2,3) show ?thesis by (simp add: same_lock_def)
qed

theorem reinit_keeps_wakelock_witness:
  "mWakelockRefCount (foldl (ev_step limits_example android_consts) locked_proxy
     ((ev_example 20 4, Stop) # [(ev_example 21 4, PwBegin), (ev_example 22 4, WlBegin)] @
      [(ev_example 23 4, Restart)])) = mWakelockRefCount locked_proxy"
proof -
  have "\<forall>ev \<in> set [(ev_example 21 4, PwBegin), (ev_example 22 4, WlBegin)]. snd ev \<noteq> Restart"
    by simp
  from reinit_keeps_wakelock[OF this refl] show ?thesis by blast
qed

text \<open>
  A batch that is written in part and then times out takes away the wakelock of what was
  written. The pending entry keeps the number of wake-up events of the whole batch, so when the
  blocking write of the remainder fails, the count is lowered by all of them: the framework has
  received the first \<open>k\<close> wake-up events, but the wakelock is released before it has read them.
\<close>

theorem timed_out_batch_releases_early:
  assumes "mThreadsRun s" "mPendingWriteEventsQueue s = []" "mSizePendingWriteEventsQueue s = 0"
    "pw_pc s = PwIdle" "mWakelockRefCount s = 0"
    and "k = availableToWrite env" "0 < k" "k < length evs" "write_ok env"
    and "length evs - k \<le> kMaxSizePendingWriteEventsQueue L" "length evs - k \<le> getQuantumCount env'"
    and "\<not> writeBlocking_ok env'"
    and "s' = foldl (ev_step L K) s [(env, Post evs (length evs) True), (env', PwBegin), (env', PwEnd)]"
  shows "delivered s' = delivered s @ take k evs \<and> mWakelockRefCount s' = 0 \<and> \<not> held (proxy_out s')"
proof -
  have "evs \<noteq> []" "\<not> getQuantumCount env' < length evs - k"
    using assms(8,11) by auto
  then show ?thesis
    using assms
    by (simp add: postEventsToMessageQueue_def incrementRefCountAndMaybeAcquireWakelock_def
      num_to_write_def handlePendingWrites_begin_def handlePendingWrites_end_def drop_decrement_def
      decrementRefCountAndMaybeReleaseWakelock_def delivered_def held_def Let_def)
qed

theorem timed_out_batch_releases_early_witness:
  "delivered (foldl (ev_step limits_example android_consts) idle_proxy
     [(ev_example 5 1, Post [example_event 1, example_event 2] (length [example_event 1, example_event 2]) True),
      ((ev_example 6 0)\<lparr>writeBlocking_ok := False\<rparr>, PwBegin),
      ((ev_example 6 0)\<lparr>writeBlocking_ok := False\<rparr>, PwEnd)]) = [example_event 1]"
  using timed_out_batch_releases_early[of idle_proxy 1 "ev_example 5 1" "[example_event 1, example_event 2]"
      limits_example "(ev_example 6 0)\<lparr>writeBlocking_ok := False\<rparr>", OF _ _ _ _ _ _ _ _ _ _ _ _ refl,
      of android_consts]
  by (simp add: idle_proxy_def ev_example_def limits_example_def delivered_def del: foldl_Cons)

text \<open>Wake-up events that do not fit are dropped, but they stay counted.\<close>

lemma overflow_keeps_count:
  assumes "mThreadsRun s" "mPendingWriteEventsQueue s \<noteq> []"
    and "mSizePendingWriteEventsQueue s + length evs > kMaxSizePendingWriteEventsQueue L"
    and "s' = ev_step L K s (env, Post evs n True)"
  shows "stream s' = stream s \<and> mWakelockRefCount s' = mWakelockRefCount s + n"
  using assms
  by (auto simp: postEventsToMessageQueue_def num_to_write_def stream_def
      incrementRefCountAndMaybeAcquireWakelock_def delivered_def Let_def)

text \<open>A request with a count of zero at count zero takes a wakelock that no decrement gives back.\<close>

lemma zero_increment_leaks:
  assumes "mThreadsRun s" "mWakelockRefCount s = 0"
    and "s' = ev_step L K s (env, Post [] 0 True)"
  shows "held (proxy_out s') \<and> mWakelockRefCount s' = 0 \<and>
    ev_step L K s' (env', WlDecrement d t) = s'"
  using assms
  by (simp add: postEventsToMessageQueue_def num_to_write_def
      incrementRefCountAndMaybeAcquireWakelock_def decrementRefCountAndMaybeReleaseWakelock_def
      Let_def)

end
