(* ===== verification/HalHandles.thy ===== *)
theory HalHandles
  imports SensorTypes
begin

text \<open>
  Sensor handles of the multi-HAL proxy (\<^verbatim>\<open>src/hidl/sensors/HalProxy.cpp\<close>, lines 47-70 and
  761-767; the same \<open>setSubHalIndex\<close> is repeated in \<^verbatim>\<open>src/hidl/sensors/HalProxyCallback.cpp\<close>).
  A handle is a 32-bit integer whose first byte is the index of the sub-HAL and whose other bytes
  are the sub-HAL's own handle. The shift right is the arithmetic one of a signed integer, and
  its result is widened to \<open>size_t\<close>. The mask \<open>kSensorHandleSubHalIndexMask\<close> is defined in a
  header outside the repository: it is the argument \<open>M\<close>, documented as the first byte.
\<close>

definition kBitsAfterSubHalIndex :: nat where
  "kBitsAfterSubHalIndex = 24"

definition setSubHalIndex :: "i32 \<Rightarrow> nat \<Rightarrow> i32" where
  "setSubHalIndex handle subHalIndex =
     handle OR push_bit kBitsAfterSubHalIndex (word_of_nat subHalIndex)"

definition extractSubHalIndex :: "i32 \<Rightarrow> nat" where
  "extractSubHalIndex handle =
     unat (scast (signed_drop_bit kBitsAfterSubHalIndex handle) :: u64)"

definition clearSubHalIndex :: "i32 \<Rightarrow> i32 \<Rightarrow> i32" where
  "clearSubHalIndex M handle = handle AND NOT M"

definition subHalIndexIsClear :: "i32 \<Rightarrow> i32 \<Rightarrow> bool" where
  "subHalIndexIsClear M handle \<longleftrightarrow> handle AND M = 0"

definition first_byte :: i32 where
  "first_byte = 0xFF000000"

subsection \<open>Bits of a handle\<close>

lemma not_first_byte: "NOT first_byte = (mask 24 :: i32)"
  by (simp add: first_byte_def mask_eq_exp_minus_1)

lemma clear_take_bit: "clearSubHalIndex first_byte h = take_bit 24 h"
  by (simp add: clearSubHalIndex_def not_first_byte take_bit_eq_mask)

lemma clear_iff: "subHalIndexIsClear first_byte h \<longleftrightarrow> take_bit 24 h = h"
proof -
  have "h = (h AND first_byte) OR (h AND NOT first_byte)"
    by (simp add: bit.conj_disj_distrib[symmetric])
  moreover have "h AND NOT first_byte = take_bit 24 h"
    by (simp add: not_first_byte take_bit_eq_mask)
  moreover have "take_bit 24 h AND first_byte = 0"
    by (simp add: take_bit_eq_mask not_first_byte[symmetric] and.assoc)
  ultimately show ?thesis
    unfolding subHalIndexIsClear_def by (metis or.left_neutral)
qed

lemma clear_uint: "subHalIndexIsClear first_byte h \<Longrightarrow> uint h < 2 ^ 24"
  unfolding clear_iff by (metis take_bit_int_less_exp unsigned_take_bit_eq)

lemma setSubHalIndex_clear:
  assumes "subHalIndexIsClear first_byte h"
  shows "clearSubHalIndex first_byte (setSubHalIndex h i) = h"
  using assms
  by (simp add: clear_take_bit setSubHalIndex_def kBitsAfterSubHalIndex_def clear_iff take_bit_push_bit)

lemma uint_setSubHalIndex:
  assumes "subHalIndexIsClear first_byte h" and "i < 256"
  shows "uint (setSubHalIndex h i) = uint h + int i * 2 ^ 24"
proof -
  let ?p = "push_bit 24 (word_of_nat i :: i32)"
  have "take_bit 24 ?p = 0" by (simp add: take_bit_push_bit)
  have "h AND ?p = take_bit 24 h AND ?p"
    using assms(1) by (simp add: clear_iff)
  also have "\<dots> = h AND take_bit 24 ?p"
    by (simp add: take_bit_eq_mask ac_simps)
  finally have "h AND ?p = 0"
    using \<open>take_bit 24 ?p = 0\<close> by simp
  then have "setSubHalIndex h i = h + ?p"
    by (simp add: setSubHalIndex_def kBitsAfterSubHalIndex_def disjunctive_add_eq_or)
  moreover have eq: "?p = word_of_int (int i * 2 ^ 24)"
    by (simp add: push_bit_eq_mult)
  have p: "uint ?p = int i * 2 ^ 24"
    unfolding eq using assms(2) by (subst uint_word_of_int) simp
  ultimately show ?thesis
    using clear_uint[OF assms(1)] assms(2) by (simp add: uint_word_ariths p)
qed

lemma extract_of_sint:
  "sint (signed_drop_bit 24 (h :: i32)) = sint h div 2 ^ 24"
  by (simp add: sint_signed_drop_bit_eq drop_bit_eq_div)

lemma extract_sint: "extractSubHalIndex h = nat ((sint h div 2 ^ 24) mod 2 ^ 64)"
  unfolding extractSubHalIndex_def kBitsAfterSubHalIndex_def
  by (simp add: scast_eq extract_of_sint unsigned_of_int take_bit_eq_mod)

lemma sint_of_uint32: "sint (w :: i32) = (if uint w < 2 ^ 31 then uint w else uint w - 2 ^ 32)"
proof (cases "uint w < 2 ^ 31")
  case True
  then show ?thesis
    using int_word_sint[of "uint w", where 'a = 32] by simp
next
  case False
  define x where "x = uint w"
  have "0 \<le> x - 2 ^ 31" "x - 2 ^ 31 < 2 ^ 32"
    using False uint_lt2p[of w] by (simp_all add: x_def)
  then have "(x - 2 ^ 31 + 2 ^ 32) mod 2 ^ 32 = x - 2 ^ 31"
    by (simp del: power_numeral)
  moreover have "x - 2 ^ 31 + 2 ^ 32 = x + 2 ^ 31" by simp
  ultimately show ?thesis
    using int_word_sint[of "uint w", where 'a = 32] False by (simp add: x_def add.commute)
qed

lemma extract_set:
  assumes "subHalIndexIsClear first_byte h" and "i < 256"
  shows "extractSubHalIndex (setSubHalIndex h i) = (if i < 128 then i else 2 ^ 64 - 256 + i)"
proof -
  define x where "x = uint h"
  have h: "0 \<le> x" "x < 2 ^ 24"
    using clear_uint[OF assms(1)] by (simp_all add: x_def)
  have "sint (setSubHalIndex h i) = x + (int i - (if i < 128 then 0 else 256)) * 2 ^ 24"
    using h assms(2) by (auto simp: sint_of_uint32 uint_setSubHalIndex[OF assms] x_def[symmetric])
  then have "sint (setSubHalIndex h i) div 2 ^ 24 = int i - (if i < 128 then 0 else 256)"
    using h by simp
  moreover have "(int i - 256) mod 2 ^ 64 = int i - 256 + 2 ^ 64"
  proof -
    have "(int i - 256) mod 2 ^ 64 = (int i - 256 + 2 ^ 64) mod 2 ^ 64"
      by (simp only: mod_add_self2)
    also have "\<dots> = int i - 256 + 2 ^ 64"
      using assms(2) by (intro mod_pos_pos_trivial) simp_all
    finally show ?thesis .
  qed
  ultimately show ?thesis
    using assms(2) by (auto simp: extract_sint nat_eq_iff)
qed

text \<open>
  C32. Handles route back: for an own handle of a sub-HAL (first byte clear), writing the index of
  one of the first 128 sub-HALs into it and reading index and own handle again gives both. An
  index from 128 to 255 does not come back: the handle is negative, the arithmetic shift extends
  its sign, and the index read is far beyond any list of sub-HALs.
\<close>

theorem handle_roundtrip:
  assumes "M = 0xFF000000" and "subHalIndexIsClear M h" and "i < 256"
  shows "clearSubHalIndex M (setSubHalIndex h i) = h \<and>
    extractSubHalIndex (setSubHalIndex h i) = (if i < 128 then i else 2 ^ 64 - 256 + i)"
proof -
  have "M = first_byte" using assms(1) by (simp add: first_byte_def)
  with assms(2,3) show ?thesis
    by (simp add: setSubHalIndex_clear extract_set)
qed

theorem handle_roundtrip_witness:
  "clearSubHalIndex 0xFF000000 (setSubHalIndex 7 3) = 7 \<and>
   extractSubHalIndex (setSubHalIndex 7 3) = 3 \<and>
   extractSubHalIndex (setSubHalIndex 7 200) = 2 ^ 64 - 56"
  using handle_roundtrip[OF refl, of 7 3] handle_roundtrip[OF refl, of 7 200]
  by (simp add: subHalIndexIsClear_def)

lemma setSubHalIndex_inj:
  assumes "subHalIndexIsClear first_byte h" "subHalIndexIsClear first_byte h'" "i < 256" "i' < 256"
  shows "setSubHalIndex h i = setSubHalIndex h' i' \<longleftrightarrow> h = h' \<and> i = i'"
  using setSubHalIndex_clear[OF assms(1), of i] setSubHalIndex_clear[OF assms(2), of i']
    extract_set[OF assms(1,3)] extract_set[OF assms(2,4)] assms(3,4)
  by (auto split: if_splits)

end
