(* ===== verification/HalCallback.thy ===== *)
theory HalCallback
  imports HalEvents HalHandles
begin

text \<open>
  The callback the proxy gives to its sub-HALs
  (\<^verbatim>\<open>src/hidl/sensors/HalProxyCallback.cpp\<close>). It tags the events of a sub-HAL with the
  sub-HAL's index, filters the pick-up gesture, counts wake-up events and hands the rest to
  \<open>postEventsToMessageQueue\<close>. The sensor lookup \<open>getSensorInfo\<close>, \<open>areThreadsRunning\<close> and the
  class \<open>ScopedWakelock\<close> are outside the repository: the lookup and the answers are arguments.

  The interface \<open>event_sink\<close> is what the callback relies on: events that fit are appended to
  what the sink has taken. The message queue of the proxy is an instance.
\<close>

subsection \<open>Operations\<close>

text \<open>This file has its own copy of the function that packs an index into a handle.\<close>

definition callback_setSubHalIndex :: "i32 \<Rightarrow> nat \<Rightarrow> i32" where
  "callback_setSubHalIndex handle subHalIndex =
     handle OR push_bit 24 (word_of_nat subHalIndex)"

lemma setSubHalIndex_copies [simp]: "callback_setSubHalIndex = setSubHalIndex"
  by (intro ext) (simp add: callback_setSubHalIndex_def setSubHalIndex_def kBitsAfterSubHalIndex_def)

fun processEvents ::
  "sensor_consts \<Rightarrow> (i32 \<Rightarrow> SensorInfo) \<Rightarrow> nat \<Rightarrow> Event list \<Rightarrow> Event list \<times> nat" where
  "processEvents K getSensorInfo mSubHalIndex [] = ([], 0)"
| "processEvents K getSensorInfo mSubHalIndex (event # events) =
     (let event = event\<lparr>ev_handle := callback_setSubHalIndex (ev_handle event) mSubHalIndex\<rparr>;
          sensor = getSensorInfo (ev_handle event);
          (eventsOut, numWakeupEvents) = processEvents K getSensorInfo mSubHalIndex events
      in if info_type sensor = PICK_UP_GESTURE K \<and> \<not> scalar_is_1 (u event)
         then (eventsOut, numWakeupEvents)
         else (event # eventsOut,
               if has_flag (flags sensor) (WAKE_UP K) then numWakeupEvents + 1
               else numWakeupEvents))"

text \<open>
  \<open>postEvents\<close> also returns whether its \<open>ALOG_ASSERT\<close>s hold; they are compiled out of release
  builds and stop a debug build.
\<close>

definition postEvents ::
  "proxy_limits \<Rightarrow> sensor_consts \<Rightarrow> (i32 \<Rightarrow> SensorInfo) \<Rightarrow> bool \<Rightarrow> nat \<Rightarrow> ev_env \<Rightarrow> Event list \<Rightarrow> bool \<Rightarrow>
   'a proxy_events_scheme \<Rightarrow> bool \<times> 'a proxy_events_scheme" where
  "postEvents L K getSensorInfo areThreadsRunning mSubHalIndex env events wakelock_isLocked s =
     (if events = [] \<or> \<not> areThreadsRunning then (True, s)
      else let (processedEvents, numWakeupEvents) = processEvents K getSensorInfo mSubHalIndex events;
               assert_ok = (if numWakeupEvents > 0 then wakelock_isLocked else \<not> wakelock_isLocked)
           in (assert_ok,
               postEventsToMessageQueue L env processedEvents numWakeupEvents wakelock_isLocked s))"

subsection \<open>What the filter does\<close>

definition tag :: "nat \<Rightarrow> Event \<Rightarrow> Event" where
  "tag i e = e\<lparr>ev_handle := setSubHalIndex (ev_handle e) i\<rparr>"

definition kept :: "sensor_consts \<Rightarrow> (i32 \<Rightarrow> SensorInfo) \<Rightarrow> Event \<Rightarrow> bool" where
  "kept K info e \<longleftrightarrow> info_type (info (ev_handle e)) = PICK_UP_GESTURE K \<longrightarrow> scalar_is_1 (u e)"

definition wakes :: "sensor_consts \<Rightarrow> (i32 \<Rightarrow> SensorInfo) \<Rightarrow> Event \<Rightarrow> bool" where
  "wakes K info e \<longleftrightarrow> has_flag (flags (info (ev_handle e))) (WAKE_UP K)"

lemma processEvents_spec:
  "processEvents K info i events =
     (filter (kept K info) (map (tag i) events),
      length (filter (\<lambda>e. kept K info e \<and> wakes K info e) (map (tag i) events)))"
  by (induction events) (auto simp: kept_def wakes_def tag_def Let_def)

subsection \<open>The sink\<close>

locale event_sink =
  fixes put :: "Event list \<Rightarrow> nat \<Rightarrow> bool \<Rightarrow> 's \<Rightarrow> 's"
    and taken :: "'s \<Rightarrow> Event list"
    and room :: "Event list \<Rightarrow> 's \<Rightarrow> bool"
    and invar :: "'s \<Rightarrow> bool"
  assumes put_invar: "invar s \<Longrightarrow> invar (put evs n b s)"
    and put_taken: "invar s \<Longrightarrow> room evs s \<Longrightarrow> taken (put evs n b s) = taken s @ evs"
begin

lemma put_processed:
  assumes "invar s" and "room (fst (processEvents K info i events)) s"
  shows "taken (put (fst (processEvents K info i events)) n b s) =
    taken s @ filter (kept K info) (map (tag i) events)"
  using put_taken[OF assms] by (simp add: processEvents_spec)

end

definition fits :: "proxy_limits \<Rightarrow> ev_env \<Rightarrow> Event list \<Rightarrow> 'a proxy_events_scheme \<Rightarrow> bool" where
  "fits L env evs s \<longleftrightarrow>
     mSizePendingWriteEventsQueue s + (length evs - num_to_write env evs s) \<le>
       kMaxSizePendingWriteEventsQueue L"

interpretation queue_sink:
  event_sink "postEventsToMessageQueue L env" stream "fits L env" "pending_inv L" for L env
  by unfold_locales (simp_all add: post_pending stream_post accepted_events_def fits_def)

lemma post_count:
  assumes "mThreadsRun s"
  shows "mWakelockRefCount (postEventsToMessageQueue L env evs n b s) =
    mWakelockRefCount s + (if b then n else 0)"
  using assms
  by (auto simp: postEventsToMessageQueue_def incrementRefCountAndMaybeAcquireWakelock_def Let_def)

lemma stream_and_count:
  assumes "pending_inv L s" and "mThreadsRun s" and "events \<noteq> []"
    and "fits L env (filter (kept K info) (map (tag i) events)) s"
    and "postEvents L K info True i env events locked s = (ok, s')"
  shows "stream s' = stream s @ filter (kept K info) (map (tag i) events) \<and>
    mWakelockRefCount s' = mWakelockRefCount s +
      (if locked then length (filter (\<lambda>e. kept K info e \<and> wakes K info e) (map (tag i) events)) else 0)"
proof -
  have "s' = postEventsToMessageQueue L env (fst (processEvents K info i events))
      (snd (processEvents K info i events)) locked s"
    using assms(3,5) by (simp add: postEvents_def Let_def case_prod_beta)
  then show ?thesis
    using queue_sink.put_processed[OF assms(1), where env = env and K = K and info = info and i = i
        and events = events] assms(4) post_count[OF assms(2)]
    by (simp add: processEvents_spec)
qed

text \<open>
  Events of a sub-HAL reach the framework tagged and in order: when they fit, posting appends
  exactly the events that are not idle pick-up reports, each with the sub-HAL's index in its
  handle, and a locked post raises the wakelock count by the number of wake-up events among
  those that were kept.
\<close>

theorem callback_posts_in_order:
  assumes "pending_inv L s" and "mThreadsRun s" and "events \<noteq> []"
    and "fits L env (filter (kept K info) (map (tag i) events)) s"
    and "s' = snd (postEvents L K info True i env events locked s)"
  shows "stream s' = stream s @ filter (kept K info) (map (tag i) events) \<and>
    mWakelockRefCount s' = mWakelockRefCount s +
      (if locked then length (filter (\<lambda>e. kept K info e \<and> wakes K info e) (map (tag i) events)) else 0)"
  using stream_and_count[OF assms(1-4), of locked
      "fst (postEvents L K info True i env events locked s)" s'] assms(5) by simp

definition info_example :: "i32 \<Rightarrow> SensorInfo" where
  "info_example h = (if h = 0x01000002 then SensorInfo_zero\<lparr>info_type := 25, flags := 1\<rparr>
     else SensorInfo_zero)"

theorem callback_posts_in_order_witness:
  "map ev_handle (stream (snd (postEvents limits_example android_consts info_example True 1
     (ev_example 5 4) [example_event 1, example_event 2, (example_event 2)\<lparr>u := Floats [1]\<rparr>] True idle_proxy))) =
   [0x01000001, 0x01000002]"
  using callback_posts_in_order[OF idle_proxy_inv _ _ _ refl, of
      "[example_event 1, example_event 2, (example_event 2)\<lparr>u := Floats [1]\<rparr>]" "ev_example 5 4" android_consts info_example 1 True]
  by (simp add: idle_proxy_def fits_def num_to_write_def ev_example_def limits_example_def kept_def
      tag_def example_event_def info_example_def setSubHalIndex_def kBitsAfterSubHalIndex_def
      android_consts_def SensorInfo_zero_def stream_def delivered_def)

text \<open>
  The pick-up filter can leave a locked post without wake-up events: then the second assertion
  fails, and the wakelock is requested with a count of zero.
\<close>

lemma filtered_pickup_breaks_assert:
  assumes "events \<noteq> []" and "\<forall>e \<in> set events. \<not> kept K info (tag i e)"
  shows "fst (postEvents L K info True i env events True s) = False \<and>
    snd (postEvents L K info True i env events True s) = postEventsToMessageQueue L env [] 0 True s"
  using assms by (auto simp: postEvents_def processEvents_spec Let_def filter_empty_conv)

subsection \<open>Scoped wakelocks\<close>

text \<open>
  \<open>ScopedWakelock\<close> is a class of the HAL's library: its constructor, its destructor and its
  members are an argument \<open>SW\<close>. \<open>scoped_documented\<close> is its documented behaviour: a locked one
  takes one reference when it is made, remembers when, and gives it back with that time when it
  is destroyed; an unlocked one, or one that was refused, does nothing.
\<close>

record ('w, 's) scoped_wakelock =
  sw_ctor :: "ev_env \<Rightarrow> bool \<Rightarrow> 's \<Rightarrow> 'w \<times> 's"
  sw_isLocked :: "'w \<Rightarrow> bool"
  sw_createdAt :: "'w \<Rightarrow> int"
  sw_dtor :: "'w \<Rightarrow> 's \<Rightarrow> 's"

definition scoped_documented :: "('w, 'a proxy_events_scheme) scoped_wakelock \<Rightarrow> bool" where
  "scoped_documented SW \<longleftrightarrow>
     (\<forall>env s. snd (sw_ctor SW env False s) = s \<and> \<not> sw_isLocked SW (fst (sw_ctor SW env False s))) \<and>
     (\<forall>env s. snd (sw_ctor SW env True s) = snd (incrementRefCountAndMaybeAcquireWakelock env 1 s) \<and>
        (sw_isLocked SW (fst (sw_ctor SW env True s)) \<longleftrightarrow>
           fst (fst (incrementRefCountAndMaybeAcquireWakelock env 1 s))) \<and>
        (\<forall>t. snd (fst (incrementRefCountAndMaybeAcquireWakelock env 1 s)) = Some t \<longrightarrow>
           sw_createdAt SW (fst (sw_ctor SW env True s)) = t)) \<and>
     (\<forall>w s. sw_dtor SW w s =
        (if sw_isLocked SW w then decrementRefCountAndMaybeReleaseWakelock 1 (sw_createdAt SW w) s else s))"

definition createScopedWakelock ::
  "('w, 's) scoped_wakelock \<Rightarrow> ev_env \<Rightarrow> bool \<Rightarrow> 's \<Rightarrow> 'w \<times> 's" where
  "createScopedWakelock SW env lock s = sw_ctor SW env lock s"

text \<open>
  How a sub-HAL posts: it makes a scoped wakelock, moves it into \<open>postEvents\<close>, and the wakelock
  is destroyed when that call is over. \<open>env\<close> is the time of the first, \<open>env'\<close> of the second.
\<close>

definition scoped_post ::
  "('w, 'a proxy_events_scheme) scoped_wakelock \<Rightarrow> proxy_limits \<Rightarrow> sensor_consts \<Rightarrow> (i32 \<Rightarrow> SensorInfo) \<Rightarrow>
   bool \<Rightarrow> nat \<Rightarrow> ev_env \<Rightarrow> ev_env \<Rightarrow> Event list \<Rightarrow> bool \<Rightarrow>
   'a proxy_events_scheme \<Rightarrow> bool \<times> 'a proxy_events_scheme" where
  "scoped_post SW L K info running i env env' events wakeup s =
     (let (w, s) = createScopedWakelock SW env wakeup s;
          (ok, s) = postEvents L K info running i env' events (sw_isLocked SW w) s
      in (ok, sw_dtor SW w s))"

definition counted :: "sensor_consts \<Rightarrow> (i32 \<Rightarrow> SensorInfo) \<Rightarrow> nat \<Rightarrow> Event list \<Rightarrow> nat" where
  "counted K info i events =
     length (filter (\<lambda>e. kept K info e \<and> wakes K info e) (map (tag i) events))"

lemma decrement_counts:
  assumes "mThreadsRun s" and "mWakelockTimeoutResetTime s \<le> t" "t \<noteq> -1" and "mWakelockRefCount s = n + 1"
  shows "mWakelockRefCount (decrementRefCountAndMaybeReleaseWakelock 1 t s) = n"
    "held (proxy_out (decrementRefCountAndMaybeReleaseWakelock 1 t s)) = (held (proxy_out s) \<and> n > 0)"
  using assms by (auto simp: decrementRefCountAndMaybeReleaseWakelock_def Let_def)

lemma post_frame:
  "mThreadsRun (postEventsToMessageQueue L env evs n b s) = mThreadsRun s"
  "mWakelockTimeoutResetTime (postEventsToMessageQueue L env evs n b s) = mWakelockTimeoutResetTime s"
  by (simp_all add: postEventsToMessageQueue_def incrementRefCountAndMaybeAcquireWakelock_def Let_def)

lemma stream_decrement: "stream (decrementRefCountAndMaybeReleaseWakelock d t s) = stream s"
  by (rule stream_same[OF decrement_pending])

lemma scoped_locked:
  assumes "scoped_documented SW" and "mThreadsRun s"
  shows "snd (sw_ctor SW env True s) = snd (incrementRefCountAndMaybeAcquireWakelock env 1 s)"
    "sw_isLocked SW (fst (sw_ctor SW env True s))"
    "sw_createdAt SW (fst (sw_ctor SW env True s)) = getTimeNow env"
proof -
  have inc: "fst (incrementRefCountAndMaybeAcquireWakelock env 1 s) = (True, Some (getTimeNow env))"
    using assms(2) by (simp add: incrementRefCountAndMaybeAcquireWakelock_def Let_def)
  note d = assms(1)[unfolded scoped_documented_def, THEN conjunct2, THEN conjunct1, rule_format, of env s]
  show "snd (sw_ctor SW env True s) = snd (incrementRefCountAndMaybeAcquireWakelock env 1 s)"
    "sw_isLocked SW (fst (sw_ctor SW env True s))"
    "sw_createdAt SW (fst (sw_ctor SW env True s)) = getTimeNow env"
    using d inc by simp_all
qed

lemma scoped_dtor:
  "scoped_documented SW \<Longrightarrow> sw_isLocked SW w \<Longrightarrow>
   sw_dtor SW w s = decrementRefCountAndMaybeReleaseWakelock 1 (sw_createdAt SW w) s"
  by (simp add: scoped_documented_def)

text \<open>A locked scoped post is an increment, the post and a decrement.\<close>

lemma scoped_post_steps:
  assumes "scoped_documented SW" and "mThreadsRun s"
    and "scoped_post SW L K info True i env env' events True s = (ok, s')"
  shows "s' = decrementRefCountAndMaybeReleaseWakelock 1 (getTimeNow env)
    (snd (postEvents L K info True i env' events True
      (snd (incrementRefCountAndMaybeAcquireWakelock env 1 s))))"
  using assms(3) scoped_locked[OF assms(1,2), of env] scoped_dtor[OF assms(1)]
  by (simp add: scoped_post_def createScopedWakelock_def case_prod_beta)

lemma increment_facts:
  assumes "mThreadsRun s" and "d > 0" and "held (proxy_out s) \<longleftrightarrow> mWakelockRefCount s > 0"
    and "s1 = snd (incrementRefCountAndMaybeAcquireWakelock env d s)"
  shows "mThreadsRun s1" "mWakelockRefCount s1 = mWakelockRefCount s + d"
    "mWakelockTimeoutResetTime s1 = mWakelockTimeoutResetTime s" "held (proxy_out s1)"
  using assms by (auto simp: incrementRefCountAndMaybeAcquireWakelock_def Let_def)

lemma fits_same: "same_pending s1 s \<Longrightarrow> fits L env evs s1 = fits L env evs s"
  by (simp add: fits_def num_to_write_def same_pending_def)


definition scoped_example :: "(bool \<times> int, 'a proxy_events_scheme) scoped_wakelock" where
  "scoped_example =
     \<lparr>sw_ctor = (\<lambda>env lock s. if lock
        then (case incrementRefCountAndMaybeAcquireWakelock env 1 s of
                ((ok, t), s) \<Rightarrow> ((ok, case t of None \<Rightarrow> 0 | Some t \<Rightarrow> t), s))
        else ((False, 0), s)),
      sw_isLocked = fst, sw_createdAt = snd,
      sw_dtor = (\<lambda>w s. if fst w then decrementRefCountAndMaybeReleaseWakelock 1 (snd w) s else s)\<rparr>"

lemma scoped_example_documented: "scoped_documented scoped_example"
  by (auto simp: scoped_documented_def scoped_example_def split: prod.splits)


end
