(* ===== verification/HalProxy.thy ===== *)
theory HalProxy
  imports HalCallback
begin

text \<open>
  The multi-HAL proxy itself (\<^verbatim>\<open>src/hidl/sensors/HalProxy.cpp\<close> without the parts of the theory
  on event delivery, whose record it extends).

  The sub-HALs are values of a type \<open>'h\<close> and are called through \<open>'h sub_hal_ops\<close>: most of them
  are vendor libraries. A pointer to a sub-HAL is its index in \<open>mSubHalList\<close>. \<open>M\<close> is the mask of
  the sub-HAL index, \<open>K\<close> the HAL's constants. What the dynamic linker returns is \<open>lib_env\<close>. The
  conversions between the two versions of the HIDL types are arguments.
\<close>

subsection \<open>State\<close>

datatype framework_call =
    OnDynamicSensorsConnected "SensorInfo list"
  | OnDynamicSensorsDisconnected "i32 list"

datatype hidl_api = Api_2_0 | Api_2_1

record message_queue =
  mq_descriptor :: nat
  mq_resetPointers :: bool

text \<open>
  The message queues of libfmq are known by their descriptor. A wrapper of the framework's
  callback is an object of its own, around a pointer that may be null.
\<close>

record 'h proxy = proxy_events +
  mSubHalList :: "'h list"
  mDynamicSensors :: "SensorInfo omap"
  mCurrentOperationMode :: OperationMode
  mDirectChannelSubHal :: "nat option"
  mEventQueue :: "(hidl_api \<times> message_queue) option"
  mWakeLockQueue :: "message_queue option"
  mDynamicSensorsCallback :: "(hidl_api \<times> nat option) option"
  framework_out :: "framework_call list"

subsection \<open>Finding the sub-HALs\<close>

definition is_blank :: "char \<Rightarrow> bool" where
  "is_blank c \<longleftrightarrow> (of_char c :: nat) \<in> {9, 10, 11, 12, 13, 32}"

text \<open>\<open>stream >> word\<close> until the stream fails.\<close>

function config_words :: "string \<Rightarrow> string list" where
  "config_words cs =
     (let cs = dropWhile is_blank cs in
      if cs = [] then []
      else takeWhile (\<lambda>c. \<not> is_blank c) cs # config_words (dropWhile (\<lambda>c. \<not> is_blank c) cs))"
  by pat_completeness auto
termination
proof (relation "measure length")
  fix cs ds
  assume "ds = dropWhile is_blank cs" "ds \<noteq> []"
  then have "\<not> is_blank (hd ds)" "length ds \<le> length cs"
    using hd_dropWhile length_dropWhile_le by metis+
  then obtain c es where "ds = c # es" "\<not> is_blank c" using \<open>ds \<noteq> []\<close> by (cases ds) auto
  then have "length (dropWhile (\<lambda>c. \<not> is_blank c) ds) \<le> length es"
    by (simp add: length_dropWhile_le)
  with \<open>ds = c # es\<close> \<open>length ds \<le> length cs\<close>
  show "(dropWhile (\<lambda>c. \<not> is_blank c) ds, cs) \<in> measure length" by simp
qed simp

declare config_words.simps [simp del]

record ('h, 'lib) lib_env =
  dlopen :: "string \<Rightarrow> 'lib option"
  sensorsHalGetSubHal :: "'lib \<Rightarrow> ('h \<times> u32) option"
  sensorsHalGetSubHal_2_1 :: "'lib \<Rightarrow> ('h \<times> u32) option"
  SUB_HAL_2_0_VERSION :: u32
  SUB_HAL_2_1_VERSION :: u32

definition kSubHalShareObjectLocations :: "string list" where
  "kSubHalShareObjectLocations = ['''', ''/vendor/lib64/hw/'', ''/odm/lib64/hw/'']"

fun first_handle :: "(string \<Rightarrow> 'lib option) \<Rightarrow> string \<Rightarrow> string list \<Rightarrow> 'lib option" where
  "first_handle open_lib filename [] = None"
| "first_handle open_lib filename (dir # dirs) =
     (case open_lib (dir @ filename) of
        Some handle \<Rightarrow> Some handle
      | None \<Rightarrow> first_handle open_lib filename dirs)"

definition getHandleForSubHalSharedObject :: "(string \<Rightarrow> 'lib option) \<Rightarrow> string \<Rightarrow> 'lib option" where
  "getHandleForSubHalSharedObject open_lib filename =
     first_handle open_lib filename kSubHalShareObjectLocations"

definition load_sub_hal :: "('h, 'lib) lib_env \<Rightarrow> string \<Rightarrow> 'h list" where
  "load_sub_hal E subHalLibraryFile =
     (case getHandleForSubHalSharedObject (dlopen E) subHalLibraryFile of
        None \<Rightarrow> []
      | Some handle \<Rightarrow>
          (case sensorsHalGetSubHal E handle of
             Some (subHal, version) \<Rightarrow> if version \<noteq> SUB_HAL_2_0_VERSION E then [] else [subHal]
           | None \<Rightarrow>
               (case sensorsHalGetSubHal_2_1 E handle of
                  None \<Rightarrow> []
                | Some (subHal, version) \<Rightarrow>
                    if version \<noteq> SUB_HAL_2_1_VERSION E then [] else [subHal])))"

definition initializeSubHalListFromConfigFile ::
  "('h, 'lib) lib_env \<Rightarrow> string option \<Rightarrow> 'h proxy \<Rightarrow> 'h proxy" where
  "initializeSubHalListFromConfigFile E config s =
     (case config of
        None \<Rightarrow> s
      | Some text \<Rightarrow>
          foldl (\<lambda>s file. s\<lparr>mSubHalList := mSubHalList s @ load_sub_hal E file\<rparr>) s (config_words text))"

subsection \<open>The sensor list\<close>

definition direct_mask :: "sensor_consts \<Rightarrow> u32" where
  "direct_mask K = MASK_DIRECT_REPORT K OR MASK_DIRECT_CHANNEL K"

definition setDirectChannelFlags ::
  "sensor_consts \<Rightarrow> SensorInfo \<Rightarrow> nat \<Rightarrow> 'h proxy \<Rightarrow> SensorInfo \<times> 'h proxy" where
  "setDirectChannelFlags K sensorInfo subHal s =
     (let sensorSupportsDirectChannel = (flags sensorInfo AND direct_mask K \<noteq> 0) in
      if mDirectChannelSubHal s = None \<and> sensorSupportsDirectChannel
      then (sensorInfo, s\<lparr>mDirectChannelSubHal := Some subHal\<rparr>)
      else if mDirectChannelSubHal s \<noteq> None \<and> Some subHal \<noteq> mDirectChannelSubHal s
      then (sensorInfo\<lparr>flags := flags sensorInfo AND NOT (direct_mask K)\<rparr>, s)
      else (sensorInfo, s))"

definition standardize_pickup :: "sensor_consts \<Rightarrow> SensorInfo \<Rightarrow> SensorInfo" where
  "standardize_pickup K sensor =
     (if typeAsString sensor = ''android.sensor.wrist_tilt_gesture''
      then sensor\<lparr>info_type := PICK_UP_GESTURE K, typeAsString := STRING_TYPE_PICK_UP_GESTURE K\<rparr>
      else sensor)"

definition add_sensor ::
  "sensor_consts \<Rightarrow> i32 \<Rightarrow> nat \<Rightarrow> 'h proxy \<Rightarrow> SensorInfo \<Rightarrow> 'h proxy" where
  "add_sensor K M subHalIndex s sensor =
     (if \<not> subHalIndexIsClear M (sensorHandle sensor) then s
      else let sensor = sensor\<lparr>sensorHandle := setSubHalIndex (sensorHandle sensor) subHalIndex\<rparr>;
               (sensor, s) = setDirectChannelFlags K sensor subHalIndex s;
               sensor = standardize_pickup K sensor
           in s\<lparr>mSensors := om_put (sensorHandle sensor) sensor (mSensors s)\<rparr>)"

definition initializeSensorList ::
  "'h sub_hal_ops \<Rightarrow> sensor_consts \<Rightarrow> i32 \<Rightarrow> 'h proxy \<Rightarrow> 'h proxy" where
  "initializeSensorList ops K M s =
     foldl (\<lambda>s subHalIndex.
         case op_getSensorsList ops (mSubHalList s ! subHalIndex) of
           None \<Rightarrow> s
         | Some list \<Rightarrow> foldl (add_sensor K M subHalIndex) s list)
       s [0..<length (mSubHalList s)]"

definition HalProxy_init :: "'h sub_hal_ops \<Rightarrow> sensor_consts \<Rightarrow> i32 \<Rightarrow> 'h proxy \<Rightarrow> 'h proxy" where
  "HalProxy_init ops K M s = initializeSensorList ops K M s"

definition HalProxy_ctor ::
  "('h, 'lib) lib_env \<Rightarrow> 'h sub_hal_ops \<Rightarrow> sensor_consts \<Rightarrow> i32 \<Rightarrow> string option \<Rightarrow> 'h proxy \<Rightarrow> 'h proxy" where
  "HalProxy_ctor E ops K M config s =
     HalProxy_init ops K M (initializeSubHalListFromConfigFile E config s)"

definition HalProxy_ctor_lists ::
  "'h sub_hal_ops \<Rightarrow> sensor_consts \<Rightarrow> i32 \<Rightarrow> 'h list \<Rightarrow> 'h list \<Rightarrow> 'h proxy \<Rightarrow> 'h proxy" where
  "HalProxy_ctor_lists ops K M subHalList subHalListV2_1 s =
     HalProxy_init ops K M
       (s\<lparr>mSubHalList := mSubHalList s @ subHalList @ subHalListV2_1\<rparr>)"

definition getSensorsList_2_1 :: "'h proxy \<Rightarrow> SensorInfo list" where
  "getSensorsList_2_1 s = map snd (mSensors s)"

definition getSensorsList :: "(SensorInfo \<Rightarrow> 'old) \<Rightarrow> 'h proxy \<Rightarrow> 'old list" where
  "getSensorsList convertToOldSensorInfo s = map (\<lambda>p. convertToOldSensorInfo (snd p)) (mSensors s)"

subsection \<open>Calls routed by handle\<close>

definition isSubHalIndexValid :: "i32 \<Rightarrow> 'h proxy \<Rightarrow> bool" where
  "isSubHalIndexValid handle s \<longleftrightarrow> extractSubHalIndex handle < length (mSubHalList s)"

text \<open>\<open>getSubHalForSensorHandle(h)->f(...)\<close>, for a valid index.\<close>

definition on_sub_hal :: "nat \<Rightarrow> ('h \<Rightarrow> 'r \<times> 'h) \<Rightarrow> 'h proxy \<Rightarrow> 'r \<times> 'h proxy" where
  "on_sub_hal i f s =
     (let (r, h) = f (mSubHalList s ! i) in (r, s\<lparr>mSubHalList := (mSubHalList s)[i := h]\<rparr>))"

definition activate :: "'h sub_hal_ops \<Rightarrow> i32 \<Rightarrow> i32 \<Rightarrow> bool \<Rightarrow> 'h proxy \<Rightarrow> Result \<times> 'h proxy" where
  "activate ops M handle enabled s =
     (if \<not> isSubHalIndexValid handle s then (BAD_VALUE, s)
      else on_sub_hal (extractSubHalIndex handle)
             (op_activate ops (clearSubHalIndex M handle) enabled) s)"

definition batch :: "'h sub_hal_ops \<Rightarrow> i32 \<Rightarrow> i32 \<Rightarrow> i64 \<Rightarrow> i64 \<Rightarrow> 'h proxy \<Rightarrow> Result \<times> 'h proxy" where
  "batch ops M handle samplingPeriodNs maxReportLatencyNs s =
     (if \<not> isSubHalIndexValid handle s then (BAD_VALUE, s)
      else on_sub_hal (extractSubHalIndex handle)
             (op_batch ops (clearSubHalIndex M handle) samplingPeriodNs maxReportLatencyNs) s)"

definition flush :: "'h sub_hal_ops \<Rightarrow> i32 \<Rightarrow> i32 \<Rightarrow> 'h proxy \<Rightarrow> Result \<times> 'h proxy" where
  "flush ops M handle s =
     (if \<not> isSubHalIndexValid handle s then (BAD_VALUE, s)
      else on_sub_hal (extractSubHalIndex handle) (op_flush ops (clearSubHalIndex M handle)) s)"

definition injectSensorData ::
  "'h sub_hal_ops \<Rightarrow> sensor_consts \<Rightarrow> i32 \<Rightarrow> (Event \<Rightarrow> Event) \<Rightarrow> Event \<Rightarrow> 'h proxy \<Rightarrow> Result \<times> 'h proxy" where
  "injectSensorData ops K M convertToNewEvent event s =
     (if mCurrentOperationMode s = NORMAL \<and> ev_type event \<noteq> ADDITIONAL_INFO K then (BAD_VALUE, s)
      else if \<not> isSubHalIndexValid (ev_handle event) s then (BAD_VALUE, s)
      else let subHalEvent = event\<lparr>ev_handle := clearSubHalIndex M (ev_handle event)\<rparr>
           in on_sub_hal (extractSubHalIndex (ev_handle event))
                (op_injectSensorData ops (convertToNewEvent subHalEvent)) s)"

definition injectSensorData_2_1 ::
  "'h sub_hal_ops \<Rightarrow> sensor_consts \<Rightarrow> i32 \<Rightarrow> (Event \<Rightarrow> Event) \<Rightarrow> (Event \<Rightarrow> Event) \<Rightarrow> Event \<Rightarrow> 'h proxy \<Rightarrow>
   Result \<times> 'h proxy" where
  "injectSensorData_2_1 ops K M convertToOldEvent convertToNewEvent event s =
     injectSensorData ops K M convertToNewEvent (convertToOldEvent event) s"

subsection \<open>Operation modes\<close>

text \<open>The loop over the sub-HALs up to the first refusal: result, its index, the states after it.\<close>

fun set_modes :: "'h sub_hal_ops \<Rightarrow> OperationMode \<Rightarrow> 'h list \<Rightarrow> Result \<times> nat \<times> 'h list" where
  "set_modes ops mode [] = (OK, 0, [])"
| "set_modes ops mode (h # hs) =
     (let (r, h') = op_setOperationMode ops mode h in
      if r \<noteq> OK then (r, 0, h' # hs)
      else let (r', i, hs') = set_modes ops mode hs in (r', Suc i, h' # hs'))"

definition setOperationMode :: "'h sub_hal_ops \<Rightarrow> OperationMode \<Rightarrow> 'h proxy \<Rightarrow> Result \<times> 'h proxy" where
  "setOperationMode ops mode s =
     (let (result, subHalIndex, hs) = set_modes ops mode (mSubHalList s) in
      if result \<noteq> OK then
        (result, s\<lparr>mSubHalList :=
           map (\<lambda>h. snd (op_setOperationMode ops (mCurrentOperationMode s) h)) (take subHalIndex hs) @
           drop subHalIndex hs\<rparr>)
      else (result, s\<lparr>mSubHalList := hs, mCurrentOperationMode := mode\<rparr>))"

subsection \<open>Direct channels\<close>

definition registerDirectChannel :: "'h sub_hal_ops \<Rightarrow> 'h proxy \<Rightarrow> (Result \<times> int) \<times> 'h proxy" where
  "registerDirectChannel ops s =
     (case mDirectChannelSubHal s of
        None \<Rightarrow> ((INVALID_OPERATION, -1), s)
      | Some i \<Rightarrow> on_sub_hal i (op_registerDirectChannel ops) s)"

definition unregisterDirectChannel :: "'h sub_hal_ops \<Rightarrow> i32 \<Rightarrow> 'h proxy \<Rightarrow> Result \<times> 'h proxy" where
  "unregisterDirectChannel ops channelHandle s =
     (case mDirectChannelSubHal s of
        None \<Rightarrow> (INVALID_OPERATION, s)
      | Some i \<Rightarrow> on_sub_hal i (op_unregisterDirectChannel ops channelHandle) s)"

definition configDirectReport ::
  "'h sub_hal_ops \<Rightarrow> i32 \<Rightarrow> int \<Rightarrow> i32 \<Rightarrow> i32 \<Rightarrow> int \<Rightarrow> 'h proxy \<Rightarrow> (Result \<times> int) \<times> 'h proxy" where
  "configDirectReport ops M RateLevel_STOP handle channelHandle rate s =
     (case mDirectChannelSubHal s of
        None \<Rightarrow> ((INVALID_OPERATION, -1), s)
      | Some i \<Rightarrow>
          if handle = -1 \<and> rate \<noteq> RateLevel_STOP then ((BAD_VALUE, -1), s)
          else on_sub_hal i
                 (op_configDirectReport ops (if handle \<noteq> -1 then clearSubHalIndex M handle else handle)
                    channelHandle rate) s)"

subsection \<open>Dynamic sensors\<close>

definition connect_one ::
  "i32 \<Rightarrow> nat \<Rightarrow> SensorInfo omap \<times> SensorInfo list \<Rightarrow> SensorInfo \<Rightarrow> SensorInfo omap \<times> SensorInfo list" where
  "connect_one M subHalIndex acc sensor =
     (if \<not> subHalIndexIsClear M (sensorHandle sensor) then acc
      else let sensor = sensor\<lparr>sensorHandle := setSubHalIndex (sensorHandle sensor) subHalIndex\<rparr>
           in (om_put (sensorHandle sensor) sensor (fst acc), snd acc @ [sensor]))"

definition onDynamicSensorsConnected :: "i32 \<Rightarrow> SensorInfo list \<Rightarrow> nat \<Rightarrow> 'h proxy \<Rightarrow> 'h proxy" where
  "onDynamicSensorsConnected M dynamicSensorsAdded subHalIndex s =
     (let (m, sensors) = foldl (connect_one M subHalIndex) (mDynamicSensors s, []) dynamicSensorsAdded
      in s\<lparr>mDynamicSensors := m,
           framework_out := framework_out s @ [OnDynamicSensorsConnected sensors]\<rparr>)"

definition disconnect_one ::
  "i32 \<Rightarrow> nat \<Rightarrow> SensorInfo omap \<times> i32 list \<Rightarrow> i32 \<Rightarrow> SensorInfo omap \<times> i32 list" where
  "disconnect_one M subHalIndex acc handle =
     (if \<not> subHalIndexIsClear M handle then acc
      else let handle = setSubHalIndex handle subHalIndex in
           if om_find (fst acc) handle \<noteq> None
           then (om_erase handle (fst acc), snd acc @ [handle]) else acc)"

definition onDynamicSensorsDisconnected :: "i32 \<Rightarrow> i32 list \<Rightarrow> nat \<Rightarrow> 'h proxy \<Rightarrow> 'h proxy" where
  "onDynamicSensorsDisconnected M dynamicSensorHandlesRemoved subHalIndex s =
     (let (m, handles) = foldl (disconnect_one M subHalIndex) (mDynamicSensors s, [])
                           dynamicSensorHandlesRemoved
      in s\<lparr>mDynamicSensors := m,
           framework_out := framework_out s @ [OnDynamicSensorsDisconnected handles]\<rparr>)"

subsection \<open>Initialisation\<close>

definition disable_keys :: "'h sub_hal_ops \<Rightarrow> i32 \<Rightarrow> i32 list \<Rightarrow> 'h proxy \<Rightarrow> 'h proxy" where
  "disable_keys ops M handles s = foldl (\<lambda>s h. snd (activate ops M h False s)) s handles"

definition disableAllSensors :: "'h sub_hal_ops \<Rightarrow> i32 \<Rightarrow> 'h proxy \<Rightarrow> 'h proxy" where
  "disableAllSensors ops M s =
     (let s = disable_keys ops M (map fst (mSensors s)) s
      in disable_keys ops M (map fst (mDynamicSensors s)) s)"

text \<open>
  What the two threads still do once they are told to stop, up to their end: each finishes the
  blocking call it is in, and leaves its loop.
\<close>

definition join_threads :: "proxy_limits \<Rightarrow> sensor_consts \<Rightarrow> ev_env \<Rightarrow> 'h proxy \<Rightarrow> 'h proxy" where
  "join_threads L K env s =
     foldl (ev_step L K) s [(env, PwEnd), (env, PwBegin), (env, WlEnd), (env, WlBegin)]"

fun initialize_subs :: "'h sub_hal_ops \<Rightarrow> nat \<Rightarrow> 'h list \<Rightarrow> Result option \<times> 'h list" where
  "initialize_subs ops i [] = (None, [])"
| "initialize_subs ops i (h # hs) =
     (let (r, h') = op_initialize ops i h in
      if r \<noteq> OK then (Some r, h' # hs)
      else let (r', hs') = initialize_subs ops (Suc i) hs in (r', h' # hs'))"

text \<open>
  \<open>initializeCommon\<close> receives the queues its callers have made, so the tests for null queues
  never fail.
\<close>

definition initializeCommon ::
  "proxy_limits \<Rightarrow> 'h sub_hal_ops \<Rightarrow> sensor_consts \<Rightarrow> i32 \<Rightarrow> ev_env \<Rightarrow> hidl_api \<times> message_queue \<Rightarrow>
   message_queue \<Rightarrow> (hidl_api \<times> nat option) option \<Rightarrow> 'h proxy \<Rightarrow> Result \<times> 'h proxy" where
  "initializeCommon L ops K M env eventQueue wakeLockQueue sensorsCallback s =
     (let s = join_threads L K env (stopThreads s);
          s = resetSharedWakelock env s;
          s = disableAllSensors ops M s;
          s = clearPending s;
          s = s\<lparr>mDynamicSensors := om_empty, mDynamicSensorsCallback := sensorsCallback,
                mEventQueue := Some eventQueue, mWakeLockQueue := Some wakeLockQueue\<rparr>;
          s = makeFlags env s;
          result = (if \<not> event_flag s \<or> \<not> wakelock_flag s then BAD_VALUE else OK);
          result = (if mDynamicSensorsCallback s = None \<or> mEventQueue s = None \<or>
                       mWakeLockQueue s = None \<or> \<not> event_flag s then BAD_VALUE else result);
          s = startThreads s;
          (failed, hs) = initialize_subs ops 0 (mSubHalList s)
      in (case failed of None \<Rightarrow> result | Some r \<Rightarrow> r,
          s\<lparr>mSubHalList := hs, mCurrentOperationMode := NORMAL\<rparr>))"

definition initialize_2_1 ::
  "proxy_limits \<Rightarrow> 'h sub_hal_ops \<Rightarrow> sensor_consts \<Rightarrow> i32 \<Rightarrow> ev_env \<Rightarrow> nat \<Rightarrow> nat \<Rightarrow> nat option \<Rightarrow>
   'h proxy \<Rightarrow> Result \<times> 'h proxy" where
  "initialize_2_1 L ops K M env eventQueueDescriptor wakeLockDescriptor sensorsCallback s =
     (let dynamicCallback = Some (Api_2_1, sensorsCallback);
          queue = (Api_2_1, \<lparr>mq_descriptor = eventQueueDescriptor, mq_resetPointers = True\<rparr>);
          wakeLockQueue = \<lparr>mq_descriptor = wakeLockDescriptor, mq_resetPointers = True\<rparr>
      in initializeCommon L ops K M env queue wakeLockQueue dynamicCallback s)"

definition initialize ::
  "proxy_limits \<Rightarrow> 'h sub_hal_ops \<Rightarrow> sensor_consts \<Rightarrow> i32 \<Rightarrow> ev_env \<Rightarrow> nat \<Rightarrow> nat \<Rightarrow> nat option \<Rightarrow>
   'h proxy \<Rightarrow> Result \<times> 'h proxy" where
  "initialize L ops K M env eventQueueDescriptor wakeLockDescriptor sensorsCallback s =
     (let dynamicCallback = Some (Api_2_0, sensorsCallback);
          queue = (Api_2_0, \<lparr>mq_descriptor = eventQueueDescriptor, mq_resetPointers = True\<rparr>);
          wakeLockQueue = \<lparr>mq_descriptor = wakeLockDescriptor, mq_resetPointers = True\<rparr>
      in initializeCommon L ops K M env queue wakeLockQueue dynamicCallback s)"

definition HalProxy_destroy :: "proxy_limits \<Rightarrow> sensor_consts \<Rightarrow> ev_env \<Rightarrow> 'h proxy \<Rightarrow> 'h proxy" where
  "HalProxy_destroy L K env s = join_threads L K env (stopThreads s)"

subsection \<open>The debug dump\<close>

datatype debug_out = DebugText string | SubHalDebug nat

definition endl :: string where
  "endl = [CHR 0x0A]"

fun debug_subs :: "'h sub_hal_ops \<Rightarrow> string \<Rightarrow> nat \<Rightarrow> 'h list \<Rightarrow> debug_out list" where
  "debug_subs ops text i [] = [DebugText text]"
| "debug_subs ops text i (h # hs) =
     DebugText (text @ ''  Name: '' @ op_name ops h @ endl @ ''  Debug dump: '' @ endl) #
     SubHalDebug i # debug_subs ops endl (Suc i) hs"

definition HalProxy_debug :: "'h sub_hal_ops \<Rightarrow> bool \<Rightarrow> int \<Rightarrow> 'h proxy \<Rightarrow> debug_out list" where
  "HalProxy_debug ops has_fd now s =
     (if \<not> has_fd then []
      else debug_subs ops
        (''===HalProxy==='' @ endl @ ''Internal values:'' @ endl @
         ''  Threads are running: '' @ (if mThreadsRun s then ''true'' else ''false'') @ endl @
         ''  Wakelock timeout start time: '' @
           show_int (msFromNs (now - mWakelockTimeoutStartTime s)) @ '' ms ago'' @ endl @
         ''  Wakelock timeout reset time: '' @
           show_int (msFromNs (now - mWakelockTimeoutResetTime s)) @ '' ms ago'' @ endl @
         ''  Wakelock ref count: '' @ show_nat (mWakelockRefCount s) @ endl @
         ''  # of events on pending write writes queue: '' @
           show_nat (mSizePendingWriteEventsQueue s) @ endl @
         '' Most events seen on pending write events queue: '' @ show_nat (mMostEventsObserved s) @ endl @
         (case mPendingWriteEventsQueue s of
            [] \<Rightarrow> []
          | (evs, w) # _ \<Rightarrow>
              ''  Size of events list on front of pending writes queue: '' @ show_nat (length evs) @ endl) @
         ''  # of non-dynamic sensors across all subhals: '' @ show_nat (length (mSensors s)) @ endl @
         ''  # of dynamic sensors across all subhals: '' @ show_nat (length (mDynamicSensors s)) @ endl @
         ''SubHals ('' @ show_nat (length (mSubHalList s)) @ ''):'' @ endl)
        0 (mSubHalList s))"

subsection \<open>Switching modes\<close>

lemma set_modes_cases:
  assumes "set_modes ops m hs = (r, i, hs')"
  shows "r = OK \<Longrightarrow> (\<forall>h \<in> set hs. fst (op_setOperationMode ops m h) = OK) \<and>
      hs' = map (\<lambda>h. snd (op_setOperationMode ops m h)) hs"
    and "r \<noteq> OK \<Longrightarrow> \<exists>pre h bs. hs = pre @ h # bs \<and> length pre = i \<and>
      (\<forall>a \<in> set pre. fst (op_setOperationMode ops m a) = OK) \<and> fst (op_setOperationMode ops m h) = r \<and>
      hs' = map (\<lambda>h. snd (op_setOperationMode ops m h)) (pre @ [h]) @ bs"
  using assms
proof (induction hs arbitrary: i hs')
  case (Cons h hs)
  obtain r0 h0 where h0: "op_setOperationMode ops m h = (r0, h0)" by fastforce
  obtain r1 i1 hs1 where h1: "set_modes ops m hs = (r1, i1, hs1)" by (cases "set_modes ops m hs")
  { case 1
    then show ?case using Cons.IH(1)[of i1 hs1] h0 h1 by (simp split: if_splits)
  next
    case 2
    show ?case
    proof (cases "r0 = OK")
      case True
      with 2 h0 h1 obtain pre k bs where "hs = pre @ k # bs" "length pre = i1"
        "\<forall>a \<in> set pre. fst (op_setOperationMode ops m a) = OK" "fst (op_setOperationMode ops m k) = r"
        "hs1 = map (\<lambda>h. snd (op_setOperationMode ops m h)) (pre @ [k]) @ bs" "i = Suc i1" "hs' = h0 # hs1"
        using Cons.IH(2)[of i1 hs1] by auto
      with True h0 show ?thesis
        by (intro exI[of _ "h # pre"] exI[of _ k] exI[of _ bs]) simp
    next
      case False
      with 2 h0 h1 show ?thesis
        by (intro exI[of _ "[]"] exI[of _ h] exI[of _ hs]) simp
    qed
  }
qed auto

text \<open>
  C12. Switching the operation mode is all or nothing. If the sub-HALs do what they answer (an
  \<open>OK\<close> means the requested mode, a refusal means no change) and accept to go back, then after
  \<open>setOperationMode\<close> all sub-HALs are in the proxy's current mode: the requested one if the
  result is \<open>OK\<close>, the old one otherwise, whichever sub-HAL refused.
\<close>

theorem setOperationMode_atomic:
  assumes switched: "\<forall>m h h'. op_setOperationMode ops m h = (OK, h') \<longrightarrow> mode_of h' = m"
    and refused: "\<forall>m h r h'. op_setOperationMode ops m h = (r, h') \<longrightarrow> r \<noteq> OK \<longrightarrow> mode_of h' = mode_of h"
    and returns: "\<forall>h. fst (op_setOperationMode ops (mCurrentOperationMode s) h) = OK"
    and agree: "\<forall>h \<in> set (mSubHalList s). mode_of h = mCurrentOperationMode s"
    and result: "setOperationMode ops mode s = (r, s')"
  shows "mCurrentOperationMode s' = (if r = OK then mode else mCurrentOperationMode s) \<and>
    (\<forall>h \<in> set (mSubHalList s'). mode_of h = mCurrentOperationMode s') \<and>
    length (mSubHalList s') = length (mSubHalList s)"
proof -
  have sw: "mode_switching ops mode_of"
    using switched by unfold_locales blast
  obtain r1 i hs where sm: "set_modes ops mode (mSubHalList s) = (r1, i, hs)"
    by (cases "set_modes ops mode (mSubHalList s)")
  show ?thesis
  proof (cases "r1 = OK")
    case True
    note all = set_modes_cases(1)[OF sm True]
    have "\<forall>h \<in> set hs. mode_of h = mode"
      using mode_switching.switch_all[OF sw, of "mSubHalList s" mode] all by simp
    with True all result show ?thesis
      by (auto simp: setOperationMode_def sm)
  next
    case False
    then obtain pre h bs where hs: "mSubHalList s = pre @ h # bs" "length pre = i"
        "fst (op_setOperationMode ops mode h) = r1"
        "hs = map (\<lambda>h. snd (op_setOperationMode ops mode h)) (pre @ [h]) @ bs"
      using set_modes_cases(2)[OF sm] by blast
    let ?cur = "mCurrentOperationMode s"
    have "\<forall>h \<in> set (map (\<lambda>h. snd (op_setOperationMode ops ?cur h)) (take i hs)). mode_of h = ?cur"
      using mode_switching.switch_all[OF sw] returns by blast
    moreover have "mode_of (snd (op_setOperationMode ops mode h)) = ?cur"
      using refused agree hs(1,3) False by (metis in_set_conv_decomp prod.collapse)
    moreover have "drop i hs = snd (op_setOperationMode ops mode h) # bs"
      using hs(2,4) by simp
    moreover have "r = r1" "s' = s\<lparr>mSubHalList :=
        map (\<lambda>h. snd (op_setOperationMode ops ?cur h)) (take i hs) @ drop i hs\<rparr>"
      using False result by (simp_all add: setOperationMode_def sm)
    ultimately show ?thesis
      using False agree hs(1,2,4) by auto
  qed
qed

text \<open>A sub-HAL for the example: its mode, and whether it refuses data injection.\<close>

definition picky_ops :: "(OperationMode \<times> bool) sub_hal_ops" where
  "picky_ops = \<lparr>op_getSensorsList = (\<lambda>h. Some [SensorInfo_zero\<lparr>sensorHandle := 5\<rparr>]),
     op_setOperationMode = (\<lambda>m (c, b). if b \<and> m = DATA_INJECTION then (BAD_VALUE, (c, b)) else (OK, (m, b))),
     op_activate = (\<lambda>k e h. (OK, h)), op_batch = (\<lambda>k p l h. (OK, h)), op_flush = (\<lambda>k h. (OK, h)),
     op_injectSensorData = (\<lambda>e h. (OK, h)), op_initialize = (\<lambda>i h. (OK, h)),
     op_registerDirectChannel = (\<lambda>h. ((OK, 1), h)), op_unregisterDirectChannel = (\<lambda>c h. (OK, h)),
     op_configDirectReport = (\<lambda>k c r h. ((OK, 1), h)), op_name = (\<lambda>h. ''picky'')\<rparr>"

definition proxy_example :: "'h list \<Rightarrow> 'h proxy" where
  "proxy_example hs = proxy_events.extend idle_proxy
     (proxy.fields hs om_empty NORMAL None None None None [])"

lemma proxy_example_simps [simp]:
  "mSubHalList (proxy_example hs) = hs" "mCurrentOperationMode (proxy_example hs) = NORMAL"
  "mDynamicSensors (proxy_example hs) = om_empty" "mDirectChannelSubHal (proxy_example hs) = None"
  "mSensors (proxy_example hs) = om_empty" "framework_out (proxy_example hs) = []"
  by (simp_all add: proxy_example_def proxy_events.defs proxy.defs idle_proxy_def om_empty_def)

theorem setOperationMode_atomic_witness:
  "fst (setOperationMode picky_ops DATA_INJECTION (proxy_example [(NORMAL, False), (NORMAL, True)])) =
     BAD_VALUE \<and>
   map fst (mSubHalList (snd (setOperationMode picky_ops DATA_INJECTION
      (proxy_example [(NORMAL, False), (NORMAL, True)])))) = [NORMAL, NORMAL]"
proof -
  let ?s = "proxy_example [(NORMAL, False), (NORMAL, True)]"
  obtain r s' where rs: "setOperationMode picky_ops DATA_INJECTION ?s = (r, s')" by fastforce
  have r: "r = BAD_VALUE" using rs by (simp add: setOperationMode_def picky_ops_def)
  have "mCurrentOperationMode s' = (if r = OK then DATA_INJECTION else mCurrentOperationMode ?s) \<and>
      (\<forall>h \<in> set (mSubHalList s'). fst h = mCurrentOperationMode s') \<and>
      length (mSubHalList s') = length (mSubHalList ?s)"
    by (rule setOperationMode_atomic[OF _ _ _ _ rs])
      (auto simp: picky_ops_def split: if_splits)
  then have "(\<forall>h \<in> set (mSubHalList s'). fst h = NORMAL) \<and> length (mSubHalList s') = 2"
    using r by simp
  then have "map fst (mSubHalList s') = replicate 2 NORMAL"
    by (simp add: map_replicate_const[symmetric] list_eq_iff_nth_eq)
  then show ?thesis using r rs by (simp add: numeral_2_eq_2)
qed

subsection \<open>Routing\<close>

text \<open>
  A call on a handle reaches the sub-HAL it belongs to and no other, with the sub-HAL's own
  handle: for the handle made from an own handle \<open>h\<close> and the index \<open>i\<close> of one of the first 128
  sub-HALs, \<open>activate\<close>, \<open>batch\<close> and \<open>flush\<close> return and change exactly what sub-HAL \<open>i\<close> does with
  \<open>h\<close>. A handle whose index is that of no sub-HAL is refused and changes nothing.
\<close>

theorem calls_routed:
  assumes "M = 0xFF000000" and "subHalIndexIsClear M h" and "i < 128"
  shows "activate ops M (setSubHalIndex h i) b s =
      (if i < length (mSubHalList s) then on_sub_hal i (op_activate ops h b) s else (BAD_VALUE, s)) \<and>
    batch ops M (setSubHalIndex h i) p l s =
      (if i < length (mSubHalList s) then on_sub_hal i (op_batch ops h p l) s else (BAD_VALUE, s)) \<and>
    flush ops M (setSubHalIndex h i) s =
      (if i < length (mSubHalList s) then on_sub_hal i (op_flush ops h) s else (BAD_VALUE, s))"
proof -
  have M: "M = first_byte" using assms(1) by (simp add: first_byte_def)
  have "extractSubHalIndex (setSubHalIndex h i) = i" "clearSubHalIndex M (setSubHalIndex h i) = h"
    using assms(2,3) extract_set[of h i] setSubHalIndex_clear[of h i] by (simp_all add: M)
  then show ?thesis
    by (simp add: activate_def batch_def flush_def isSubHalIndexValid_def)
qed

theorem calls_routed_witness:
  "activate picky_ops 0xFF000000 (setSubHalIndex 5 1) True (proxy_example [(NORMAL, False), (NORMAL, True)]) =
     on_sub_hal 1 (op_activate picky_ops 5 True) (proxy_example [(NORMAL, False), (NORMAL, True)]) \<and>
   fst (flush picky_ops 0xFF000000 (setSubHalIndex 5 7) (proxy_example [(NORMAL, False)])) = BAD_VALUE"
  using calls_routed[OF refl, of 5 1 picky_ops True "proxy_example [(NORMAL, False), (NORMAL, True)]"]
    calls_routed[OF refl, of 5 7 picky_ops True "proxy_example [(NORMAL, False)]"]
  by (simp add: subHalIndexIsClear_def)

subsection \<open>The sensor list\<close>

lemma om_put_set: "set (om_put k v m) \<subseteq> insert (k, v) (set m)"
  by (induction k v m rule: om_put.induct) auto

text \<open>
  \<open>entry_ok\<close>: a listed sensor carries its own key as handle, is declared by the sub-HAL its
  handle leads to, and has direct-channel flags only if that sub-HAL is the direct-channel one.
\<close>

definition entry_ok ::
  "'h sub_hal_ops \<Rightarrow> sensor_consts \<Rightarrow> i32 \<Rightarrow> 'h list \<Rightarrow> nat option \<Rightarrow> i32 \<times> SensorInfo \<Rightarrow> bool" where
  "entry_ok ops K M hs direct e \<longleftrightarrow>
     (case e of (k, info) \<Rightarrow>
        sensorHandle info = k \<and>
        (\<exists>i < length hs. \<exists>list. \<exists>d \<in> set list. op_getSensorsList ops (hs ! i) = Some list \<and>
           subHalIndexIsClear M (sensorHandle d) \<and> k = setSubHalIndex (sensorHandle d) i \<and>
           info_name info = info_name d \<and>
           (flags info AND direct_mask K \<noteq> 0 \<longrightarrow> direct = Some i)))"

definition list_inv :: "'h sub_hal_ops \<Rightarrow> sensor_consts \<Rightarrow> i32 \<Rightarrow> 'h proxy \<Rightarrow> bool" where
  "list_inv ops K M s \<longleftrightarrow> om_sorted (mSensors s) \<and>
     (\<forall>e \<in> set (mSensors s). entry_ok ops K M (mSubHalList s) (mDirectChannelSubHal s) e)"

lemma setDirectChannelFlags_keeps:
  assumes "setDirectChannelFlags K info i s = (info', s')"
  shows "mSubHalList s' = mSubHalList s" "mSensors s' = mSensors s" "sensorHandle info' = sensorHandle info"
    "info_name info' = info_name info"
    "mDirectChannelSubHal s = Some j \<Longrightarrow> mDirectChannelSubHal s' = Some j"
    "flags info' AND direct_mask K \<noteq> 0 \<Longrightarrow> mDirectChannelSubHal s' = Some i"
  using assms
  by (auto simp: setDirectChannelFlags_def Let_def and.assoc split: if_splits)

lemma standardize_pickup_keeps [simp]:
  "sensorHandle (standardize_pickup K info) = sensorHandle info"
  "flags (standardize_pickup K info) = flags info"
  "info_name (standardize_pickup K info) = info_name info"
  by (simp_all add: standardize_pickup_def)

lemma entry_ok_direct:
  assumes "entry_ok ops K M hs d e" and "\<And>j. d = Some j \<Longrightarrow> d' = Some j"
  shows "entry_ok ops K M hs d' e"
  using assms by (cases e) (fastforce simp: entry_ok_def)

lemma add_sensor_inv:
  assumes "list_inv ops K M s" and "i < length (mSubHalList s)"
    and "op_getSensorsList ops (mSubHalList s ! i) = Some list" and "d \<in> set list"
  shows "list_inv ops K M (add_sensor K M i s d)"
    and "mSubHalList (add_sensor K M i s d) = mSubHalList s"
    and "fst ` set (mSensors (add_sensor K M i s d)) =
      fst ` set (mSensors s) \<union>
        (if subHalIndexIsClear M (sensorHandle d) then {setSubHalIndex (sensorHandle d) i} else {})"
proof -
  let ?d = "d\<lparr>sensorHandle := setSubHalIndex (sensorHandle d) i\<rparr>"
  obtain info t where f: "setDirectChannelFlags K ?d i s = (info, t)" by fastforce
  note k = setDirectChannelFlags_keeps[OF f]
  show "mSubHalList (add_sensor K M i s d) = mSubHalList s"
    by (simp add: add_sensor_def f k)
  show "fst ` set (mSensors (add_sensor K M i s d)) =
      fst ` set (mSensors s) \<union>
        (if subHalIndexIsClear M (sensorHandle d) then {setSubHalIndex (sensorHandle d) i} else {})"
    using om_put_keys[of "sensorHandle info" "standardize_pickup K info" "mSensors s"]
    by (simp add: add_sensor_def f k)
  show "list_inv ops K M (add_sensor K M i s d)"
  proof (cases "subHalIndexIsClear M (sensorHandle d)")
    case True
    have "entry_ok ops K M (mSubHalList s) (mDirectChannelSubHal t) (sensorHandle info, standardize_pickup K info)"
      using True assms(2-4) k by (auto simp: entry_ok_def)
    moreover have "entry_ok ops K M (mSubHalList s) (mDirectChannelSubHal t) e" if "e \<in> set (mSensors s)" for e
    proof (rule entry_ok_direct)
      show "entry_ok ops K M (mSubHalList s) (mDirectChannelSubHal s) e"
        using assms(1) that by (simp add: list_inv_def)
    qed (rule k(5))
    ultimately show ?thesis
      using True assms(1) om_put_set[of "sensorHandle info" "standardize_pickup K info" "mSensors s"]
        om_sorted_put
      by (auto simp: add_sensor_def f k list_inv_def)
  qed (use assms(1) in \<open>simp add: add_sensor_def\<close>)
qed

lemma add_sensors_inv:
  assumes "list_inv ops K M s" and "i < length (mSubHalList s)"
    and "op_getSensorsList ops (mSubHalList s ! i) = Some list" and "set ds \<subseteq> set list"
  shows "list_inv ops K M (foldl (add_sensor K M i) s ds) \<and>
    mSubHalList (foldl (add_sensor K M i) s ds) = mSubHalList s \<and>
    fst ` set (mSensors (foldl (add_sensor K M i) s ds)) =
      fst ` set (mSensors s) \<union>
        {setSubHalIndex (sensorHandle d) i |d. d \<in> set ds \<and> subHalIndexIsClear M (sensorHandle d)}"
  using assms
proof (induction ds arbitrary: s)
  case (Cons d ds)
  then have "d \<in> set list" by simp
  note step = add_sensor_inv[OF Cons.prems(1-3) this]
  show ?case
    using Cons.IH[of "add_sensor K M i s d"] Cons.prems step by auto
qed simp

definition declared_keys :: "'h sub_hal_ops \<Rightarrow> i32 \<Rightarrow> 'h list \<Rightarrow> nat \<Rightarrow> i32 set" where
  "declared_keys ops M hs i =
     (case op_getSensorsList ops (hs ! i) of
        None \<Rightarrow> {}
      | Some list \<Rightarrow> {setSubHalIndex (sensorHandle d) i |d. d \<in> set list \<and> subHalIndexIsClear M (sensorHandle d)})"

definition load_sub :: "'h sub_hal_ops \<Rightarrow> sensor_consts \<Rightarrow> i32 \<Rightarrow> 'h proxy \<Rightarrow> nat \<Rightarrow> 'h proxy" where
  "load_sub ops K M s i =
     (case op_getSensorsList ops (mSubHalList s ! i) of
        None \<Rightarrow> s | Some list \<Rightarrow> foldl (add_sensor K M i) s list)"

lemma load_subs_inv:
  assumes "list_inv ops K M s" and "\<forall>i \<in> set is. i < length (mSubHalList s)"
  shows "list_inv ops K M (foldl (load_sub ops K M) s is) \<and>
    mSubHalList (foldl (load_sub ops K M) s is) = mSubHalList s \<and>
    fst ` set (mSensors (foldl (load_sub ops K M) s is)) =
      fst ` set (mSensors s) \<union> (\<Union>i \<in> set is. declared_keys ops M (mSubHalList s) i)"
  using assms
proof (induction "is" arbitrary: s)
  case (Cons i "is")
  have "list_inv ops K M (load_sub ops K M s i) \<and> mSubHalList (load_sub ops K M s i) = mSubHalList s \<and>
      fst ` set (mSensors (load_sub ops K M s i)) =
        fst ` set (mSensors s) \<union> declared_keys ops M (mSubHalList s) i"
    using add_sensors_inv[of ops K M s i] Cons.prems
    by (auto simp: load_sub_def declared_keys_def split: option.splits)
  with Cons show ?case by auto
qed simp

text \<open>
  C14. The proxy lists exactly the sensors of its sub-HALs. The keys are the handles of all sensors
  that a sub-HAL declares with a clear first byte, tagged with its index; every listed sensor
  carries its key as handle and the handle leads back to the sub-HAL that declared it; and direct
  channel capabilities are offered only for sensors of the one sub-HAL that serves direct
  channels. (For up to 128 sub-HALs; the list starts empty.)
\<close>

theorem sensor_list_exact:
  assumes "M = 0xFF000000" and "length (mSubHalList s) \<le> 128" and "mSensors s = om_empty"
    and "s' = initializeSensorList ops K M s"
  shows "fst ` set (mSensors s') = (\<Union>i < length (mSubHalList s). declared_keys ops M (mSubHalList s) i) \<and>
    (\<forall>(k, info) \<in> set (mSensors s'). sensorHandle info = k \<and>
       k \<in> declared_keys ops M (mSubHalList s) (extractSubHalIndex k) \<and>
       extractSubHalIndex k < length (mSubHalList s) \<and>
       (flags info AND direct_mask K \<noteq> 0 \<longrightarrow> mDirectChannelSubHal s' = Some (extractSubHalIndex k)))"
proof -
  have M: "M = first_byte" using assms(1) by (simp add: first_byte_def)
  have "s' = foldl (load_sub ops K M) s [0..<length (mSubHalList s)]"
    by (simp add: assms(4) initializeSensorList_def load_sub_def[abs_def])
  moreover have "list_inv ops K M s"
    using assms(3) by (simp add: list_inv_def om_empty_def om_sorted_def)
  ultimately have inv: "list_inv ops K M s'" "mSubHalList s' = mSubHalList s"
    and keys: "fst ` set (mSensors s') = (\<Union>i < length (mSubHalList s). declared_keys ops M (mSubHalList s) i)"
    using load_subs_inv[of ops K M s "[0..<length (mSubHalList s)]"] assms(3)
    by (auto simp: om_empty_def atLeast0LessThan)
  have "sensorHandle info = k \<and> k \<in> declared_keys ops M (mSubHalList s) (extractSubHalIndex k) \<and>
       extractSubHalIndex k < length (mSubHalList s) \<and>
       (flags info AND direct_mask K \<noteq> 0 \<longrightarrow> mDirectChannelSubHal s' = Some (extractSubHalIndex k))"
    if "(k, info) \<in> set (mSensors s')" for k info
  proof -
    have "entry_ok ops K M (mSubHalList s) (mDirectChannelSubHal s') (k, info)"
      using inv that by (auto simp: list_inv_def)
    then obtain i list d where i: "i < length (mSubHalList s)" "d \<in> set list"
        "op_getSensorsList ops (mSubHalList s ! i) = Some list"
        "subHalIndexIsClear M (sensorHandle d)" "k = setSubHalIndex (sensorHandle d) i"
        "sensorHandle info = k" "flags info AND direct_mask K \<noteq> 0 \<longrightarrow> mDirectChannelSubHal s' = Some i"
      by (auto simp: entry_ok_def)
    moreover have "extractSubHalIndex k = i"
      using extract_set[of "sensorHandle d" i] i(1,4,5) assms(2) by (simp add: M)
    ultimately show ?thesis
      by (auto simp: declared_keys_def)
  qed
  with keys show ?thesis by blast
qed

theorem sensor_list_exact_witness:
  "fst ` set (mSensors (initializeSensorList picky_ops android_consts 0xFF000000
     (proxy_example [(NORMAL, False), (NORMAL, True)]))) = {5, 0x01000005}"
  using sensor_list_exact[OF refl _ _ refl, of "proxy_example [(NORMAL, False), (NORMAL, True)]"
      picky_ops android_consts]
  by (auto simp: declared_keys_def picky_ops_def setSubHalIndex_def kBitsAfterSubHalIndex_def
      subHalIndexIsClear_def lessThan_Suc numeral_2_eq_2)

subsection \<open>Dynamic sensors\<close>

definition tag_info :: "nat \<Rightarrow> SensorInfo \<Rightarrow> SensorInfo" where
  "tag_info i d = d\<lparr>sensorHandle := setSubHalIndex (sensorHandle d) i\<rparr>"

lemma connect_fold:
  "foldl (connect_one M i) (m, xs) ds =
     (foldl (\<lambda>m (k, v). om_put k v m) m
        (map (\<lambda>d. (sensorHandle (tag_info i d), tag_info i d))
           (filter (\<lambda>d. subHalIndexIsClear M (sensorHandle d)) ds)),
      xs @ map (tag_info i) (filter (\<lambda>d. subHalIndexIsClear M (sensorHandle d)) ds))"
  by (induction ds arbitrary: m xs) (simp_all add: connect_one_def tag_info_def Let_def)

lemma disconnect_fold:
  assumes "om_sorted m" and "\<forall>h \<in> set hs. subHalIndexIsClear M h"
    and "distinct (map (\<lambda>h. setSubHalIndex h i) hs)"
    and "\<forall>h \<in> set hs. om_find m (setSubHalIndex h i) \<noteq> None"
    and "foldl (disconnect_one M i) (m, xs) hs = (m', xs')"
  shows "xs' = xs @ map (\<lambda>h. setSubHalIndex h i) hs \<and>
    om_find m' = (\<lambda>k. if k \<in> (\<lambda>h. setSubHalIndex h i) ` set hs then None else om_find m k)"
  using assms
proof (induction hs arbitrary: m xs)
  case (Cons h hs)
  let ?k = "setSubHalIndex h i"
  have eq: "disconnect_one M i (m, xs) h = (om_erase ?k m, xs @ [?k])"
    using Cons.prems(2,4) by (simp add: disconnect_one_def Let_def)
  have "\<forall>h \<in> set hs. om_find (om_erase ?k m) (setSubHalIndex h i) \<noteq> None"
    using Cons.prems(1,3,4) by (auto simp: om.find_erase) (metis image_eqI)
  then show ?case
    using Cons.IH[of "om_erase ?k m" "xs @ [?k]"] Cons.prems eq
    by (auto simp: om.find_erase om.invar_erase fun_eq_iff)
qed (simp add: fun_eq_iff)

definition connect_map :: "nat \<Rightarrow> SensorInfo list \<Rightarrow> SensorInfo omap \<Rightarrow> SensorInfo omap" where
  "connect_map i ds m =
     foldl (\<lambda>m (k, v). om_put k v m) m (map (\<lambda>d. (sensorHandle (tag_info i d), tag_info i d)) ds)"

lemma connect_map_sorted: "om_sorted m \<Longrightarrow> om_sorted (connect_map i ds m)"
  unfolding connect_map_def by (rule om.invar_puts)

lemma connect_map_other:
  assumes "om_sorted m" and "k \<notin> (\<lambda>h. setSubHalIndex h i) ` set (map sensorHandle ds)"
  shows "om_find (connect_map i ds m) k = om_find m k"
proof -
  have "k \<notin> fst ` set (map (\<lambda>d. (sensorHandle (tag_info i d), tag_info i d)) ds)"
    using assms(2) by (auto simp: tag_info_def)
  then have "map_of (rev (map (\<lambda>d. (sensorHandle (tag_info i d), tag_info i d)) ds)) k = None"
    unfolding map_of_eq_None_iff by simp
  then show ?thesis
    unfolding connect_map_def om.find_puts[OF assms(1)] by (simp add: map_add_def)
qed

lemma connect_map_new:
  assumes "om_sorted m" and "k \<in> (\<lambda>h. setSubHalIndex h i) ` set (map sensorHandle ds)"
  shows "om_find (connect_map i ds m) k \<noteq> None"
proof -
  have "k \<in> fst ` set (map (\<lambda>d. (sensorHandle (tag_info i d), tag_info i d)) ds)"
    using assms(2) by (auto simp: tag_info_def image_iff)
  then have "map_of (rev (map (\<lambda>d. (sensorHandle (tag_info i d), tag_info i d)) ds)) k \<noteq> None"
    unfolding map_of_eq_None_iff by simp
  then show ?thesis
    unfolding connect_map_def om.find_puts[OF assms(1)] map_add_None by blast
qed

lemma tagged_distinct:
  assumes "\<forall>h \<in> set hs. subHalIndexIsClear first_byte h" and "distinct hs" and "i < 256"
  shows "distinct (map (\<lambda>h. setSubHalIndex h i) hs)"
proof -
  have "inj_on (\<lambda>h. setSubHalIndex h i) (set hs)"
  proof (rule inj_onI)
    fix a b
    assume "a \<in> set hs" "b \<in> set hs" "setSubHalIndex a i = setSubHalIndex b i"
    then show "a = b"
      using setSubHalIndex_inj[of a b i i] assms(1,3) by blast
  qed
  then show ?thesis using assms(2) by (simp add: distinct_map)
qed

text \<open>
  C40. Connecting and disconnecting dynamic sensors undo each other: when a sub-HAL connects new
  sensors with distinct own handles and later disconnects them, the framework is told about
  exactly these sensors, under the same tagged handles both times, and the proxy's map of dynamic
  sensors is as before.
\<close>

theorem dynamic_sensors_roundtrip:
  assumes "M = 0xFF000000" and "om_sorted (mDynamicSensors s)" and "i < 256"
    and "\<forall>d \<in> set ds. subHalIndexIsClear M (sensorHandle d)" and "distinct (map sensorHandle ds)"
    and "\<forall>d \<in> set ds. om_find (mDynamicSensors s) (setSubHalIndex (sensorHandle d) i) = None"
    and "s' = onDynamicSensorsDisconnected M (map sensorHandle ds) i
      (onDynamicSensorsConnected M ds i s)"
  shows "om_find (mDynamicSensors s') = om_find (mDynamicSensors s) \<and>
    framework_out s' = framework_out s @
      [OnDynamicSensorsConnected (map (tag_info i) ds),
       OnDynamicSensorsDisconnected (map (\<lambda>d. sensorHandle (tag_info i d)) ds)]"
proof -
  have M: "M = first_byte" using assms(1) by (simp add: first_byte_def)
  define hs where "hs = map sensorHandle ds"
  define m where "m = connect_map i ds (mDynamicSensors s)"
  have hs: "\<forall>h \<in> set hs. subHalIndexIsClear M h"
    "\<forall>h \<in> set hs. om_find (mDynamicSensors s) (setSubHalIndex h i) = None"
    using assms(4,6) by (simp_all add: hs_def)
  have dist: "distinct (map (\<lambda>h. setSubHalIndex h i) hs)"
    using hs(1) assms(3,5) unfolding M hs_def by (intro tagged_distinct)
  have sorted: "om_sorted m"
    unfolding m_def by (rule connect_map_sorted[OF assms(2)])
  have new: "\<forall>h \<in> set hs. om_find m (setSubHalIndex h i) \<noteq> None"
    using connect_map_new[OF assms(2)] unfolding m_def hs_def by blast
  obtain m' xs' where d: "foldl (disconnect_one M i) (m, []) hs = (m', xs')"
    by (cases "foldl (disconnect_one M i) (m, []) hs")
  note fold = disconnect_fold[OF sorted hs(1) dist new d]
  have con: "onDynamicSensorsConnected M ds i s = s\<lparr>mDynamicSensors := m,
      framework_out := framework_out s @ [OnDynamicSensorsConnected (map (tag_info i) ds)]\<rparr>"
    using assms(4) by (simp add: onDynamicSensorsConnected_def connect_fold m_def connect_map_def)
  have s': "mDynamicSensors s' = m'" "framework_out s' = framework_out s @
      [OnDynamicSensorsConnected (map (tag_info i) ds), OnDynamicSensorsDisconnected xs']"
    unfolding assms(7) con hs_def[symmetric] onDynamicSensorsDisconnected_def by (simp_all add: d)
  have "om_find m' k = om_find (mDynamicSensors s) k" for k
  proof (cases "k \<in> (\<lambda>h. setSubHalIndex h i) ` set hs")
    case True
    then obtain h where "h \<in> set hs" "k = setSubHalIndex h i" by (rule imageE)
    then show ?thesis using hs(2) fold True by simp
  next
    case False
    then show ?thesis
      using fold connect_map_other[OF assms(2)] unfolding m_def hs_def by simp
  qed
  moreover have "xs' = map (\<lambda>d. sensorHandle (tag_info i d)) ds"
    using fold by (simp add: hs_def tag_info_def o_def)
  ultimately show ?thesis using s' by auto
qed

theorem dynamic_sensors_roundtrip_witness:
  "framework_out (onDynamicSensorsDisconnected 0xFF000000 [7] 2
     (onDynamicSensorsConnected 0xFF000000 [SensorInfo_zero\<lparr>sensorHandle := 7\<rparr>] 2
        (proxy_example [(NORMAL, False)]))) =
   [OnDynamicSensorsConnected [SensorInfo_zero\<lparr>sensorHandle := 0x02000007\<rparr>],
    OnDynamicSensorsDisconnected [0x02000007]]"
  using dynamic_sensors_roundtrip[OF refl _ _ _ _ _ refl, of "proxy_example [(NORMAL, False)]" 2
      "[SensorInfo_zero\<lparr>sensorHandle := 7\<rparr>]"]
  by (simp add: om.invar_empty om.find_empty subHalIndexIsClear_def tag_info_def setSubHalIndex_def
      kBitsAfterSubHalIndex_def)

subsection \<open>Restarting\<close>

text \<open>Told to stop, both threads leave their loops after at most one blocking call.\<close>

lemma stop_joins:
  assumes "pending_inv L s"
  shows "joined (join_threads L K env (stopThreads s))"
proof -
  let ?s = "stopThreads s"
  have st: "\<not> mThreadsRun ?s" "pw_pc ?s = pw_pc s" "wl_pc ?s = wl_pc s"
    "mPendingWriteEventsQueue ?s = mPendingWriteEventsQueue s"
    by (simp_all add: stopThreads_def Let_def)
  let ?t = "handlePendingWrites_begin env (handlePendingWrites_end K env ?s)"
  have t: "\<not> mThreadsRun ?t" "pw_pc ?t \<in> {PwNotStarted, PwDone}" "wl_pc ?t = wl_pc s"
  proof -
    have end_run: "\<not> mThreadsRun (handlePendingWrites_end K env ?s)"
      using stopped_pw_end[OF st(1), of K env] by (simp add: same_lock_def)
    then show "\<not> mThreadsRun ?t"
      by (simp add: handlePendingWrites_begin_def)
    have "pw_pc (handlePendingWrites_end K env ?s) \<in> {PwNotStarted, PwIdle, PwDone}"
      using assms st(2,4)
      by (cases "pw_pc s"; cases "mPendingWriteEventsQueue s")
        (auto simp: handlePendingWrites_end_def Let_def pending_inv_def)
    with end_run show "pw_pc ?t \<in> {PwNotStarted, PwDone}"
      by (auto simp: handlePendingWrites_begin_def)
    show "wl_pc ?t = wl_pc s"
      using handlePendingWrites_wl_pc st(3) by metis
  qed
  show ?thesis
    using t
    by (auto simp: join_threads_def joined_def handleWakelocks_end_def handleWakelocks_begin_def
        stopped_decrement resetSharedWakelock_def split: wakelock_pc.splits option.splits)
qed

lemma on_sub_hal_list:
  "\<exists>hs. snd (on_sub_hal i f s) = s\<lparr>mSubHalList := hs\<rparr> \<and> length hs = length (mSubHalList s)"
  by (cases "f (mSubHalList s ! i)") (auto simp: on_sub_hal_def)

lemma activate_list:
  "\<exists>hs. snd (activate ops M h b s) = s\<lparr>mSubHalList := hs\<rparr> \<and> length hs = length (mSubHalList s)"
proof (cases "isSubHalIndexValid h s")
  case False
  then show ?thesis by (intro exI[of _ "mSubHalList s"]) (simp add: activate_def)
qed (simp add: activate_def on_sub_hal_list)

lemma disable_keys_list:
  "\<exists>hs. disable_keys ops M ks s = s\<lparr>mSubHalList := hs\<rparr> \<and> length hs = length (mSubHalList s)"
proof (induction ks arbitrary: s)
  case Nil
  then show ?case by (intro exI[of _ "mSubHalList s"]) (simp add: disable_keys_def)
next
  case (Cons k ks)
  obtain hs where hs: "snd (activate ops M k False s) = s\<lparr>mSubHalList := hs\<rparr>" "length hs = length (mSubHalList s)"
    using activate_list by blast
  with Cons.IH[of "s\<lparr>mSubHalList := hs\<rparr>"] show ?case
    by (auto simp: disable_keys_def)
qed

lemma disableAllSensors_list:
  "\<exists>hs. disableAllSensors ops M s = s\<lparr>mSubHalList := hs\<rparr> \<and> length hs = length (mSubHalList s)"
proof -
  obtain hs where hs: "disable_keys ops M (map fst (mSensors s)) s = s\<lparr>mSubHalList := hs\<rparr>"
    "length hs = length (mSubHalList s)"
    using disable_keys_list by blast
  obtain gs where "disable_keys ops M (map fst (mDynamicSensors s)) (s\<lparr>mSubHalList := hs\<rparr>) =
      s\<lparr>mSubHalList := gs\<rparr>" "length gs = length (mSubHalList s)"
    using disable_keys_list[of ops M "map fst (mDynamicSensors s)" "s\<lparr>mSubHalList := hs\<rparr>"] hs(2) by auto
  with hs show ?thesis by (auto simp: disableAllSensors_def)
qed

text \<open>Each sub-HAL up to the first refusal is initialised, the ones behind it are not.\<close>

definition init_ok :: "'h sub_hal_ops \<Rightarrow> nat \<Rightarrow> 'h list \<Rightarrow> nat \<Rightarrow> bool" where
  "init_ok ops i hs j \<longleftrightarrow> fst (op_initialize ops (i + j) (hs ! j)) = OK"

lemma initialize_subs_spec:
  assumes "initialize_subs ops i hs = (r, hs')"
  shows "length hs' = length hs \<and> r \<noteq> Some OK \<and> (r = None \<longleftrightarrow> (\<forall>j < length hs. init_ok ops i hs j)) \<and>
    (\<forall>j < length hs. hs' ! j =
      (if \<forall>k < j. init_ok ops i hs k then snd (op_initialize ops (i + j) (hs ! j)) else hs ! j))"
  using assms
proof (induction hs arbitrary: i hs' r)
  case (Cons h hs)
  obtain r0 h0 where h0: "op_initialize ops i h = (r0, h0)" by fastforce
  obtain r1 hs1 where h1: "initialize_subs ops (Suc i) hs = (r1, hs1)" by fastforce
  have shift: "init_ok ops i (h # hs) (Suc k) = init_ok ops (Suc i) hs k" for k
    by (simp add: init_ok_def)
  have zero: "init_ok ops i (h # hs) 0 = (r0 = OK)" by (simp add: init_ok_def h0)
  have eq: "r = (if r0 \<noteq> OK then Some r0 else r1)" "hs' = h0 # (if r0 \<noteq> OK then hs else hs1)"
    using Cons.prems by (auto simp: h0 h1)
  show ?case
    using Cons.IH[OF h1] h0 by (auto simp: eq All_less_Suc2 shift zero)
qed simp

text \<open>The sub-HALs when they are initialised: all sensors were switched off before.\<close>

definition quiet_subs ::
  "proxy_limits \<Rightarrow> 'h sub_hal_ops \<Rightarrow> sensor_consts \<Rightarrow> i32 \<Rightarrow> ev_env \<Rightarrow> 'h proxy \<Rightarrow> 'h list" where
  "quiet_subs L ops K M env s = mSubHalList (disableAllSensors ops M
     (resetSharedWakelock env (join_threads L K env (stopThreads s))))"

text \<open>
  C22. What \<open>initialize\<close> leaves behind, whatever the proxy was doing before: both threads run from
  their start on the framework's new queues, nothing waits to be written, no dynamic sensor is
  known and the mode is \<open>NORMAL\<close>. The result is \<open>OK\<close> exactly if both event flags could be made
  and every sub-HAL accepted; the sub-HALs are initialised in order up to the first refusal,
  and the ones behind it are left as they were. On a failure the threads run all the same, so
  events are accepted although the event flag may be missing.
\<close>

theorem initialize_outcome:
  assumes "initialize_2_1 L ops K M env ev_desc wl_desc cb s = (r, s')"
    and "hs = quiet_subs L ops K M env s"
  shows "(mThreadsRun s' \<and> pw_pc s' = PwIdle \<and> wl_pc s' = WlIdle \<and>
      mPendingWriteEventsQueue s' = [] \<and> mSizePendingWriteEventsQueue s' = 0 \<and>
      mDynamicSensors s' = om_empty \<and> mCurrentOperationMode s' = NORMAL \<and>
      mEventQueue s' = Some (Api_2_1, \<lparr>mq_descriptor = ev_desc, mq_resetPointers = True\<rparr>) \<and>
      mWakeLockQueue s' = Some \<lparr>mq_descriptor = wl_desc, mq_resetPointers = True\<rparr>) \<and>
    (r = OK \<longleftrightarrow> event_flag_created env \<and> wakelock_flag_created env \<and>
      (\<forall>j < length hs. fst (op_initialize ops j (hs ! j)) = OK)) \<and>
    length (mSubHalList s') = length hs \<and> (\<forall>j < length hs. mSubHalList s' ! j =
      (if \<forall>k < j. fst (op_initialize ops k (hs ! k)) = OK
       then snd (op_initialize ops j (hs ! j)) else hs ! j))"
proof -
  define t where "t = disableAllSensors ops M (resetSharedWakelock env (join_threads L K env (stopThreads s)))"
  obtain f gs where f: "initialize_subs ops 0 hs = (f, gs)" by fastforce
  have hs: "mSubHalList t = hs" by (simp add: assms(2) quiet_subs_def t_def)
  note spec = initialize_subs_spec[OF f]
  have r: "r = (case f of None \<Rightarrow> if event_flag_created env \<and> wakelock_flag_created env then OK else BAD_VALUE
      | Some e \<Rightarrow> e)"
    and s': "s' = startThreads (makeFlags env ((clearPending t)\<lparr>mDynamicSensors := om_empty,
      mDynamicSensorsCallback := Some (Api_2_1, cb),
      mEventQueue := Some (Api_2_1, \<lparr>mq_descriptor = ev_desc, mq_resetPointers = True\<rparr>),
      mWakeLockQueue := Some \<lparr>mq_descriptor = wl_desc, mq_resetPointers = True\<rparr>\<rparr>))
      \<lparr>mSubHalList := gs, mCurrentOperationMode := NORMAL\<rparr>"
    using assms(1) f
    by (auto simp: initialize_2_1_def initializeCommon_def t_def[symmetric] Let_def makeFlags_def
        startThreads_def clearPending_def hs split: option.splits)
  have "r = OK \<longleftrightarrow> event_flag_created env \<and> wakelock_flag_created env \<and> f = None"
    using spec by (auto simp: r split: option.splits)
  moreover have "mSubHalList s' = gs" by (simp add: s')
  ultimately show ?thesis
    using spec by (auto simp: s' startThreads_def makeFlags_def clearPending_def init_ok_def)
qed

definition refusing_ops :: "(OperationMode \<times> bool) sub_hal_ops" where
  "refusing_ops = picky_ops\<lparr>op_initialize := (\<lambda>i h. if snd h then (INVALID_OPERATION, h) else (OK, (NORMAL, True)))\<rparr>"

theorem initialize_outcome_witness:
  "fst (initialize_2_1 limits_example refusing_ops android_consts 0xFF000000 (ev_example 5 4) 7 8 None
     (proxy_example [(NORMAL, False), (NORMAL, True), (NORMAL, False)])) \<noteq> OK \<and>
   mSubHalList (snd (initialize_2_1 limits_example refusing_ops android_consts 0xFF000000 (ev_example 5 4) 7 8 None
     (proxy_example [(NORMAL, False), (NORMAL, True), (NORMAL, False)]))) =
   [(NORMAL, True), (NORMAL, True), (NORMAL, False)]"
proof -
  let ?hs = "[(NORMAL, False), (NORMAL, True), (NORMAL, False)]"
  let ?r = "initialize_2_1 limits_example refusing_ops android_consts 0xFF000000 (ev_example 5 4) 7 8 None (proxy_example ?hs)"
  have q: "?hs = quiet_subs limits_example refusing_ops android_consts 0xFF000000 (ev_example 5 4) (proxy_example ?hs)"
    by (simp add: quiet_subs_def disableAllSensors_def disable_keys_def join_threads_def
        proxy_example_def proxy_events.defs proxy.defs idle_proxy_def om_empty_def stopThreads_def
        handlePendingWrites_begin_def handlePendingWrites_end_def handleWakelocks_begin_def
        handleWakelocks_end_def resetSharedWakelock_def stopped_decrement out_all_def)
  from initialize_outcome[OF prod.collapse[symmetric] q, of 7 8 None]
  have "fst ?r \<noteq> OK" "length (mSubHalList (snd ?r)) = 3"
    "\<forall>j < 3. mSubHalList (snd ?r) ! j = [(NORMAL, True), (NORMAL, True), (NORMAL, False)] ! j"
    by (auto simp: refusing_ops_def All_less_Suc2 numeral_3_eq_3)
  then show ?thesis
    by (auto simp: list_eq_iff_nth_eq)
qed

text \<open>
  The older call does the same on a queue of old events. A null callback of the framework is not
  noticed: the wrapper around it is not null.
\<close>

lemma initialize_like_2_1:
  assumes "initialize L ops K M env ev_desc wl_desc cb s = (r, s')"
  shows "initialize_2_1 L ops K M env ev_desc wl_desc cb s =
    (r, s'\<lparr>mEventQueue := Some (Api_2_1, \<lparr>mq_descriptor = ev_desc, mq_resetPointers = True\<rparr>),
          mDynamicSensorsCallback := Some (Api_2_1, cb)\<rparr>)"
  using assms
  by (auto simp: initialize_def initialize_2_1_def initializeCommon_def makeFlags_def startThreads_def
      clearPending_def Let_def split: prod.splits option.splits)

end
