(* ===== verification/HalThreads.thy ===== *)
theory HalThreads
  imports HalEvents
begin

text \<open>
  The two threads of the proxy with their condition variables
  (\<^verbatim>\<open>src/hidl/sensors/HalProxy.cpp\<close>, lines 536-557, 575-645 and 664-709).

  The theory on event delivery takes the evaluation of a wait's predicate and the sleep after it
  as one step. Here they are two: a thread that found nothing to do has decided to sleep
  (\<open>CvDecided\<close>, it still holds its mutex), then sleeps (\<open>CvAsleep\<close>, the mutex is free), and is
  awake again after a notification or a spurious wake-up. A notification reaches a thread only
  if it sleeps. Calls that need the mutex of a thread that has decided do not happen until it
  sleeps; \<open>stopThreads\<close> needs no mutex, and its store of \<open>mThreadsRun\<close> and its notifications are
  separate steps.
\<close>

subsection \<open>State\<close>

datatype cv_state = CvAwake | CvDecided | CvAsleep

record cv_proxy = proxy_events +
  pw_cv :: cv_state
  wl_cv :: cv_state

subsection \<open>Steps\<close>

definition notify_pw :: "cv_proxy \<Rightarrow> cv_proxy" where
  "notify_pw s = (if pw_cv s = CvAsleep then s\<lparr>pw_cv := CvAwake\<rparr> else s)"

definition notify_wl :: "cv_proxy \<Rightarrow> cv_proxy" where
  "notify_wl s = (if wl_cv s = CvAsleep then s\<lparr>wl_cv := CvAwake\<rparr> else s)"

definition cv_increment :: "ev_env \<Rightarrow> nat \<Rightarrow> cv_proxy \<Rightarrow> cv_proxy" where
  "cv_increment env delta s =
     (if mThreadsRun s \<and> wl_cv s = CvDecided then s
      else let s' = snd (incrementRefCountAndMaybeAcquireWakelock env delta s)
           in if mThreadsRun s \<and> mWakelockRefCount s = 0 then notify_wl s' else s')"

definition cv_decrement :: "nat \<Rightarrow> int \<Rightarrow> cv_proxy \<Rightarrow> cv_proxy" where
  "cv_decrement delta timeoutStart s =
     (if mThreadsRun s \<and> wl_cv s = CvDecided then s
      else decrementRefCountAndMaybeReleaseWakelock delta timeoutStart s)"

text \<open>
  A post holds the mutex of the writer, and inside it takes the one of the wakelock to count.
  It notifies the writer if it has queued something.
\<close>

definition cv_post ::
  "proxy_limits \<Rightarrow> ev_env \<Rightarrow> Event list \<Rightarrow> nat \<Rightarrow> bool \<Rightarrow> cv_proxy \<Rightarrow> cv_proxy" where
  "cv_post L env events numWakeupEvents locked s =
     (if pw_cv s = CvDecided \<or> locked \<and> mThreadsRun s \<and> wl_cv s = CvDecided then s
      else let s' = postEventsToMessageQueue L env events numWakeupEvents locked s;
               s' = (if locked \<and> mThreadsRun s \<and> mWakelockRefCount s = 0 then notify_wl s' else s')
           in if mPendingWriteEventsQueue s' \<noteq> mPendingWriteEventsQueue s then notify_pw s' else s')"

definition cv_pw_begin :: "ev_env \<Rightarrow> cv_proxy \<Rightarrow> cv_proxy" where
  "cv_pw_begin env s =
     (if pw_cv s \<noteq> CvAwake then s
      else if pw_pc s = PwIdle \<and> mThreadsRun s \<and> mPendingWriteEventsQueue s = []
      then s\<lparr>pw_cv := CvDecided\<rparr>
      else handlePendingWrites_begin env s)"

definition cv_pw_end :: "sensor_consts \<Rightarrow> ev_env \<Rightarrow> cv_proxy \<Rightarrow> cv_proxy" where
  "cv_pw_end K env s =
     (if \<not> writeBlocking_ok env \<and> mThreadsRun s \<and> wl_cv s = CvDecided then s
      else handlePendingWrites_end K env s)"

definition cv_wl_begin :: "proxy_limits \<Rightarrow> ev_env \<Rightarrow> cv_proxy \<Rightarrow> cv_proxy" where
  "cv_wl_begin L env s =
     (if wl_cv s \<noteq> CvAwake then s
      else if wl_pc s = WlIdle \<and> mThreadsRun s \<and> mWakelockRefCount s = 0
      then s\<lparr>wl_cv := CvDecided\<rparr>
      else handleWakelocks_begin L env s)"

text \<open>The two notifications at the end of \<open>stopThreads\<close>, before it joins.\<close>

definition stop_notify :: "cv_proxy \<Rightarrow> cv_proxy" where
  "stop_notify s = notify_pw (notify_wl s)"

datatype cv_op =
    CvPost "Event list" nat bool | CvIncrement nat | CvDecrement nat int
  | CvPwBegin | CvPwEnd | CvWlBegin | CvWlEnd | CvStop | CvNotify | CvRestart
  | CvPwSleep | CvWlSleep | CvPwSpurious | CvWlSpurious

fun cv_step :: "proxy_limits \<Rightarrow> sensor_consts \<Rightarrow> cv_proxy \<Rightarrow> ev_env \<times> cv_op \<Rightarrow> cv_proxy" where
  "cv_step L K s (env, CvPost evs n locked) = cv_post L env evs n locked s"
| "cv_step L K s (env, CvIncrement d) = cv_increment env d s"
| "cv_step L K s (env, CvDecrement d t) = cv_decrement d t s"
| "cv_step L K s (env, CvPwBegin) = cv_pw_begin env s"
| "cv_step L K s (env, CvPwEnd) = cv_pw_end K env s"
| "cv_step L K s (env, CvWlBegin) = cv_wl_begin L env s"
| "cv_step L K s (env, CvWlEnd) = handleWakelocks_end env s"
| "cv_step L K s (env, CvStop) = stopThreads s"
| "cv_step L K s (env, CvNotify) = stop_notify s"
| "cv_step L K s (env, CvRestart) =
     (if joined s \<and> \<not> mThreadsRun s
      then (ev_step L K s (env, Restart))\<lparr>pw_cv := CvAwake, wl_cv := CvAwake\<rparr> else s)"
| "cv_step L K s (env, CvPwSleep) = (if pw_cv s = CvDecided then s\<lparr>pw_cv := CvAsleep\<rparr> else s)"
| "cv_step L K s (env, CvWlSleep) = (if wl_cv s = CvDecided then s\<lparr>wl_cv := CvAsleep\<rparr> else s)"
| "cv_step L K s (env, CvPwSpurious) = notify_pw s"
| "cv_step L K s (env, CvWlSpurious) = notify_wl s"

subsection \<open>The coarse steps\<close>

text \<open>
  The step of the theory on event delivery a step here stands for; sleeping, waking up and
  notifying are steps of the condition variables only.
\<close>

fun coarse :: "cv_op \<Rightarrow> ev_op option" where
  "coarse (CvPost evs n locked) = Some (Post evs n locked)"
| "coarse (CvIncrement d) = Some (WlIncrement d)"
| "coarse (CvDecrement d t) = Some (WlDecrement d t)"
| "coarse CvPwBegin = Some PwBegin"
| "coarse CvPwEnd = Some PwEnd"
| "coarse CvWlBegin = Some WlBegin"
| "coarse CvWlEnd = Some WlEnd"
| "coarse CvStop = Some Stop"
| "coarse CvRestart = Some Restart"
| "coarse _ = None"

abbreviation core :: "'a proxy_events_scheme \<Rightarrow> proxy_events" where
  "core \<equiv> proxy_events.truncate"

lemma core_simps [simp]:
  "mThreadsRun (core s) = mThreadsRun s"
  "mPendingWriteEventsQueue (core s) = mPendingWriteEventsQueue s"
  "mSizePendingWriteEventsQueue (core s) = mSizePendingWriteEventsQueue s"
  "mMostEventsObserved (core s) = mMostEventsObserved s"
  "mWakelockRefCount (core s) = mWakelockRefCount s"
  "mWakelockTimeoutStartTime (core s) = mWakelockTimeoutStartTime s"
  "mWakelockTimeoutResetTime (core s) = mWakelockTimeoutResetTime s"
  "mSensors (core s) = mSensors s" "pw_pc (core s) = pw_pc s" "wl_pc (core s) = wl_pc s"
  "event_flag (core s) = event_flag s" "wakelock_flag (core s) = wakelock_flag s"
  "proxy_out (core s) = proxy_out s"
  by (simp_all add: proxy_events.truncate_def)

lemma core_updates [simp]:
  "core (s\<lparr>mThreadsRun := a\<rparr>) = (core s)\<lparr>mThreadsRun := a\<rparr>"
  "core (s\<lparr>mPendingWriteEventsQueue := q\<rparr>) = (core s)\<lparr>mPendingWriteEventsQueue := q\<rparr>"
  "core (s\<lparr>mSizePendingWriteEventsQueue := n\<rparr>) = (core s)\<lparr>mSizePendingWriteEventsQueue := n\<rparr>"
  "core (s\<lparr>mMostEventsObserved := n\<rparr>) = (core s)\<lparr>mMostEventsObserved := n\<rparr>"
  "core (s\<lparr>mWakelockRefCount := n\<rparr>) = (core s)\<lparr>mWakelockRefCount := n\<rparr>"
  "core (s\<lparr>mWakelockTimeoutStartTime := t\<rparr>) = (core s)\<lparr>mWakelockTimeoutStartTime := t\<rparr>"
  "core (s\<lparr>mWakelockTimeoutResetTime := t\<rparr>) = (core s)\<lparr>mWakelockTimeoutResetTime := t\<rparr>"
  "core (s\<lparr>mSensors := m\<rparr>) = (core s)\<lparr>mSensors := m\<rparr>"
  "core (s\<lparr>pw_pc := c\<rparr>) = (core s)\<lparr>pw_pc := c\<rparr>" "core (s\<lparr>wl_pc := d\<rparr>) = (core s)\<lparr>wl_pc := d\<rparr>"
  "core (s\<lparr>event_flag := b\<rparr>) = (core s)\<lparr>event_flag := b\<rparr>"
  "core (s\<lparr>wakelock_flag := b\<rparr>) = (core s)\<lparr>wakelock_flag := b\<rparr>"
  "core (out_all os s) = out_all os (core s)"
  by (simp_all add: proxy_events.truncate_def out_all_def)

lemma core_cv [simp]:
  "core (t\<lparr>pw_cv := c\<rparr>) = core t" "core (t\<lparr>wl_cv := c\<rparr>) = core t"
  "core (notify_pw t) = core t" "core (notify_wl t) = core t"
  by (simp_all add: proxy_events.truncate_def notify_pw_def notify_wl_def)

text \<open>The operations of event delivery use nothing but the members they share.\<close>

lemma core_wakelock:
  "core (snd (incrementRefCountAndMaybeAcquireWakelock env d s)) =
     snd (incrementRefCountAndMaybeAcquireWakelock env d (core s))"
  "core (decrementRefCountAndMaybeReleaseWakelock d t s) =
     decrementRefCountAndMaybeReleaseWakelock d t (core s)"
  by (simp_all add: incrementRefCountAndMaybeAcquireWakelock_def
      decrementRefCountAndMaybeReleaseWakelock_def Let_def)

lemma core_reset: "core (resetSharedWakelock env s) = resetSharedWakelock env (core s)"
  by (simp add: resetSharedWakelock_def core_wakelock)

lemma core_count:
  "countNumWakeupEvents K es n (core s) = apsnd core (countNumWakeupEvents K es n s)"
proof (induction K es n s rule: countNumWakeupEvents.induct)
  case (1 K e es n s)
  obtain info m where m: "om_index SensorInfo_zero (ev_handle e) (mSensors s) = (info, m)"
    by fastforce
  from 1[OF m[symmetric] refl] show ?case
    by (simp add: m split: prod.splits)
qed simp_all

lemma core_drop: "core (drop_decrement K es w k s) = drop_decrement K es w k (core s)"
  by (simp add: drop_decrement_def core_wakelock core_count split: prod.splits)

lemma core_drop_size:
  "mSizePendingWriteEventsQueue (drop_decrement K es w k (core s)) =
     mSizePendingWriteEventsQueue (drop_decrement K es w k s)"
  by (simp flip: core_drop)

lemma core_post:
  "core (postEventsToMessageQueue L env evs n locked s) =
     postEventsToMessageQueue L env evs n locked (core s)"
proof -
  define t where "t = (if locked then snd (incrementRefCountAndMaybeAcquireWakelock env n s) else s)"
  define k where "k = num_to_write env evs t"
  have t: "core t = (if locked then snd (incrementRefCountAndMaybeAcquireWakelock env n (core s)) else core s)"
    by (simp add: t_def core_wakelock)
  have k: "num_to_write env evs (core t) = k"
    by (simp add: k_def num_to_write_def)
  show ?thesis
    unfolding postEventsToMessageQueue_def t_def[symmetric] t[symmetric] Let_def k k_def[symmetric]
    by (cases "k = 0"; cases "k < length evs") auto
qed

lemma core_threads:
  "core (handlePendingWrites_begin env s) = handlePendingWrites_begin env (core s)"
  "core (handlePendingWrites_end K env s) = handlePendingWrites_end K env (core s)"
  "core (handleWakelocks_begin L env s) = handleWakelocks_begin L env (core s)"
  "core (handleWakelocks_end env s) = handleWakelocks_end env (core s)"
  "core (stopThreads s) = stopThreads (core s)"
  "core (startThreads (makeFlags env (clearPending s))) =
     startThreads (makeFlags env (clearPending (core s)))"
  by (simp_all add: handlePendingWrites_begin_def handlePendingWrites_end_def
      handleWakelocks_begin_def handleWakelocks_end_def sharedWakelockDidTimeout_def
      stopThreads_def startThreads_def makeFlags_def clearPending_def core_drop core_reset
      core_drop_size core_wakelock Let_def split: list.split pending_pc.split wakelock_pc.split option.split)

lemma core_ev_step: "core (ev_step L K s ev) = ev_step L K (core s) ev"
  by (cases "(L, K, s, ev)" rule: ev_step.cases)
    (simp_all add: core_wakelock core_post core_threads core_reset joined_def)

text \<open>A step here is the coarse step it stands for, or changes the condition variables only.\<close>

lemma cv_step_core:
  "core (cv_step L K s (env, op)) = core s \<or>
   (\<exists>c. coarse op = Some c \<and> core (cv_step L K s (env, op)) = ev_step L K (core s) (env, c))"
proof (cases op)
  case (CvPost evs n locked)
  then show ?thesis
    by (auto simp: cv_post_def core_post Let_def)
next
  case CvPwBegin
  then show ?thesis
    by (auto simp: cv_pw_begin_def core_threads)
next
  case CvWlBegin
  then show ?thesis
    by (auto simp: cv_wl_begin_def core_threads)
next
  case CvRestart
  then show ?thesis
    using core_ev_step[of L K s "(env, Restart)"] by (auto simp: joined_def)
qed (auto simp: cv_increment_def cv_decrement_def cv_pw_end_def stop_notify_def core_threads
    core_wakelock Let_def)

definition coarse_ops :: "(ev_env \<times> cv_op) list \<Rightarrow> (ev_env \<times> ev_op) list" where
  "coarse_ops ops = concat (map (\<lambda>(env, op). case coarse op of None \<Rightarrow> [] | Some c \<Rightarrow> [(env, c)]) ops)"


subsection \<open>Stopping\<close>

lemma out_all_cv [simp]: "pw_cv (out_all os s) = pw_cv s" "wl_cv (out_all os s) = wl_cv s"
  by (simp_all add: out_all_def)

lemma wakelock_cv [simp]:
  "pw_cv (snd (incrementRefCountAndMaybeAcquireWakelock env d s)) = pw_cv s"
  "wl_cv (snd (incrementRefCountAndMaybeAcquireWakelock env d s)) = wl_cv s"
  "pw_cv (decrementRefCountAndMaybeReleaseWakelock d t s) = pw_cv s"
  "wl_cv (decrementRefCountAndMaybeReleaseWakelock d t s) = wl_cv s"
  by (simp_all add: incrementRefCountAndMaybeAcquireWakelock_def
      decrementRefCountAndMaybeReleaseWakelock_def Let_def)

lemma drop_cv [simp]:
  "pw_cv (drop_decrement K es w k s) = pw_cv s" "wl_cv (drop_decrement K es w k s) = wl_cv s"
  using countNumWakeupEvents_sensors[of K es k s] by (auto simp: drop_decrement_def split: prod.splits)

lemma delivery_cv [simp]:
  "pw_cv (postEventsToMessageQueue L env evs n locked s) = pw_cv s"
  "wl_cv (postEventsToMessageQueue L env evs n locked s) = wl_cv s"
  "pw_cv (handlePendingWrites_begin env s) = pw_cv s"
  "wl_cv (handlePendingWrites_begin env s) = wl_cv s"
  "pw_cv (handlePendingWrites_end K env s) = pw_cv s"
  "wl_cv (handlePendingWrites_end K env s) = wl_cv s"
  "pw_cv (handleWakelocks_begin L env s) = pw_cv s" "wl_cv (handleWakelocks_begin L env s) = wl_cv s"
  "pw_cv (handleWakelocks_end env s) = pw_cv s" "wl_cv (handleWakelocks_end env s) = wl_cv s"
  "pw_cv (stopThreads s) = pw_cv s" "wl_cv (stopThreads s) = wl_cv s"
  by (simp_all add: postEventsToMessageQueue_def handlePendingWrites_begin_def
      handlePendingWrites_end_def handleWakelocks_begin_def handleWakelocks_end_def
      resetSharedWakelock_def stopThreads_def Let_def
      split: list.split pending_pc.split wakelock_pc.split option.split prod.split bool.split)

lemma pending_inv_core: "pending_inv L (core s) = pending_inv L s"
  by (simp add: pending_inv_def)

lemma cv_step_pending: "pending_inv L s \<Longrightarrow> pending_inv L (cv_step L K s ev)"
  using cv_step_core[of L K s "fst ev" "snd ev"] ev_step_pending[of L "core s" K]
  by (metis pending_inv_core prod.collapse)

text \<open>The threads have been told to stop and are awake.\<close>

definition stopping :: "proxy_limits \<Rightarrow> cv_proxy \<Rightarrow> bool" where
  "stopping L s \<longleftrightarrow> \<not> mThreadsRun s \<and> pw_cv s = CvAwake \<and> wl_cv s = CvAwake \<and> pending_inv L s"

lemma stopped_cv_run:
  assumes "\<not> mThreadsRun s" and "snd ev \<noteq> CvRestart"
  shows "\<not> mThreadsRun (cv_step L K s ev)"
proof -
  have "\<not> mThreadsRun (ev_step L K (core s) (fst ev, c))" if "coarse (snd ev) = Some c" for c
  proof -
    have "c \<noteq> Restart"
      using that assms(2) by (cases "snd ev") auto
    with assms(1) stopped_step[of "core s" "(fst ev, c)" L K] show ?thesis
      by (simp add: same_lock_def)
  qed
  then show ?thesis
    using cv_step_core[of L K s "fst ev" "snd ev"] assms(1)
    by (metis core_simps(1) prod.collapse)
qed

lemma stopping_step: "stopping L s \<Longrightarrow> snd ev \<noteq> CvRestart \<Longrightarrow> stopping L (cv_step L K s ev)"
  using stopped_cv_run[of s ev L K] cv_step_pending[of L s K ev]
  by (cases "(L, K, s, ev)" rule: cv_step.cases)
    (auto simp: stopping_def cv_post_def cv_increment_def cv_decrement_def cv_pw_begin_def
      cv_pw_end_def cv_wl_begin_def stop_notify_def notify_pw_def notify_wl_def Let_def)

fun pw_rank :: "pending_pc \<Rightarrow> nat" where
  "pw_rank PwNotStarted = 0" | "pw_rank PwIdle = 1" | "pw_rank (PwWriting n w k) = 2" | "pw_rank PwDone = 0"

fun wl_rank :: "wakelock_pc \<Rightarrow> nat" where
  "wl_rank WlNotStarted = 0" | "wl_rank WlIdle = 1" | "wl_rank (WlReading t) = 2" | "wl_rank WlDone = 0"

lemma notify_pcs [simp]:
  "pw_pc (notify_pw s) = pw_pc s" "pw_pc (notify_wl s) = pw_pc s"
  "wl_pc (notify_pw s) = wl_pc s" "wl_pc (notify_wl s) = wl_pc s"
  by (simp_all add: notify_pw_def notify_wl_def)

lemma wakelock_pcs [simp]:
  "pw_pc (snd (incrementRefCountAndMaybeAcquireWakelock env d s)) = pw_pc s"
  "wl_pc (snd (incrementRefCountAndMaybeAcquireWakelock env d s)) = wl_pc s"
  "pw_pc (decrementRefCountAndMaybeReleaseWakelock d t s) = pw_pc s"
  "pw_pc (drop_decrement K es w k s) = pw_pc s"
  using drop_decrement_pending[of K es w k s]
  by (simp_all add: incrementRefCountAndMaybeAcquireWakelock_def same_pending_def
      decrementRefCountAndMaybeReleaseWakelock_def Let_def)

lemma delivery_pcs [simp]:
  "pw_pc (postEventsToMessageQueue L env evs n locked s) = pw_pc s"
  "wl_pc (postEventsToMessageQueue L env evs n locked s) = wl_pc s"
  "wl_pc (handlePendingWrites_begin env s) = wl_pc s"
  "wl_pc (handlePendingWrites_end K env s) = wl_pc s"
  "pw_pc (handleWakelocks_begin L env s) = pw_pc s" "pw_pc (handleWakelocks_end env s) = pw_pc s"
  "pw_pc (stopThreads s) = pw_pc s" "wl_pc (stopThreads s) = wl_pc s"
  using wakelock_threads_pending(1)[of L env s] wakelock_threads_pending(2)[of env s]
  by (simp_all add: postEventsToMessageQueue_def handlePendingWrites_begin_def same_pending_def
      handlePendingWrites_end_def stopThreads_def Let_def split: list.split pending_pc.split)

lemmas cv_defs =
  cv_post_def cv_increment_def cv_decrement_def cv_pw_begin_def cv_pw_end_def cv_wl_begin_def
  stop_notify_def Let_def

lemma stopping_pw:
  assumes "stopping L s"
  shows "pw_rank (pw_pc (handlePendingWrites_end K env s)) \<le> 1"
    and "pw_rank (pw_pc (handlePendingWrites_end K env s)) \<le> pw_rank (pw_pc s)"
    and "pw_rank (pw_pc (handlePendingWrites_begin env s)) =
      (if pw_pc s = PwIdle then 0 else pw_rank (pw_pc s))"
proof -
  show "pw_rank (pw_pc (handlePendingWrites_begin env s)) =
      (if pw_pc s = PwIdle then 0 else pw_rank (pw_pc s))"
    using assms by (simp add: handlePendingWrites_begin_def stopping_def)
  have "pw_rank (pw_pc (handlePendingWrites_end K env s)) \<le> min 1 (pw_rank (pw_pc s))"
    using assms
    by (cases "pw_pc s"; cases "mPendingWriteEventsQueue s")
      (auto simp: handlePendingWrites_end_def stopping_def pending_inv_def Let_def)
  then show "pw_rank (pw_pc (handlePendingWrites_end K env s)) \<le> 1"
    "pw_rank (pw_pc (handlePendingWrites_end K env s)) \<le> pw_rank (pw_pc s)" by simp_all
qed

lemma stopping_wl:
  assumes "stopping L s"
  shows "wl_rank (wl_pc (handleWakelocks_end env s)) = min 1 (wl_rank (wl_pc s))"
    and "wl_rank (wl_pc (handleWakelocks_begin L' env s)) =
      (if wl_pc s = WlIdle then 0 else wl_rank (wl_pc s))"
  using assms
  by (cases "wl_pc s"; cases "readBlocking env"; simp add: handleWakelocks_end_def)
    (use assms in \<open>simp add: handleWakelocks_begin_def stopping_def\<close>)

interpretation writer: winding_down "cv_step L K" "stopping L" snd "\<lambda>op. op \<noteq> CvRestart"
  CvPwEnd CvPwBegin "\<lambda>s. pw_rank (pw_pc s)" for L K
proof unfold_locales
  fix s :: cv_proxy and e :: "ev_env \<times> cv_op"
  assume s: "stopping L s"
  show "snd e \<noteq> CvRestart \<Longrightarrow> stopping L (cv_step L K s e)"
    by (rule stopping_step[OF s])
  show "snd e \<noteq> CvRestart \<Longrightarrow> pw_rank (pw_pc (cv_step L K s e)) \<le> pw_rank (pw_pc s)"
    using stopping_pw[OF s]
    by (cases "(L, K, s, e)" rule: cv_step.cases) (auto simp: cv_defs)
  show "snd e = CvPwEnd \<Longrightarrow> pw_rank (pw_pc (cv_step L K s e)) \<le> 1"
    using stopping_pw(1)[OF s] s by (cases e) (simp add: cv_defs stopping_def)
  show "snd e = CvPwBegin \<Longrightarrow> pw_rank (pw_pc s) \<le> 1 \<Longrightarrow> pw_rank (pw_pc (cv_step L K s e)) = 0"
    using stopping_pw(3)[OF s, of "fst e"] s
    by (cases e; cases "pw_pc s") (simp_all add: cv_defs stopping_def)
qed

interpretation wakelocker: winding_down "cv_step L K" "stopping L" snd "\<lambda>op. op \<noteq> CvRestart"
  CvWlEnd CvWlBegin "\<lambda>s. wl_rank (wl_pc s)" for L K
proof unfold_locales
  fix s :: cv_proxy and e :: "ev_env \<times> cv_op"
  assume s: "stopping L s"
  show "snd e \<noteq> CvRestart \<Longrightarrow> stopping L (cv_step L K s e)"
    by (rule stopping_step[OF s])
  show "snd e \<noteq> CvRestart \<Longrightarrow> wl_rank (wl_pc (cv_step L K s e)) \<le> wl_rank (wl_pc s)"
    using stopping_wl[OF s]
    by (cases "(L, K, s, e)" rule: cv_step.cases) (auto simp: cv_defs)
  show "snd e = CvWlEnd \<Longrightarrow> wl_rank (wl_pc (cv_step L K s e)) \<le> 1"
    using stopping_wl(1)[OF s] by (cases e) simp
  show "snd e = CvWlBegin \<Longrightarrow> wl_rank (wl_pc s) \<le> 1 \<Longrightarrow> wl_rank (wl_pc (cv_step L K s e)) = 0"
    using stopping_wl(2)[OF s, of L "fst e"] s
    by (cases e; cases "wl_pc s") (simp_all add: cv_defs stopping_def)
qed

lemma rank_joined: "joined s \<longleftrightarrow> pw_rank (pw_pc s) = 0 \<and> wl_rank (wl_pc s) = 0"
  by (cases "pw_pc s"; cases "wl_pc s") (simp_all add: joined_def)

text \<open>
  C13. Stopping ends the threads. If, when \<open>stopThreads\<close> notifies, neither thread is between the
  test of its predicate and its sleep, then both have left their loops once each has returned
  from the blocking call it may be in and evaluated its loop again, whatever else happens
  meanwhile: posts, scoped wakelocks, spurious wake-ups. Then \<open>join\<close> returns.
\<close>

theorem stop_terminates:
  assumes "pending_inv L s" and "\<not> mThreadsRun s" and "pw_cv s \<noteq> CvDecided" "wl_cv s \<noteq> CvDecided"
    and "CvRestart \<notin> set (map snd ops)"
    and "subseq [CvPwEnd, CvPwBegin] (map snd ops)" "subseq [CvWlEnd, CvWlBegin] (map snd ops)"
  shows "joined (foldl (cv_step L K) s ((env, CvNotify) # ops))"
proof -
  let ?s = "cv_step L K s (env, CvNotify)"
  have st: "stopping L ?s"
    using assms(1-4) by (cases "pw_cv s"; cases "wl_cv s")
      (simp_all add: stopping_def stop_notify_def notify_pw_def notify_wl_def pending_inv_def)
  have al: "list_all (\<lambda>op. op \<noteq> CvRestart) (map snd ops)"
    using assms(5) by (force simp: list_all_iff)
  show ?thesis
    using writer.wound_down[OF st al assms(6), of K] wakelocker.wound_down[OF st al assms(7), of K]
    by (simp add: rank_joined)
qed

definition cv_example :: cv_proxy where
  "cv_example = proxy_events.extend idle_proxy (cv_proxy.fields CvAwake CvAwake)"

lemma cv_example_simps [simp]:
  "pw_cv cv_example = CvAwake" "wl_cv cv_example = CvAwake" "mThreadsRun cv_example"
  "pw_pc cv_example = PwIdle" "wl_pc cv_example = WlIdle" "mPendingWriteEventsQueue cv_example = []"
  "mWakelockRefCount cv_example = 0" "pending_inv limits_example cv_example"
  by (simp_all add: cv_example_def proxy_events.defs cv_proxy.defs idle_proxy_def pending_inv_def
      pending_total_def)

theorem stop_terminates_witness:
  "joined (foldl (cv_step limits_example android_consts) (stopThreads cv_example)
     ((ev_example 1 0, CvNotify) # map (Pair (ev_example 2 0)) [CvPwEnd, CvWlEnd, CvWlBegin, CvPwBegin]))"
proof -
  have "pending_inv limits_example (stopThreads cv_example)"
    using cv_step_pending[of limits_example cv_example android_consts "(ev_example 1 0, CvStop)"] by simp
  from stop_terminates[OF this, of "map (Pair (ev_example 2 0)) [CvPwEnd, CvWlEnd, CvWlBegin, CvPwBegin]"
      android_consts "ev_example 1 0"]
  show ?thesis by (simp add: stopThreads_def Let_def)
qed

text \<open>
  What keeps a sleeping writer asleep once the threads are told to stop: only a notification, a
  spurious wake-up or a post that was past the check of \<open>areThreadsRunning\<close> before the stop.
\<close>

fun cv_wakes :: "cv_op \<Rightarrow> bool" where
  "cv_wakes CvNotify = True"
| "cv_wakes CvPwSpurious = True"
| "cv_wakes (CvPost evs n locked) = True"
| "cv_wakes CvRestart = True"
| "cv_wakes _ = False"

definition overslept :: "cv_proxy \<Rightarrow> bool" where
  "overslept s \<longleftrightarrow> \<not> mThreadsRun s \<and> pw_cv s \<noteq> CvAwake \<and> pw_pc s = PwIdle"

lemma overslept_step:
  assumes "overslept s" and "\<not> cv_wakes (snd ev)"
  shows "overslept (cv_step L K s ev)"
proof -
  have "snd ev \<noteq> CvRestart" using assms(2) by auto
  then have "\<not> mThreadsRun (cv_step L K s ev)"
    using stopped_cv_run assms(1) by (simp add: overslept_def)
  then show ?thesis
    using assms
    by (cases "(L, K, s, ev)" rule: cv_step.cases)
      (auto simp: overslept_def cv_defs notify_wl_def handlePendingWrites_end_def)
qed

text \<open>
  A stop can be missed: \<open>stopThreads\<close> clears \<open>mThreadsRun\<close> and notifies without the mutex of
  the writer. If the writer has just found its queue empty and has not yet gone to sleep, the
  notification is lost, and the writer sleeps although it should end. No later step of the proxy
  wakes it, so \<open>join\<close>, and with it \<open>initialize\<close> or the destructor, does not return.
\<close>

theorem stop_can_hang:
  assumes "mThreadsRun s" and "pw_pc s = PwIdle" "pw_cv s = CvAwake" "mPendingWriteEventsQueue s = []"
    and "\<forall>op \<in> set (map snd ops). \<not> cv_wakes op"
  shows "\<not> joined (foldl (cv_step L K) s
    (map (Pair env) [CvPwBegin, CvStop, CvNotify, CvPwSleep] @ ops))"
proof -
  let ?s = "foldl (cv_step L K) s (map (Pair env) [CvPwBegin, CvStop, CvNotify, CvPwSleep])"
  have "overslept ?s"
    using assms(1-4)
    by (simp add: overslept_def cv_defs notify_pw_def notify_wl_def stopThreads_def)
  then have "overslept (foldl (cv_step L K) ?s ops)"
    using assms(5)
  proof (induction ops rule: rev_induct)
    case (snoc ev ops)
    then show ?case using overslept_step[of _ ev L K] by simp
  qed simp
  then show ?thesis by (simp add: joined_def overslept_def)
qed

theorem stop_can_hang_witness:
  "\<not> joined (foldl (cv_step limits_example android_consts) cv_example
     (map (Pair (ev_example 1 0)) [CvPwBegin, CvStop, CvNotify, CvPwSleep] @
      map (Pair (ev_example 2 0)) [CvPwEnd, CvPwBegin, CvWlBegin, CvIncrement 1, CvPwBegin]))"
  using stop_can_hang[of cv_example "map (Pair (ev_example 2 0)) [CvPwEnd, CvPwBegin, CvWlBegin, CvIncrement 1, CvPwBegin]"
      limits_example android_consts "ev_example 1 0"]
  by (simp del: foldl_Cons foldl_append)

end
