(* ===== verification/HalRuns.thy ===== *)
theory HalRuns
  imports HalProxy
begin

text \<open>
  The proxy as a whole: every call of the framework, every callback of a sub-HAL and every step
  of the proxy's threads (\<^verbatim>\<open>src/hidl/sensors/HalProxy.cpp\<close>) is a step of one transition
  function, and \<open>proxy_wf\<close> is the invariant of the object through any sequence of them.
\<close>

subsection \<open>Steps\<close>

datatype proxy_op =
    PSetOperationMode OperationMode | PActivate i32 bool | PBatch i32 i64 i64 | PFlush i32
  | PInject Event | PRegisterDirectChannel | PUnregisterDirectChannel i32
  | PConfigDirectReport i32 i32 int | PConnected "SensorInfo list" nat
  | PDisconnected "i32 list" nat | PInitialize nat nat "nat option"
  | PInitialize_2_1 nat nat "nat option" | PEvents ev_op

text \<open>What the proxy's surroundings are: the sub-HALs, the constants of the HAL, the conversion.\<close>

record 'h proxy_world =
  w_limits :: proxy_limits
  w_ops :: "'h sub_hal_ops"
  w_consts :: sensor_consts
  w_mask :: i32
  w_stop :: int
  w_convert :: "Event \<Rightarrow> Event"

fun proxy_step :: "'h proxy_world \<Rightarrow> 'h proxy \<Rightarrow> ev_env \<times> proxy_op \<Rightarrow> 'h proxy" where
  "proxy_step W s (env, PSetOperationMode m) = snd (setOperationMode (w_ops W) m s)"
| "proxy_step W s (env, PActivate h b) = snd (activate (w_ops W) (w_mask W) h b s)"
| "proxy_step W s (env, PBatch h p l) = snd (batch (w_ops W) (w_mask W) h p l s)"
| "proxy_step W s (env, PFlush h) = snd (flush (w_ops W) (w_mask W) h s)"
| "proxy_step W s (env, PInject e) =
     snd (injectSensorData (w_ops W) (w_consts W) (w_mask W) (w_convert W) e s)"
| "proxy_step W s (env, PRegisterDirectChannel) = snd (registerDirectChannel (w_ops W) s)"
| "proxy_step W s (env, PUnregisterDirectChannel c) = snd (unregisterDirectChannel (w_ops W) c s)"
| "proxy_step W s (env, PConfigDirectReport h c r) =
     snd (configDirectReport (w_ops W) (w_mask W) (w_stop W) h c r s)"
| "proxy_step W s (env, PConnected ds i) = onDynamicSensorsConnected (w_mask W) ds i s"
| "proxy_step W s (env, PDisconnected hs i) = onDynamicSensorsDisconnected (w_mask W) hs i s"
| "proxy_step W s (env, PInitialize e w cb) =
     snd (initialize (w_limits W) (w_ops W) (w_consts W) (w_mask W) env e w cb s)"
| "proxy_step W s (env, PInitialize_2_1 e w cb) =
     snd (initialize_2_1 (w_limits W) (w_ops W) (w_consts W) (w_mask W) env e w cb s)"
| "proxy_step W s (env, PEvents e) =
     (if e \<in> {Stop, Restart} then s else ev_step (w_limits W) (w_consts W) s (env, e))"

subsection \<open>The invariant\<close>

text \<open>
  The maps are ordered, every dynamic sensor is stored under its own handle, the sub-HALs are
  the \<open>n\<close> that were loaded, and the sub-HAL for direct channels is one of them.
\<close>

definition keyed :: "SensorInfo omap \<Rightarrow> bool" where
  "keyed m \<longleftrightarrow> om_sorted m \<and> (\<forall>(k, info) \<in> set m. sensorHandle info = k)"

definition proxy_wf :: "proxy_limits \<Rightarrow> nat \<Rightarrow> 'h proxy \<Rightarrow> bool" where
  "proxy_wf L n s \<longleftrightarrow> pending_inv L s \<and> om_sorted (mSensors s) \<and> keyed (mDynamicSensors s) \<and>
     length (mSubHalList s) = n \<and> (\<forall>i. mDirectChannelSubHal s = Some i \<longrightarrow> i < n)"

subsection \<open>What the steps of event delivery leave alone\<close>

lemma proxy_more:
  assumes "proxy_events.more s' = proxy_events.more (s :: 'h proxy)"
  shows "mSubHalList s' = mSubHalList s" "mDynamicSensors s' = mDynamicSensors s"
    "mDirectChannelSubHal s' = mDirectChannelSubHal s"
  using assms by (cases s; cases s'; simp)+

lemma out_all_more [simp]: "proxy_events.more (out_all os s) = proxy_events.more s"
  by (simp add: out_all_def)

lemma wakelock_more [simp]:
  "proxy_events.more (snd (incrementRefCountAndMaybeAcquireWakelock env d s)) = proxy_events.more s"
  "proxy_events.more (decrementRefCountAndMaybeReleaseWakelock d t s) = proxy_events.more s"
  "proxy_events.more (resetSharedWakelock env s) = proxy_events.more s"
  by (simp_all add: incrementRefCountAndMaybeAcquireWakelock_def resetSharedWakelock_def
      decrementRefCountAndMaybeReleaseWakelock_def Let_def)

lemma drop_more [simp]: "proxy_events.more (drop_decrement K es w k s) = proxy_events.more s"
  using countNumWakeupEvents_sensors[of K es k s] by (auto simp: drop_decrement_def split: prod.splits)

lemma ev_more: "proxy_events.more (ev_step L K s ev) = proxy_events.more s"
  by (cases "(L, K, s, ev)" rule: ev_step.cases)
    (simp_all add: postEventsToMessageQueue_def handlePendingWrites_begin_def
      handlePendingWrites_end_def handleWakelocks_begin_def handleWakelocks_end_def stopThreads_def
      startThreads_def makeFlags_def clearPending_def Let_def
      split: list.split pending_pc.split wakelock_pc.split option.split prod.split bool.split)

lemma om_index_sorted: "om_sorted m \<Longrightarrow> om_sorted (snd (om_index d k m))"
  by (simp add: om_index_def om_sorted_put split: option.split)

lemma count_sorted:
  "om_sorted (mSensors s) \<Longrightarrow> om_sorted (mSensors (snd (countNumWakeupEvents K es n s)))"
proof (induction K es n s rule: countNumWakeupEvents.induct)
  case (1 K e es n s)
  obtain info m where m: "om_index SensorInfo_zero (ev_handle e) (mSensors s) = (info, m)"
    by fastforce
  then have "om_sorted m" using om_index_sorted[OF "1.prems", of SensorInfo_zero "ev_handle e"] by simp
  with 1(1)[OF m[symmetric] refl] show ?case
    by (auto simp: m split: prod.splits)
qed simp_all

lemma wakelock_sensors [simp]:
  "mSensors (snd (incrementRefCountAndMaybeAcquireWakelock env d s)) = mSensors s"
  "mSensors (decrementRefCountAndMaybeReleaseWakelock d t s) = mSensors s"
  by (simp_all add: incrementRefCountAndMaybeAcquireWakelock_def
      decrementRefCountAndMaybeReleaseWakelock_def Let_def)

lemma drop_sorted: "om_sorted (mSensors s) \<Longrightarrow> om_sorted (mSensors (drop_decrement K es w k s))"
  using count_sorted[of s K es k] by (auto simp: drop_decrement_def split: prod.splits)

lemma pw_end_sorted:
  "om_sorted (mSensors s) \<Longrightarrow> om_sorted (mSensors (handlePendingWrites_end K env s))"
  by (simp add: handlePendingWrites_end_def drop_sorted Let_def split: list.split pending_pc.split)

lemma ev_sorted: "om_sorted (mSensors s) \<Longrightarrow> om_sorted (mSensors (ev_step L K s ev))"
  by (cases "(L, K, s, ev)" rule: ev_step.cases)
    (simp_all add: postEventsToMessageQueue_def handlePendingWrites_begin_def pw_end_sorted
      handleWakelocks_begin_def handleWakelocks_end_def stopThreads_def resetSharedWakelock_def
      startThreads_def makeFlags_def clearPending_def Let_def
      split: list.split wakelock_pc.split option.split prod.split bool.split)

lemma ev_step_wf: "proxy_wf L n s \<Longrightarrow> proxy_wf L n (ev_step L K s ev)"
  by (simp add: proxy_wf_def ev_step_pending ev_sorted proxy_more[OF ev_more])

lemma ev_run_wf: "proxy_wf L n s \<Longrightarrow> proxy_wf L n (foldl (ev_step L K) s evs)"
  by (induction evs arbitrary: s) (simp_all add: ev_step_wf)

subsection \<open>The calls keep the invariant\<close>

lemma wf_subs: "proxy_wf L n s \<Longrightarrow> length hs = n \<Longrightarrow> proxy_wf L n (s\<lparr>mSubHalList := hs\<rparr>)"
  by (simp add: proxy_wf_def pending_inv_def)

lemma wf_mode: "proxy_wf L n (s\<lparr>mCurrentOperationMode := m\<rparr>) = proxy_wf L n s"
  by (simp add: proxy_wf_def pending_inv_def)

lemma on_sub_hal_wf: "proxy_wf L n s \<Longrightarrow> proxy_wf L n (snd (on_sub_hal i f s))"
  using on_sub_hal_list[of i f s] wf_subs[of L n s] by (auto simp: proxy_wf_def)

lemma set_modes_length: "length (snd (snd (set_modes ops m hs))) = length hs"
  by (induction hs) (auto simp: Let_def split: prod.splits)

lemma set_modes_index: "fst (snd (set_modes ops m hs)) \<le> length hs"
  by (induction hs) (auto simp: Let_def split: prod.splits)

lemma setOperationMode_wf: "proxy_wf L n s \<Longrightarrow> proxy_wf L n (snd (setOperationMode ops m s))"
proof -
  assume wf: "proxy_wf L n s"
  obtain r i hs where e: "set_modes ops m (mSubHalList s) = (r, i, hs)"
    by (cases "set_modes ops m (mSubHalList s)")
  have "length hs = n" "i \<le> length hs"
    using set_modes_length[of ops m "mSubHalList s"] set_modes_index[of ops m "mSubHalList s"] e wf
    by (simp_all add: proxy_wf_def)
  then show ?thesis
    using wf_subs[OF wf] wf_mode[of L n m "s\<lparr>mSubHalList := hs\<rparr>"]
    by (simp add: setOperationMode_def e)
qed

lemma routed_wf:
  assumes "proxy_wf L n s"
  shows "proxy_wf L n (snd (activate ops M h b s))" "proxy_wf L n (snd (batch ops M h p l s))"
    "proxy_wf L n (snd (flush ops M h s))" "proxy_wf L n (snd (injectSensorData ops K M conv e s))"
    "proxy_wf L n (snd (registerDirectChannel ops s))"
    "proxy_wf L n (snd (unregisterDirectChannel ops c s))"
    "proxy_wf L n (snd (configDirectReport ops M st h c r s))"
  using assms
  by (simp_all add: activate_def batch_def flush_def injectSensorData_def registerDirectChannel_def
      unregisterDirectChannel_def configDirectReport_def on_sub_hal_wf Let_def split: option.split)

lemma keyed_put: "keyed m \<Longrightarrow> sensorHandle info = k \<Longrightarrow> keyed (om_put k info m)"
  using om_put_set[of k info m] by (auto simp: keyed_def om_sorted_put)

lemma keyed_erase: "keyed m \<Longrightarrow> keyed (om_erase k m)"
  using om_sorted_erase[of m k] by (auto simp: keyed_def om_erase_def)

lemma connect_keyed: "keyed (fst acc) \<Longrightarrow> keyed (fst (foldl (connect_one M i) acc ds))"
  by (induction ds arbitrary: acc) (simp_all add: connect_one_def keyed_put Let_def)

lemma disconnect_keyed: "keyed (fst acc) \<Longrightarrow> keyed (fst (foldl (disconnect_one M i) acc hs))"
  by (induction hs arbitrary: acc) (simp_all add: disconnect_one_def keyed_erase Let_def)

lemma dynamic_wf:
  assumes "proxy_wf L n s"
  shows "proxy_wf L n (onDynamicSensorsConnected M ds i s)"
    "proxy_wf L n (onDynamicSensorsDisconnected M hs i s)"
  using assms connect_keyed[of "(mDynamicSensors s, [])" M i ds]
    disconnect_keyed[of "(mDynamicSensors s, [])" M i hs]
  by (auto simp: proxy_wf_def pending_inv_def onDynamicSensorsConnected_def
      onDynamicSensorsDisconnected_def split: prod.splits)

lemma reset_wf: "proxy_wf L n (resetSharedWakelock env s) = proxy_wf L n s"
  unfolding proxy_wf_def pending_inv_same[OF reset_pending] proxy_more[OF wakelock_more(3)]
  by (simp add: resetSharedWakelock_def)

lemma initializeCommon_wf:
  assumes "proxy_wf L n s"
  shows "proxy_wf L n (snd (initializeCommon L ops K M env eq wq cb s))"
proof -
  have "proxy_wf L n (join_threads L K env (ev_step L K s (env, Stop)))"
    unfolding join_threads_def by (rule ev_run_wf[OF ev_step_wf[OF assms]])
  then have "proxy_wf L n (resetSharedWakelock env (join_threads L K env (stopThreads s)))"
    by (simp add: reset_wf)
  then obtain t where t: "proxy_wf L n t"
    "t = disableAllSensors ops M (resetSharedWakelock env (join_threads L K env (stopThreads s)))"
    using disableAllSensors_list wf_subs by (metis proxy_wf_def)
  obtain f hs where f: "initialize_subs ops 0 (mSubHalList t) = (f, hs)" by fastforce
  have "length hs = n"
    using initialize_subs_spec[OF f] t(1) by (simp add: proxy_wf_def)
  then show ?thesis
    using t(1) f
    by (simp add: initializeCommon_def t(2)[symmetric] Let_def startThreads_def makeFlags_def
        clearPending_def proxy_wf_def pending_inv_def pending_total_def keyed_def om_empty_def om_sorted_def)
qed

lemma proxy_step_wf: "proxy_wf (w_limits W) n s \<Longrightarrow> proxy_wf (w_limits W) n (proxy_step W s ev)"
  by (cases "(W, s, ev)" rule: proxy_step.cases)
    (simp_all add: setOperationMode_wf routed_wf dynamic_wf initialize_def initialize_2_1_def
      initializeCommon_wf ev_step_wf Let_def)

interpretation proxy_runs: op_system "proxy_step W" "proxy_wf (w_limits W) n" for W n
  by unfold_locales (rule proxy_step_wf)

subsection \<open>Construction\<close>

lemma add_sensor_wf: "proxy_wf L n s \<Longrightarrow> i < n \<Longrightarrow> proxy_wf L n (add_sensor K M i s d)"
  by (auto simp: add_sensor_def setDirectChannelFlags_def proxy_wf_def pending_inv_def om_sorted_put Let_def)

lemma add_sensors_wf: "proxy_wf L n s \<Longrightarrow> i < n \<Longrightarrow> proxy_wf L n (foldl (add_sensor K M i) s ds)"
  by (induction ds arbitrary: s) (simp_all add: add_sensor_wf)

lemma load_subs_wf:
  "proxy_wf L n s \<Longrightarrow> \<forall>i \<in> set is. i < n \<Longrightarrow> proxy_wf L n (foldl (load_sub ops K M) s is)"
  by (induction "is" arbitrary: s) (simp_all add: load_sub_def add_sensors_wf split: option.split)

lemma initializeSensorList_wf: "proxy_wf L n s \<Longrightarrow> proxy_wf L n (initializeSensorList ops K M s)"
  using load_subs_wf[of L n s "[0..<length (mSubHalList s)]" ops K M]
  by (simp add: initializeSensorList_def load_sub_def[abs_def] proxy_wf_def)

text \<open>The sub-HALs a configuration file names: those that load, in its order.\<close>

definition configured :: "('h, 'lib) lib_env \<Rightarrow> string option \<Rightarrow> 'h list" where
  "configured E config = (case config of None \<Rightarrow> [] | Some text \<Rightarrow> concat (map (load_sub_hal E) (config_words text)))"

lemma load_files:
  "foldl (\<lambda>s file. s\<lparr>mSubHalList := mSubHalList s @ load_sub_hal E file\<rparr>) s files =
     s\<lparr>mSubHalList := mSubHalList s @ concat (map (load_sub_hal E) files)\<rparr>"
  by (induction files arbitrary: s) simp_all

lemma initializeSubHalList_eq:
  "initializeSubHalListFromConfigFile E config s =
     s\<lparr>mSubHalList := mSubHalList s @ configured E config\<rparr>"
  by (simp add: initializeSubHalListFromConfigFile_def configured_def load_files split: option.split)

text \<open>An object as the class definition initialises it.\<close>

definition fresh_proxy :: "proxy_limits \<Rightarrow> 'h proxy \<Rightarrow> bool" where
  "fresh_proxy L s \<longleftrightarrow> pending_inv L s \<and> mSubHalList s = [] \<and> mSensors s = om_empty \<and>
     mDynamicSensors s = om_empty \<and> mDirectChannelSubHal s = None"

lemma HalProxy_ctor_wf:
  "fresh_proxy L s \<Longrightarrow> proxy_wf L (length (configured E config)) (HalProxy_ctor E ops K M config s)"
  unfolding HalProxy_ctor_def HalProxy_init_def
  by (rule initializeSensorList_wf)
    (simp add: initializeSubHalList_eq fresh_proxy_def proxy_wf_def pending_inv_def keyed_def
      om_empty_def om_sorted_def)


definition world_example :: "(OperationMode \<times> bool) proxy_world" where
  "world_example = \<lparr>w_limits = limits_example, w_ops = picky_ops, w_consts = android_consts,
     w_mask = 0xFF000000, w_stop = 0, w_convert = id\<rparr>"

definition lib_example :: "(OperationMode \<times> bool, string) lib_env" where
  "lib_example = \<lparr>dlopen = (\<lambda>f. if f = ''/vendor/lib64/hw/a.so'' then Some f else None),
     sensorsHalGetSubHal = (\<lambda>l. None), sensorsHalGetSubHal_2_1 = (\<lambda>l. Some ((NORMAL, False), 7)),
     SUB_HAL_2_0_VERSION = 6, SUB_HAL_2_1_VERSION = 7\<rparr>"


end
