(* ===== verification/HalFaults.thy ===== *)
theory HalFaults
  imports HalRuns
begin

text \<open>
  Null pointers in the proxy (\<^verbatim>\<open>src/hidl/sensors/HalProxy.cpp\<close>).

  Four members of \<open>HalProxy\<close> are pointers that only \<open>initializeCommon\<close> sets: the two message
  queues, the event flag of the event queue and the wrapper of the framework's callback, which
  itself holds a pointer. \<open>step_faults\<close> says which step dereferences one that is null, and
  \<open>proxy_try\<close> is the step with that fault as \<open>None\<close>.
\<close>

subsection \<open>Faults\<close>

definition callback_null :: "'h proxy \<Rightarrow> bool" where
  "callback_null s \<longleftrightarrow> (case mDynamicSensorsCallback s of Some (api, Some cb) \<Rightarrow> False | _ \<Rightarrow> True)"

definition post_faults :: "ev_env \<Rightarrow> Event list \<Rightarrow> 'h proxy \<Rightarrow> bool" where
  "post_faults env events s \<longleftrightarrow>
     mPendingWriteEventsQueue s = [] \<and>
     (mEventQueue s = None \<or> num_to_write env events s > 0 \<and> \<not> event_flag s)"

definition pending_writes_faults :: "'h proxy \<Rightarrow> bool" where
  "pending_writes_faults s \<longleftrightarrow>
     pw_pc s = PwIdle \<and> mThreadsRun s \<and> mPendingWriteEventsQueue s \<noteq> [] \<and> mEventQueue s = None"

definition wakelocks_faults :: "proxy_limits \<Rightarrow> ev_env \<Rightarrow> 'h proxy \<Rightarrow> bool" where
  "wakelocks_faults L env s \<longleftrightarrow>
     wl_pc s = WlIdle \<and> mThreadsRun s \<and> mWakelockRefCount s > 0 \<and>
     \<not> fst (sharedWakelockDidTimeout L env s) \<and> mWakeLockQueue s = None"

fun step_faults :: "proxy_limits \<Rightarrow> 'h proxy \<Rightarrow> ev_env \<times> proxy_op \<Rightarrow> bool" where
  "step_faults L s (env, PEvents (Post events n locked)) \<longleftrightarrow> post_faults env events s"
| "step_faults L s (env, PEvents PwBegin) \<longleftrightarrow> pending_writes_faults s"
| "step_faults L s (env, PEvents WlBegin) \<longleftrightarrow> wakelocks_faults L env s"
| "step_faults L s (env, PConnected ds i) \<longleftrightarrow> callback_null s"
| "step_faults L s (env, PDisconnected hs i) \<longleftrightarrow> callback_null s"
| "step_faults L s _ \<longleftrightarrow> False"

definition proxy_try :: "'h proxy_world \<Rightarrow> 'h proxy \<Rightarrow> ev_env \<times> proxy_op \<Rightarrow> 'h proxy option" where
  "proxy_try W s ev = (if step_faults (w_limits W) s ev then None else Some (proxy_step W s ev))"

fun proxy_try_run :: "'h proxy_world \<Rightarrow> 'h proxy \<Rightarrow> (ev_env \<times> proxy_op) list \<Rightarrow> 'h proxy option" where
  "proxy_try_run W s [] = Some s"
| "proxy_try_run W s (ev # evs) = Option.bind (proxy_try W s ev) (\<lambda>s. proxy_try_run W s evs)"

subsection \<open>Only an initialisation sets the pointers\<close>

type_synonym pointers =
  "(hidl_api \<times> message_queue) option \<times> message_queue option \<times> (hidl_api \<times> nat option) option \<times> bool"

definition pointers :: "'h proxy \<Rightarrow> pointers" where
  "pointers s = (mEventQueue s, mWakeLockQueue s, mDynamicSensorsCallback s, event_flag s)"

fun is_initialize :: "proxy_op \<Rightarrow> bool" where
  "is_initialize (PInitialize e w cb) \<longleftrightarrow> True"
| "is_initialize (PInitialize_2_1 e w cb) \<longleftrightarrow> True"
| "is_initialize _ \<longleftrightarrow> False"

lemma more_pointers:
  assumes "proxy_events.more s' = proxy_events.more s" and "event_flag s' = event_flag s"
  shows "pointers s' = pointers s"
  using assms by (cases s; cases s') (simp add: pointers_def)

lemma wakelock_event_flag [simp]:
  "event_flag (snd (incrementRefCountAndMaybeAcquireWakelock env d s)) = event_flag s"
  "event_flag (decrementRefCountAndMaybeReleaseWakelock d t s) = event_flag s"
  "event_flag (resetSharedWakelock env s) = event_flag s"
  by (simp_all add: incrementRefCountAndMaybeAcquireWakelock_def resetSharedWakelock_def
      decrementRefCountAndMaybeReleaseWakelock_def Let_def)

lemma count_event_flag [simp]: "event_flag (snd (countNumWakeupEvents K es n s)) = event_flag s"
  by (induction K es n s rule: countNumWakeupEvents.induct) (auto simp: Let_def split: prod.splits)

lemma drop_event_flag [simp]: "event_flag (drop_decrement K es w k s) = event_flag s"
  by (simp add: drop_decrement_def case_prod_beta)

lemma ev_event_flag: "snd ev \<noteq> Restart \<Longrightarrow> event_flag (ev_step L K s ev) = event_flag s"
  by (cases "(L, K, s, ev)" rule: ev_step.cases)
    (simp_all add: postEventsToMessageQueue_def handlePendingWrites_begin_def
      handlePendingWrites_end_def handleWakelocks_begin_def handleWakelocks_end_def stopThreads_def
      Let_def split: list.split pending_pc.split wakelock_pc.split option.split prod.split bool.split)

lemma on_sub_hal_pointers: "pointers (snd (on_sub_hal i f s)) = pointers s"
  using on_sub_hal_list[of i f s] by (auto simp: pointers_def)

lemma routed_pointers:
  "pointers (snd (activate ops M h b s)) = pointers s" "pointers (snd (batch ops M h p l s)) = pointers s"
  "pointers (snd (flush ops M h s)) = pointers s"
  "pointers (snd (injectSensorData ops K M conv e s)) = pointers s"
  "pointers (snd (registerDirectChannel ops s)) = pointers s"
  "pointers (snd (unregisterDirectChannel ops c s)) = pointers s"
  "pointers (snd (configDirectReport ops M st h c r s)) = pointers s"
  by (simp_all add: activate_def batch_def flush_def injectSensorData_def registerDirectChannel_def
      unregisterDirectChannel_def configDirectReport_def on_sub_hal_pointers Let_def split: option.split)

lemma setOperationMode_pointers: "pointers (snd (setOperationMode ops m s)) = pointers s"
  by (simp add: setOperationMode_def pointers_def split: prod.split)

lemma dynamic_pointers:
  "pointers (onDynamicSensorsConnected M ds i s) = pointers s"
  "pointers (onDynamicSensorsDisconnected M hs i s) = pointers s"
  by (simp_all add: onDynamicSensorsConnected_def onDynamicSensorsDisconnected_def pointers_def
      split: prod.split)

lemma proxy_step_pointers: "\<not> is_initialize (snd ev) \<Longrightarrow> pointers (proxy_step W s ev) = pointers s"
  by (cases "(W, s, ev)" rule: proxy_step.cases)
    (auto simp: setOperationMode_pointers routed_pointers dynamic_pointers
      intro!: more_pointers ev_more ev_event_flag)

text \<open>What an initialisation sets, whatever it returns.\<close>

lemma initializeCommon_pointers:
  "pointers (snd (initializeCommon L ops K M env eq wq cb s)) = (Some eq, Some wq, cb, event_flag_created env)"
  by (simp add: initializeCommon_def Let_def pointers_def startThreads_def makeFlags_def split: prod.split)

fun init_pointers :: "ev_env \<Rightarrow> proxy_op \<Rightarrow> 'h proxy \<Rightarrow> bool" where
  "init_pointers env (PInitialize e w cb) s \<longleftrightarrow>
     event_flag s = event_flag_created env \<and> mDynamicSensorsCallback s = Some (Api_2_0, cb) \<and>
     mEventQueue s \<noteq> None \<and> mWakeLockQueue s \<noteq> None"
| "init_pointers env (PInitialize_2_1 e w cb) s \<longleftrightarrow>
     event_flag s = event_flag_created env \<and> mDynamicSensorsCallback s = Some (Api_2_1, cb) \<and>
     mEventQueue s \<noteq> None \<and> mWakeLockQueue s \<noteq> None"
| "init_pointers env _ s \<longleftrightarrow> False"

lemma init_pointers: "is_initialize op \<Longrightarrow> init_pointers env op (proxy_step W s (env, op))"
  using initializeCommon_pointers[of "w_limits W" "w_ops W" "w_consts W" "w_mask W" env _ _ _ s]
  by (cases op) (simp_all add: initialize_def initialize_2_1_def pointers_def)

lemma init_pointers_cong: "pointers s' = pointers s \<Longrightarrow> init_pointers env op s' = init_pointers env op s"
  by (cases op) (simp_all add: pointers_def)

lemma try_run_pointers:
  "\<not> list_ex (\<lambda>ev. is_initialize (snd ev)) evs \<Longrightarrow> proxy_try_run W s evs = Some s' \<Longrightarrow> pointers s' = pointers s"
proof (induction evs arbitrary: s)
  case (Cons ev evs)
  then have "proxy_try_run W (proxy_step W s ev) evs = Some s'"
    by (simp add: proxy_try_def split: if_splits)
  with Cons show ?case using proxy_step_pointers[of ev W s] by simp
qed simp


subsection \<open>Properties\<close>

fun given_callback :: "proxy_op \<Rightarrow> nat option" where
  "given_callback (PInitialize e w cb) = cb"
| "given_callback (PInitialize_2_1 e w cb) = cb"
| "given_callback _ = None"

fun dynamic_call :: "proxy_op \<Rightarrow> bool" where
  "dynamic_call (PConnected ds i) \<longleftrightarrow> True"
| "dynamic_call (PDisconnected hs i) \<longleftrightarrow> True"
| "dynamic_call _ \<longleftrightarrow> False"

fun posts :: "ev_env \<Rightarrow> proxy_op \<Rightarrow> 'h proxy \<Rightarrow> nat" where
  "posts env (PEvents (Post events n locked)) s = num_to_write env events s"
| "posts env _ s = 0"

lemma faults_from_pointers:
  assumes "init_pointers env0 op0 s"
  shows "step_faults L s (env, op) \<longleftrightarrow>
    \<not> event_flag_created env0 \<and> posts env op s > 0 \<or> given_callback op0 = None \<and> dynamic_call op"
proof -
  have set: "mEventQueue s \<noteq> None" "mWakeLockQueue s \<noteq> None" "event_flag s = event_flag_created env0"
    "callback_null s \<longleftrightarrow> given_callback op0 = None"
    using assms by (cases op0; auto simp: callback_null_def split: option.split)+
  have empty: "num_to_write env evs s > 0 \<Longrightarrow> mPendingWriteEventsQueue s = []" for evs
    by (simp add: num_to_write_def split: if_splits)
  show ?thesis
    by (cases "(L, s, (env, op))" rule: step_faults.cases)
      (use set empty in \<open>auto simp: post_faults_def pending_writes_faults_def wakelocks_faults_def\<close>)
qed

text \<open>
  C24. Exactly which steps crash: between an initialisation and the next, whatever it returned and
  whatever happens in between, a step dereferences a null pointer if and only if it is a post
  that writes to the event queue although its event flag could not be created, or a report of
  dynamic sensors although the framework passed a null callback.
\<close>

theorem null_use_iff:
  assumes "is_initialize op0" and "\<not> list_ex (\<lambda>ev. is_initialize (snd ev)) evs"
    and "proxy_try_run W (proxy_step W s0 (env0, op0)) evs = Some s"
  shows "proxy_try W s (env, op) = None \<longleftrightarrow>
    \<not> event_flag_created env0 \<and> posts env op s > 0 \<or> given_callback op0 = None \<and> dynamic_call op"
proof -
  have "init_pointers env0 op0 s"
    using init_pointers[OF assms(1)] init_pointers_cong[OF try_run_pointers[OF assms(2,3)]] by blast
  from faults_from_pointers[OF this, of "w_limits W" env op] show ?thesis by (simp add: proxy_try_def)
qed

text \<open>An initialisation with a callback whose event flag could be created.\<close>

definition sound :: "ev_env \<times> proxy_op \<Rightarrow> bool" where
  "sound ev \<longleftrightarrow> (is_initialize (snd ev) \<longrightarrow> given_callback (snd ev) \<noteq> None \<and> event_flag_created (fst ev))"

lemma sound_step:
  assumes "init_pointers env0 op0 s" "sound (env0, op0)" "is_initialize op0" "sound ev"
  shows "proxy_try W s ev = Some (proxy_step W s ev) \<and>
    (\<exists>env1 op1. init_pointers env1 op1 (proxy_step W s ev) \<and> sound (env1, op1) \<and> is_initialize op1)"
proof -
  have "\<not> step_faults (w_limits W) s ev"
    using faults_from_pointers[OF assms(1), of "w_limits W" "fst ev" "snd ev"] assms(2,3)
    by (simp add: sound_def)
  moreover have "\<exists>env1 op1. init_pointers env1 op1 (proxy_step W s ev) \<and> sound (env1, op1) \<and> is_initialize op1"
  proof (cases "is_initialize (snd ev)")
    case True
    then show ?thesis
      using init_pointers[OF True, of "fst ev" W s] assms(4) by (cases ev) auto
  next
    case False
    then show ?thesis
      using init_pointers_cong[OF proxy_step_pointers[OF False, of W s]] assms(1-3) by blast
  qed
  ultimately show ?thesis by (simp add: proxy_try_def)
qed

lemma sound_run:
  "init_pointers env0 op0 s \<Longrightarrow> sound (env0, op0) \<Longrightarrow> is_initialize op0 \<Longrightarrow> list_all sound evs \<Longrightarrow>
   proxy_try_run W s evs = Some (foldl (proxy_step W) s evs)"
proof (induction evs arbitrary: env0 op0 s)
  case (Cons ev evs)
  then have "sound ev" "list_all sound evs" by simp_all
  from sound_step[OF Cons.prems(1-3) this(1), of W] obtain env1 op1 where
    "proxy_try W s ev = Some (proxy_step W s ev)" "init_pointers env1 op1 (proxy_step W s ev)"
    "sound (env1, op1)" "is_initialize op1" by blast
  with Cons.IH[OF this(2-4) \<open>list_all sound evs\<close>] show ?case by simp
qed simp

text \<open>
  C23. A proxy that was initialised soundly never uses a null pointer: with a framework that passes
  its callback and an event flag that can be created, every sequence of calls, callbacks of
  sub-HALs, thread steps and such initialisations runs through, and does what the proxy's steps
  say.
\<close>

theorem sound_proxy_never_faults:
  assumes "is_initialize op0" and "list_all sound ((env0, op0) # evs)"
  shows "proxy_try_run W (proxy_step W s0 (env0, op0)) evs =
    Some (foldl (proxy_step W) s0 ((env0, op0) # evs))"
  using sound_run[OF init_pointers[OF assms(1)], of env0 evs W W s0] assms by simp

text \<open>
  A null callback is accepted and crashes later: the result of an initialisation does not
  depend on whether the framework's callback is null, because the test looks at the wrapper made
  around it; the first report of a dynamic sensor then dereferences it.
\<close>

theorem null_callback_accepted:
  "fst (initialize_2_1 L ops K M env e w None s) = fst (initialize_2_1 L ops K M env e w (Some cb) s) \<and>
   fst (initialize L ops K M env e w None s) = fst (initialize L ops K M env e w (Some cb) s) \<and>
   proxy_try W (proxy_step W s (env, PInitialize e w None)) (env', PConnected ds i) = None \<and>
   proxy_try W (proxy_step W s (env, PInitialize_2_1 e w None)) (env', PConnected ds i) = None"
proof -
  have same: "fst (initializeCommon L ops K M env eq wq (Some (a, None)) s) =
    fst (initializeCommon L ops K M env eq wq (Some (a, Some cb)) s)" for eq wq a
    by (simp add: initializeCommon_def Let_def makeFlags_def startThreads_def split: prod.split option.split)
  have crash: "proxy_try W (proxy_step W s (env, op0)) (env', PConnected ds i) = None"
    if "is_initialize op0" "given_callback op0 = None" for op0
    using faults_from_pointers[OF init_pointers[OF that(1), of env W s], of "w_limits W" env' "PConnected ds i"] that(2)
    by (simp add: proxy_try_def)
  show ?thesis
    using same crash[of "PInitialize e w None"] crash[of "PInitialize_2_1 e w None"]
    by (simp add: initialize_def initialize_2_1_def)
qed

theorem null_use_iff_witness:
  "proxy_try world_example (proxy_step world_example (proxy_example []) (ev_example 5 4, PInitialize_2_1 1 2 None))
     (ev_example 6 4, PConnected [] 0) = None"
  using null_use_iff[of "PInitialize_2_1 1 2 None" "[]" world_example "proxy_example []" "ev_example 5 4"
      _ "ev_example 6 4" "PConnected [] 0"]
  by (simp del: proxy_step.simps)

theorem sound_proxy_never_faults_witness:
  "proxy_try_run world_example
     (proxy_step world_example (proxy_example []) (ev_example 5 4, PInitialize_2_1 1 2 (Some 0)))
     [(ev_example 6 4, PConnected [] 0), (ev_example 7 4, PEvents (Post [example_event 1] 1 True))] \<noteq> None"
  using sound_proxy_never_faults[of "PInitialize_2_1 1 2 (Some 0)" "ev_example 5 4"
      "[(ev_example 6 4, PConnected [] 0), (ev_example 7 4, PEvents (Post [example_event 1] 1 True))]"
      world_example "proxy_example []"]
  by (simp add: sound_def ev_example_def del: proxy_step.simps proxy_try_run.simps)

end
