(* ===== verification/HalShared.thy ===== *)
theory HalShared
  imports SubHal HalProxy
begin

text \<open>
  Sub-HALs as shared objects (\<^verbatim>\<open>src/hidl/sensors/HalProxy.cpp\<close>,
  \<^verbatim>\<open>src/hidl/sensors/SensorsSubHal.cpp\<close>).

  The proxy does not own its sub-HALs: \<open>mSubHalList\<close> holds wrappers around pointers, and the entry
  point of a library returns the address of a static object, the same at every call. Here the
  list is one of addresses into a store of objects. When no library is named twice the list of
  values of the other theories is what one sees through the pointers; when one is, its object
  is called at several positions.
\<close>

subsection \<open>Calls through pointers\<close>

record 'h sub_store =
  addrs :: "nat list"
  objs :: "nat \<Rightarrow> 'h"

definition view :: "'h sub_store \<Rightarrow> 'h list" where
  "view S = map (objs S) (addrs S)"

definition store_call :: "nat \<Rightarrow> ('h \<Rightarrow> 'r \<times> 'h) \<Rightarrow> 'h sub_store \<Rightarrow> 'r \<times> 'h sub_store" where
  "store_call i f S =
     (let a = addrs S ! i; (r, h) = f (objs S a) in (r, S\<lparr>objs := (objs S)(a := h)\<rparr>))"

fun store_set_modes ::
  "'h sub_hal_ops \<Rightarrow> OperationMode \<Rightarrow> nat list \<Rightarrow> (nat \<Rightarrow> 'h) \<Rightarrow> Result \<times> nat \<times> (nat \<Rightarrow> 'h)" where
  "store_set_modes ops mode [] st = (OK, 0, st)"
| "store_set_modes ops mode (a # as) st =
     (let (r, h) = op_setOperationMode ops mode (st a); st = st(a := h) in
      if r \<noteq> OK then (r, 0, st)
      else let (r', i, st') = store_set_modes ops mode as st in (r', Suc i, st'))"

definition store_setOperationMode ::
  "'h sub_hal_ops \<Rightarrow> OperationMode \<Rightarrow> OperationMode \<Rightarrow> 'h sub_store \<Rightarrow> Result \<times> 'h sub_store" where
  "store_setOperationMode ops current mode S =
     (let (result, subHalIndex, st) = store_set_modes ops mode (addrs S) (objs S) in
      if result \<noteq> OK
      then (result, S\<lparr>objs := foldl (\<lambda>st a. st(a := snd (op_setOperationMode ops current (st a)))) st
                        (take subHalIndex (addrs S))\<rparr>)
      else (result, S\<lparr>objs := st\<rparr>))"

fun store_initialize ::
  "'h sub_hal_ops \<Rightarrow> nat \<Rightarrow> nat list \<Rightarrow> (nat \<Rightarrow> 'h) \<Rightarrow> Result option \<times> (nat \<Rightarrow> 'h)" where
  "store_initialize ops i [] st = (None, st)"
| "store_initialize ops i (a # as) st =
     (let (r, h) = op_initialize ops i (st a); st = st(a := h) in
      if r \<noteq> OK then (Some r, st) else store_initialize ops (Suc i) as st)"

subsection \<open>Distinct objects behave as values\<close>

lemma map_upd_other: "a \<notin> set as \<Longrightarrow> map (st(a := h)) as = map st as"
  by (induction as) auto

lemma map_upd_nth:
  "distinct as \<Longrightarrow> i < length as \<Longrightarrow> map (st(as ! i := h)) as = (map st as)[i := h]"
proof (induction as arbitrary: i)
  case (Cons a as)
  then show ?case by (cases i) (auto simp: map_upd_other)
qed simp

lemma store_set_modes_other:
  "a \<notin> set as \<Longrightarrow> snd (snd (store_set_modes ops m as st)) a = st a"
proof (induction as arbitrary: st)
  case (Cons b as)
  then show ?case
    using Cons.IH[of "st(b := snd (op_setOperationMode ops m (st b)))"]
    by (simp add: Let_def case_prod_beta)
qed simp

lemma store_set_modes_view:
  "distinct as \<Longrightarrow> set_modes ops m (map st as) =
     (case store_set_modes ops m as st of (r, i, st') \<Rightarrow> (r, i, map st' as))"
proof (induction as arbitrary: st)
  case (Cons a as)
  obtain r h where h: "op_setOperationMode ops m (st a) = (r, h)" by fastforce
  obtain r' i st' where rest: "store_set_modes ops m as (st(a := h)) = (r', i, st')"
    by (cases "store_set_modes ops m as (st(a := h))")
  have "st' a = h"
    using store_set_modes_other[of a as ops m "st(a := h)"] Cons.prems rest by simp
  moreover have "set_modes ops m (map st as) = (r', i, map st' as)"
    using Cons.IH[of "st(a := h)"] Cons.prems rest map_upd_other[of a as st h] by (simp del: fun_upd_apply)
  ultimately show ?case using h rest Cons.prems by simp
qed simp

lemma store_initialize_other: "a \<notin> set as \<Longrightarrow> snd (store_initialize ops i as st) a = st a"
  by (induction as arbitrary: i st) (auto simp: Let_def split: prod.splits)

lemma store_initialize_view:
  "distinct as \<Longrightarrow> initialize_subs ops i (map st as) =
     (case store_initialize ops i as st of (r, st') \<Rightarrow> (r, map st' as))"
proof (induction as arbitrary: i st)
  case (Cons a as)
  obtain r h where h: "op_initialize ops i (st a) = (r, h)" by fastforce
  obtain r' st' where rest: "store_initialize ops (Suc i) as (st(a := h)) = (r', st')" by fastforce
  have "st' a = h"
    using store_initialize_other[of a as ops "Suc i" "st(a := h)"] Cons.prems rest by simp
  moreover have "initialize_subs ops (Suc i) (map st as) = (r', map st' as)"
    using Cons.IH[of "Suc i" "st(a := h)"] Cons.prems rest map_upd_other[of a as st h] by (simp del: fun_upd_apply)
  ultimately show ?case using h rest Cons.prems by simp
qed simp

lemma rollback_view:
  "distinct as \<Longrightarrow> map (foldl (\<lambda>st a. st(a := f (st a))) st as) bs = map (\<lambda>b. if b \<in> set as then f (st b) else st b) bs"
proof (induction as arbitrary: st)
  case (Cons a as)
  then show ?case by (auto simp: Cons.IH)
qed simp

lemma rollback_prefix:
  assumes "distinct as"
  shows "map (foldl (\<lambda>st a. st(a := f (st a))) st (take i as)) as =
    map (\<lambda>a. f (st a)) (take i as) @ map st (drop i as)"
proof -
  have disj: "b \<notin> set (take i as)" if "b \<in> set (drop i as)" for b
    using assms that by (metis append_take_drop_id disjoint_iff distinct_append)
  have "map (foldl (\<lambda>st a. st(a := f (st a))) st (take i as)) (take i as @ drop i as) =
    map (\<lambda>a. f (st a)) (take i as) @ map st (drop i as)"
    using assms disj by (simp add: rollback_view del: append_take_drop_id)
  then show ?thesis by simp
qed



subsection \<open>A library named twice\<close>

locale keeps_callback =
  fixes ops :: "'h sub_hal_ops"
    and callback :: "'h \<Rightarrow> nat option"
  assumes initialize_keeps: "op_initialize ops i h = (OK, h') \<Longrightarrow> callback h' = Some i"
begin

lemma last_position_wins:
  "store_initialize ops i as st = (None, st') \<Longrightarrow> j < length as \<Longrightarrow> as ! j \<notin> set (drop (Suc j) as) \<Longrightarrow>
   callback (st' (as ! j)) = Some (i + j)"
proof (induction as arbitrary: i j st)
  case (Cons a as)
  obtain r h where h: "op_initialize ops i (st a) = (r, h)" by fastforce
  with Cons.prems(1) have r: "r = OK" and rest: "store_initialize ops (Suc i) as (st(a := h)) = (None, st')"
    by (auto simp: Let_def split: if_splits)
  show ?case
  proof (cases j)
    case 0
    then have "st' a = h"
      using store_initialize_other[of a as ops "Suc i" "st(a := h)"] rest Cons.prems(3) by simp
    with 0 h r initialize_keeps show ?thesis by simp
  next
    case (Suc k)
    with Cons.IH[OF rest, of k] Cons.prems(2,3) show ?thesis by simp
  qed
qed simp

end

interpretation gesture_callback: keeps_callback "SUB_HAL_OPS K env" mCallback for K env
  by unfold_locales
    (auto simp: SUB_HAL_OPS_def SubHal_initialize_def SubHal_setOperationMode_def)

lemma gesture_initialize_ok: "fst (store_initialize (SUB_HAL_OPS K env) i as st) = None"
  by (induction as arbitrary: i st) (simp_all add: SUB_HAL_OPS_def SubHal_initialize_def SubHal_setOperationMode_def)

text \<open>
  A library that the configuration names twice reports under the wrong handles: both positions
  call the one static object, \<open>initialize\<close> leaves it with the callback of the last position, and
  so the events of a sensor that was listed and activated under the first position never carry
  that handle.
\<close>

theorem doubled_library_mistags:
  assumes "i < j" "j < length as" "j < 128" and "as ! i = as ! j" "as ! j \<notin> set (drop (Suc j) as)"
    and "subHalIndexIsClear first_byte h" "ev_handle e = h"
    and "st' = snd (store_initialize (SUB_HAL_OPS K env) 0 as st)"
  shows "mCallback (st' (as ! i)) = Some j \<and> ev_handle (tag j e) = setSubHalIndex h j \<and>
    setSubHalIndex h j \<noteq> setSubHalIndex h i"
proof -
  have "store_initialize (SUB_HAL_OPS K env) 0 as st = (None, st')"
    using gesture_initialize_ok[of K env 0 as st] assms(8) by (metis prod.collapse)
  from gesture_callback.last_position_wins[OF this assms(2,5)] show ?thesis
    using extract_set[OF assms(6), of i] extract_set[OF assms(6), of j] assms(1,3,4,7) by (auto simp: tag_def)
qed

text \<open>The configuration of this device names two libraries, once each.\<close>

definition hals_conf :: string where
  "hals_conf = ''sensors.ssc.so'' @ newline @ ''sensors.nt.pong.so'' @ newline"

lemma hals_conf_words: "config_words hals_conf = [''sensors.ssc.so'', ''sensors.nt.pong.so'']"
  by (simp add: hals_conf_def newline_def config_words.simps is_blank_def)

subsection \<open>Instances\<close>

definition store_example :: "subhal sub_store" where
  "store_example = \<lparr>addrs = [7, 9],
     objs = (\<lambda>a. SensorsSubHal_ctor android_consts SensorInfo_zero open_example open_example open_example)\<rparr>"


theorem doubled_library_mistags_witness:
  "mCallback (snd (store_initialize (SUB_HAL_OPS android_consts sensor_example_env) 0 [7, 7] (objs store_example)) 7) = Some 1"
  using doubled_library_mistags[of 0 1 "[7, 7]" 2 "(example_event 2)" _ android_consts sensor_example_env "objs store_example"]
  by (simp add: subHalIndexIsClear_def first_byte_def example_event_def del: store_initialize.simps)

end
