(* ===== verification/HalLocks.thy ===== *)
theory HalLocks
  imports Prelude
begin

text \<open>
  The mutexes of the sensors HAL (\<^verbatim>\<open>src/hidl/sensors/HalProxy.cpp\<close>,
  \<^verbatim>\<open>src/hidl/sensors/Sensor.cpp\<close>, \<^verbatim>\<open>src/hidl/sensors/SensorsSubHal.cpp\<close>).

  A thread is the list of what it still does with mutexes and threads: lock, unlock, join. The
  functions below give, for each piece of the code, the list it goes through on each of its paths;
  the arguments are what decides the path. A loop is given by the list of its iterations. A wait
  on a condition variable unlocks and locks again. \<open>lock_step\<close> runs one action of one thread: a
  mutex is taken only when no other thread has it, a join waits for the end of the other thread.
  That the loops do end is the subject of the theory on the proxy's threads.

  The interface \<open>lock_discipline\<close> is the usual order argument: programs that take mutexes in
  increasing rank, release all of them and join only without any never deadlock.
\<close>

subsection \<open>Threads and mutexes\<close>

datatype 'l action = Acquire 'l | Release 'l | Join nat

type_synonym 'l thread = "'l list \<times> 'l action list"

definition may_step :: "('l \<Rightarrow> bool) \<Rightarrow> 'l thread list \<Rightarrow> nat \<Rightarrow> bool" where
  "may_step recursive ts i \<longleftrightarrow>
     (case ts ! i of
        (held, Acquire l # as) \<Rightarrow>
          (l \<in> set held \<longrightarrow> recursive l) \<and> (\<forall>j < length ts. j \<noteq> i \<longrightarrow> l \<notin> set (fst (ts ! j)))
      | (held, Release l # as) \<Rightarrow> l \<in> set held
      | (held, Join j # as) \<Rightarrow> j < length ts \<and> snd (ts ! j) = []
      | (held, []) \<Rightarrow> False)"

fun run_action :: "'l thread \<Rightarrow> 'l thread" where
  "run_action (held, Acquire l # as) = (l # held, as)"
| "run_action (held, Release l # as) = (remove1 l held, as)"
| "run_action (held, Join j # as) = (held, as)"
| "run_action (held, []) = (held, [])"

inductive lock_step :: "('l \<Rightarrow> bool) \<Rightarrow> 'l thread list \<Rightarrow> 'l thread list \<Rightarrow> bool" for recursive where
  step: "i < length ts \<Longrightarrow> may_step recursive ts i \<Longrightarrow> lock_step recursive ts (ts[i := run_action (ts ! i)])"

inductive_cases lock_stepE [elim]: "lock_step recursive ts ts'"

definition start_threads :: "'l action list list \<Rightarrow> 'l thread list" where
  "start_threads ps = map (Pair []) ps"

definition lock_reach :: "('l \<Rightarrow> bool) \<Rightarrow> 'l action list list \<Rightarrow> 'l thread list \<Rightarrow> bool" where
  "lock_reach recursive ps = (lock_step recursive)\<^sup>*\<^sup>* (start_threads ps)"

definition finished :: "'l thread list \<Rightarrow> bool" where
  "finished ts \<longleftrightarrow> list_all (\<lambda>t. snd t = []) ts"

subsection \<open>The order of mutexes\<close>

fun ordered :: "('l \<Rightarrow> nat) \<Rightarrow> ('l \<Rightarrow> bool) \<Rightarrow> 'l list \<Rightarrow> 'l action list \<Rightarrow> bool" where
  "ordered rank recursive held [] \<longleftrightarrow> held = []"
| "ordered rank recursive held (Acquire l # as) \<longleftrightarrow>
     list_all (\<lambda>h. rank h < rank l \<or> h = l \<and> recursive l) held \<and> ordered rank recursive (l # held) as"
| "ordered rank recursive held (Release l # as) \<longleftrightarrow>
     l \<in> set held \<and> ordered rank recursive (remove1 l held) as"
| "ordered rank recursive held (Join j # as) \<longleftrightarrow> held = [] \<and> ordered rank recursive [] as"

text \<open>Threads that are joined exist and join no other.\<close>

fun joins :: "'l action list \<Rightarrow> nat list" where
  "joins [] = []"
| "joins (Join j # as) = j # joins as"
| "joins (_ # as) = joins as"

definition joins_ok :: "'l action list list \<Rightarrow> bool" where
  "joins_ok ps \<longleftrightarrow> list_all (\<lambda>p. list_all (\<lambda>j. j < length ps \<and> joins (ps ! j) = []) (joins p)) ps"

lemma joins_mem: "Join j # as = p \<Longrightarrow> j \<in> set (joins p)"
  by auto

lemma joins_run: "set (joins (snd (run_action t))) \<subseteq> set (joins (snd t))"
  by (cases t rule: run_action.cases) auto

lemma ordered_append:
  "ordered rank recursive held as \<Longrightarrow> ordered rank recursive [] bs \<Longrightarrow> ordered rank recursive held (as @ bs)"
  by (induction rank recursive held as rule: ordered.induct) auto

lemma ordered_concat:
  "list_all (ordered rank recursive []) pss \<Longrightarrow> ordered rank recursive [] (concat pss)"
  by (induction pss) (auto intro: ordered_append)

subsection \<open>Ordered programs never deadlock\<close>

locale lock_discipline =
  fixes rank :: "'l \<Rightarrow> nat"
    and recursive :: "'l \<Rightarrow> bool"
    and program :: "'p \<Rightarrow> 'l action list"
  assumes program_ordered: "ordered rank recursive [] (program p)"
begin

definition exclusive_holders :: "'l thread list \<Rightarrow> bool" where
  "exclusive_holders ts \<longleftrightarrow> (\<forall>i < length ts. \<forall>j < length ts. i \<noteq> j \<longrightarrow> set (fst (ts ! i)) \<inter> set (fst (ts ! j)) = {})"

definition joined_once :: "'l thread list \<Rightarrow> bool" where
  "joined_once ts \<longleftrightarrow> (\<forall>i < length ts. \<forall>j \<in> set (joins (snd (ts ! i))). j < length ts \<and> joins (snd (ts ! j)) = [])"

definition orderly :: "'l thread list \<Rightarrow> bool" where
  "orderly ts \<longleftrightarrow> exclusive_holders ts \<and> (\<forall>i < length ts. ordered rank recursive (fst (ts ! i)) (snd (ts ! i))) \<and>
     joined_once ts"

lemma orderly_start:
  assumes "joins_ok (map program ps)" shows "orderly (start_threads (map program ps))"
proof -
  have joined: "j < length ps \<and> joins (program (ps ! j)) = []"
    if "i < length ps" "j \<in> set (joins (program (ps ! i)))" for i j
  proof -
    have all: "\<forall>p \<in> set (map program ps). \<forall>j \<in> set (joins p). j < length (map program ps) \<and> joins (map program ps ! j) = []"
      using assms by (simp only: joins_ok_def list_all_iff)
    have "program (ps ! i) \<in> set (map program ps)" using that(1) by simp
    from bspec[OF bspec[OF all this] that(2)] show ?thesis by (elim conjE) simp
  qed
  have "joined_once (start_threads (map program ps))"
    unfolding joined_once_def
  proof (intro allI impI ballI)
    fix i j
    assume "i < length (start_threads (map program ps))" "j \<in> set (joins (snd (start_threads (map program ps) ! i)))"
    then have "i < length ps" "j \<in> set (joins (program (ps ! i)))" by (simp_all add: start_threads_def)
    from joined[OF this] show "j < length (start_threads (map program ps)) \<and>
        joins (snd (start_threads (map program ps) ! j)) = []"
      by (elim conjE) (simp add: start_threads_def)
  qed
  then show ?thesis
    by (simp add: orderly_def exclusive_holders_def start_threads_def program_ordered)
qed

lemma run_ordered:
  assumes "ordered rank recursive (fst t) (snd t)"
  shows "ordered rank recursive (fst (run_action t)) (snd (run_action t))"
  using assms by (cases t rule: run_action.cases) auto

lemma run_holds:
  assumes "may_step recursive ts i" "i < length ts" "j < length ts" "i \<noteq> j" "exclusive_holders ts"
  shows "set (fst (run_action (ts ! i))) \<inter> set (fst (ts ! j)) = {}"
proof -
  have "set (fst (ts ! i)) \<inter> set (fst (ts ! j)) = {}"
    using assms by (simp add: exclusive_holders_def)
  with assms(1,3,4) show ?thesis
    by (cases "ts ! i" rule: run_action.cases) (auto simp: may_step_def dest: set_mp[OF set_remove1_subset])
qed

lemma exclusive_step:
  assumes "exclusive_holders ts" "may_step recursive ts i" "i < length ts"
  shows "exclusive_holders (ts[i := run_action (ts ! i)])"
proof -
  let ?ts' = "ts[i := run_action (ts ! i)]"
  have new: "set (fst (?ts' ! i)) \<inter> set (fst (ts ! k)) = {}" if "k < length ts" "k \<noteq> i" for k
    using run_holds[OF assms(2,3) that(1) _ assms(1)] assms(3) that(2) by simp
  have "set (fst (?ts' ! a)) \<inter> set (fst (?ts' ! b)) = {}" if "a < length ts" "b < length ts" "a \<noteq> b" for a b
  proof -
    consider "a = i" | "b = i" | "a \<noteq> i" "b \<noteq> i" by blast
    then show ?thesis
    proof cases
      case 1 then show ?thesis using new[of b] that by simp
    next
      case 2 then show ?thesis using new[of a] that by (simp add: Int_commute)
    next
      case 3 then show ?thesis using assms(1) that by (simp add: exclusive_holders_def)
    qed
  qed
  then show ?thesis by (simp add: exclusive_holders_def)
qed

lemma orderly_step:
  assumes "orderly ts" and "lock_step recursive ts ts'"
  shows "orderly ts'"
  using assms(2)
proof cases
  case (step i)
  have len: "length ts' = length ts" using step(1) by simp
  have others: "ts' ! k = ts ! k" if "k \<noteq> i" for k using step(1) that by simp
  have "exclusive_holders ts'"
    using exclusive_step[OF _ step(3,2)] assms(1) step(1) unfolding orderly_def by blast
  moreover have "ordered rank recursive (fst (ts' ! k)) (snd (ts' ! k))" if "k < length ts'" for k
  proof -
    have ord: "ordered rank recursive (fst (ts ! k)) (snd (ts ! k))"
      using assms(1) that step(1) by (simp add: orderly_def)
    show ?thesis
    proof (cases "k = i")
      case True
      with ord run_ordered[OF ord] step(1,2) show ?thesis by simp
    qed (use ord others in simp)
  qed
  moreover have "j < length ts' \<and> joins (snd (ts' ! j)) = []"
    if "k < length ts'" "j \<in> set (joins (snd (ts' ! k)))" for j k
  proof -
    have fewer: "set (joins (snd (ts' ! m))) \<subseteq> set (joins (snd (ts ! m)))" for m
      using joins_run[of "ts ! i"] others[of m] step(1,2) by (cases "m = i") simp_all
    with that have "j \<in> set (joins (snd (ts ! k)))" "k < length ts" using len by auto
    then have "j < length ts" "joins (snd (ts ! j)) = []"
      using assms(1) unfolding orderly_def joined_once_def by blast+
    with fewer[of j] len show ?thesis by simp
  qed
  then have "joined_once ts'" unfolding joined_once_def by blast
  ultimately show ?thesis unfolding orderly_def by blast
qed

lemma orderly_reach:
  assumes "lock_reach recursive (map program ps) ts" and "joins_ok (map program ps)"
  shows "orderly ts"
  using assms(1) unfolding lock_reach_def
  by (induction rule: rtranclp_induct) (auto intro: orderly_step orderly_start[OF assms(2)])

text \<open>Somewhere an unfinished thread can go on.\<close>

lemma blocked_acquire:
  assumes "orderly ts" and "i < length ts" and "snd (ts ! i) = Acquire l # as" and "\<not> may_step recursive ts i"
  shows "\<exists>j < length ts. j \<noteq> i \<and> l \<in> set (fst (ts ! j))"
proof -
  have "ordered rank recursive (fst (ts ! i)) (Acquire l # as)"
    using assms(1-3) unfolding orderly_def by metis
  then have "l \<in> set (fst (ts ! i)) \<longrightarrow> recursive l" by (auto simp: list_all_iff)
  with assms(3,4) show ?thesis
    by (cases "ts ! i") (auto simp: may_step_def)
qed

lemma next_action:
  assumes "orderly ts" and "i < length ts" and "snd (ts ! i) \<noteq> []" and "\<not> may_step recursive ts i"
  obtains l as where "snd (ts ! i) = Acquire l # as"
  | j as where "snd (ts ! i) = Join j # as" "fst (ts ! i) = []" "j < length ts" "snd (ts ! j) \<noteq> []"
proof -
  have ord: "ordered rank recursive (fst (ts ! i)) (snd (ts ! i))"
    using assms(1,2) unfolding orderly_def by blast
  show ?thesis
  proof (cases "ts ! i" rule: run_action.cases)
    case (2 held l as)
    then show ?thesis using ord assms(4) by (simp add: may_step_def)
  next
    case (3 held j as)
    then have "j \<in> set (joins (snd (ts ! i)))" by simp
    then have "j < length ts" using assms(1,2) unfolding orderly_def joined_once_def by blast
    then show ?thesis using 3 ord assms(4) that(2) by (simp add: may_step_def)
  qed (use that(1) assms(3) in auto)
qed

lemma no_blocked_acquire:
  assumes "orderly ts" and stuck: "\<And>i. i < length ts \<Longrightarrow> \<not> may_step recursive ts i"
    and "i < length ts" "snd (ts ! i) = Acquire l # as"
  shows False
proof -
  define wants where "wants r \<longleftrightarrow> (\<exists>i l as. i < length ts \<and> snd (ts ! i) = Acquire l # as \<and> rank l = r)" for r
  have "{r. wants r} \<subseteq> (\<lambda>i. rank (case hd (snd (ts ! i)) of Acquire l \<Rightarrow> l)) ` {..<length ts}"
    by (force simp: wants_def)
  then have fin: "finite {r. wants r}" by (rule finite_subset) simp
  have "wants (rank l)" using assms(3,4) by (auto simp: wants_def)
  then obtain r where r: "wants r" "\<And>r'. wants r' \<Longrightarrow> r' \<le> r"
    using fin Max_in[of "{r. wants r}"] Max_ge[OF fin] by blast
  then obtain i l as where i: "i < length ts" "snd (ts ! i) = Acquire l # as" "rank l = r"
    by (auto simp: wants_def)
  obtain j where j: "j < length ts" "j \<noteq> i" "l \<in> set (fst (ts ! j))"
    using blocked_acquire[OF assms(1) i(1,2) stuck[OF i(1)]] by blast
  have ord: "ordered rank recursive (fst (ts ! j)) (snd (ts ! j))"
    using assms(1) j(1) unfolding orderly_def by blast
  have unfinished: "snd (ts ! j) \<noteq> []" using ord j(3) by (cases "snd (ts ! j)") auto
  show False
  proof (cases rule: next_action[OF assms(1) j(1) unfinished stuck[OF j(1)]])
    case (1 l' as')
    with ord j(3) have "rank l < rank l' \<or> l = l'" by (auto simp: list_all_iff)
    moreover have "rank l' \<le> r" using r(2)[of "rank l'"] 1 j(1) by (auto simp: wants_def)
    ultimately have "l' = l" using i(3) by auto
    then obtain k where "k < length ts" "k \<noteq> j" "l \<in> set (fst (ts ! k))"
      using blocked_acquire[OF assms(1) j(1) 1 stuck[OF j(1)]] by blast
    then show False using assms(1) j(1,3) unfolding orderly_def exclusive_holders_def by blast
  qed (use j(3) in auto)
qed

lemma orderly_progress:
  assumes "orderly ts" and "\<not> finished ts"
  shows "\<exists>ts'. lock_step recursive ts ts'"
proof (rule ccontr)
  assume none: "\<nexists>ts'. lock_step recursive ts ts'"
  then have stuck: "\<not> may_step recursive ts i" if "i < length ts" for i
    using that lock_step.step by blast
  obtain i where i: "i < length ts" "snd (ts ! i) \<noteq> []"
    using assms(2) by (auto simp: finished_def list_all_length)
  show False
  proof (cases rule: next_action[OF assms(1) i stuck[OF i(1)]])
    case (1 l as)
    then show False using no_blocked_acquire[OF assms(1) stuck i(1)] by blast
  next
    case (2 j as)
    then have "j \<in> set (joins (snd (ts ! i)))" by simp
    then have free: "joins (snd (ts ! j)) = []"
      using assms(1) i(1) unfolding orderly_def joined_once_def by blast
    show False
    proof (cases rule: next_action[OF assms(1) 2(3,4) stuck[OF 2(3)]])
      case (1 l as)
      then show False using no_blocked_acquire[OF assms(1) stuck 2(3)] by blast
    qed (use free in auto)
  qed
qed

text \<open>Every step uses up an action.\<close>

lemma step_shortens:
  assumes "lock_step recursive ts ts'"
  shows "sum_list (map (\<lambda>t. length (snd t)) ts') < sum_list (map (\<lambda>t. length (snd t)) ts)"
  using assms
proof cases
  case (step i)
  have "length (snd (run_action (ts ! i))) < length (snd (ts ! i))"
    using step(3) by (cases "ts ! i" rule: run_action.cases) (auto simp: may_step_def)
  moreover have "length (snd (ts ! i)) \<le> sum_list (map (\<lambda>t. length (snd t)) ts)"
    using step(2) elem_le_sum_list[of i "map (\<lambda>t. length (snd t)) ts"] by simp
  moreover have "sum_list (map (\<lambda>t. length (snd t)) ts') =
      sum_list (map (\<lambda>t. length (snd t)) ts) + length (snd (run_action (ts ! i))) - length (snd (ts ! i))"
    using step(1,2) by (simp add: map_update sum_list_update)
  ultimately show ?thesis by linarith
qed

lemma orderly_completes:
  "orderly ts \<Longrightarrow> \<exists>ts'. (lock_step recursive)\<^sup>*\<^sup>* ts ts' \<and> finished ts'"
proof (induction "sum_list (map (\<lambda>t. length (snd t)) ts)" arbitrary: ts rule: less_induct)
  case less
  show ?case
  proof (cases "finished ts")
    case False
    then obtain ts1 where one: "lock_step recursive ts ts1" using orderly_progress[OF less.prems] by blast
    from less.hyps[OF step_shortens[OF one] orderly_step[OF less.prems one]] one show ?thesis
      by (meson converse_rtranclp_into_rtranclp)
  qed auto
qed

lemma disciplined_threads:
  assumes "lock_reach recursive (map program ps) ts" and "joins_ok (map program ps)"
  shows "(finished ts \<or> (\<exists>ts'. lock_step recursive ts ts')) \<and> (\<exists>ts'. (lock_step recursive)\<^sup>*\<^sup>* ts ts' \<and> finished ts')"
  using orderly_progress orderly_completes orderly_reach[OF assms] by blast

end


subsection \<open>What the code locks\<close>

datatype sensors_lock =
    mDynamicSensorsMutex | mRunMutex nat | mEventQueueWriteMutex | mWakelockMutex

type_synonym locking = "sensors_lock action list"

fun is_recursive :: "sensors_lock \<Rightarrow> bool" where
  "is_recursive mWakelockMutex \<longleftrightarrow> True"
| "is_recursive _ \<longleftrightarrow> False"

text \<open>The shared wakelock. \<open>run\<close> is what \<open>mThreadsRun\<close> says when it is looked at.\<close>

definition increment_locks :: "bool \<Rightarrow> locking" where
  "increment_locks run = (if run then [Acquire mWakelockMutex, Release mWakelockMutex] else [])"

definition decrement_locks :: "bool \<Rightarrow> locking" where
  "decrement_locks run = (if run then [Acquire mWakelockMutex, Release mWakelockMutex] else [])"

definition reset_locks :: "bool \<Rightarrow> locking" where
  "reset_locks run = Acquire mWakelockMutex # decrement_locks run @ [Release mWakelockMutex]"

text \<open>A post to the message queue; a post of a sub-HAL inside its scoped wakelock.\<close>

definition post_locks :: "bool \<Rightarrow> bool \<Rightarrow> locking" where
  "post_locks wakelock_isLocked run =
     Acquire mEventQueueWriteMutex # (if wakelock_isLocked then increment_locks run else []) @
     [Release mEventQueueWriteMutex]"

record post_path =
  post_wakeup :: bool
  run_at_create :: bool
  posts_events :: bool
  run_at_post :: bool
  run_at_end :: bool

definition subhal_post_locks :: "post_path \<Rightarrow> locking" where
  "subhal_post_locks p =
     (let locked = post_wakeup p \<and> run_at_create p in
      (if post_wakeup p then increment_locks (run_at_create p) else []) @
      (if posts_events p then post_locks locked (run_at_post p) else []) @
      (if locked then decrement_locks (run_at_end p) else []))"

text \<open>An iteration of a sensor's \<open>run\<close>: a wait, or a poll after which it may post.\<close>

datatype run_iteration = RunWait | RunPoll "post_path option" | RunSample "post_path option"

fun run_iteration_locks :: "nat \<Rightarrow> run_iteration \<Rightarrow> locking" where
  "run_iteration_locks n RunWait = [Release (mRunMutex n), Acquire (mRunMutex n)]"
| "run_iteration_locks n (RunPoll post) =
     [Release (mRunMutex n), Acquire (mRunMutex n)] @
     (case post of None \<Rightarrow> [] | Some p \<Rightarrow> subhal_post_locks p)"
| "run_iteration_locks n (RunSample post) =
     (case post of None \<Rightarrow> [] | Some p \<Rightarrow> subhal_post_locks p) @
     [Release (mRunMutex n), Acquire (mRunMutex n)]"

definition sensor_run_locks :: "nat \<Rightarrow> run_iteration list \<Rightarrow> locking" where
  "sensor_run_locks n its =
     Acquire (mRunMutex n) # concat (map (run_iteration_locks n) its) @ [Release (mRunMutex n)]"

definition sensor_call_locks :: "nat \<Rightarrow> locking" where
  "sensor_call_locks n = [Acquire (mRunMutex n), Release (mRunMutex n)]"

definition sensor_destroy_locks :: "nat \<Rightarrow> nat \<Rightarrow> locking" where
  "sensor_destroy_locks n thread = [Acquire (mRunMutex n), Release (mRunMutex n), Join thread]"

text \<open>The writer's loop and the wakelock thread's loop.\<close>

datatype pending_iteration = PendingWait | PendingWrite "bool option"

fun pending_iteration_locks :: "pending_iteration \<Rightarrow> locking" where
  "pending_iteration_locks PendingWait = [Release mEventQueueWriteMutex, Acquire mEventQueueWriteMutex]"
| "pending_iteration_locks (PendingWrite dropped) =
     Release mEventQueueWriteMutex # (case dropped of None \<Rightarrow> [] | Some run \<Rightarrow> decrement_locks run) @
     [Acquire mEventQueueWriteMutex]"

definition handlePendingWrites_locks :: "pending_iteration list \<Rightarrow> locking" where
  "handlePendingWrites_locks its =
     Acquire mEventQueueWriteMutex # concat (map pending_iteration_locks its) @ [Release mEventQueueWriteMutex]"

datatype wakelock_iteration = WakelockWait | WakelockTimeout bool | WakelockRead "bool option"

fun wakelock_iteration_locks :: "wakelock_iteration \<Rightarrow> locking" where
  "wakelock_iteration_locks WakelockWait = [Release mWakelockMutex, Acquire mWakelockMutex]"
| "wakelock_iteration_locks (WakelockTimeout run) = reset_locks run"
| "wakelock_iteration_locks (WakelockRead success) =
     [Release mWakelockMutex, Acquire mWakelockMutex] @
     (case success of None \<Rightarrow> [] | Some run \<Rightarrow> decrement_locks run)"

definition handleWakelocks_locks :: "wakelock_iteration list \<Rightarrow> bool \<Rightarrow> locking" where
  "handleWakelocks_locks its run =
     Acquire mWakelockMutex # concat (map wakelock_iteration_locks its) @ reset_locks run @ [Release mWakelockMutex]"

text \<open>
  The calls of the framework. A list of sensors stands for the gesture sensors a call reaches;
  the threads to join are given by their positions.
\<close>

definition disableAllSensors_locks :: "nat list \<Rightarrow> nat list \<Rightarrow> locking" where
  "disableAllSensors_locks sensors dynamic =
     concat (map sensor_call_locks sensors) @
     Acquire mDynamicSensorsMutex # concat (map sensor_call_locks dynamic) @ [Release mDynamicSensorsMutex]"

definition stopThreads_locks :: "nat list \<Rightarrow> locking" where
  "stopThreads_locks threads = map Join threads"

definition initializeCommon_locks :: "nat list \<Rightarrow> bool \<Rightarrow> nat list \<Rightarrow> nat list \<Rightarrow> nat list \<Rightarrow> locking" where
  "initializeCommon_locks threads run sensors dynamic initialized =
     stopThreads_locks threads @ reset_locks run @ disableAllSensors_locks sensors dynamic @
     concat (map sensor_call_locks initialized)"

definition onDynamicSensors_locks :: locking where
  "onDynamicSensors_locks = [Acquire mDynamicSensorsMutex, Release mDynamicSensorsMutex]"

datatype activity =
    SensorRun nat "run_iteration list" | PendingWrites "pending_iteration list"
  | Wakelocks "wakelock_iteration list" bool | SensorCall nat | SensorPosts post_path
  | SensorDestroy nat nat | Initialize "nat list" bool "nat list" "nat list" "nat list"
  | SetModes "nat list" | DynamicSensors | ProxyDestroy "nat list"

fun locks_of :: "activity \<Rightarrow> locking" where
  "locks_of (SensorRun n its) = sensor_run_locks n its"
| "locks_of (PendingWrites its) = handlePendingWrites_locks its"
| "locks_of (Wakelocks its run) = handleWakelocks_locks its run"
| "locks_of (SensorCall n) = sensor_call_locks n"
| "locks_of (SensorPosts p) = subhal_post_locks p"
| "locks_of (SensorDestroy n thread) = sensor_destroy_locks n thread"
| "locks_of (Initialize threads run sensors dynamic initialized) =
     initializeCommon_locks threads run sensors dynamic initialized"
| "locks_of (SetModes ns) = concat (map sensor_call_locks ns)"
| "locks_of DynamicSensors = onDynamicSensors_locks"
| "locks_of (ProxyDestroy threads) = stopThreads_locks threads"

text \<open>A thread does one activity after the other.\<close>

definition thread_locks :: "activity list \<Rightarrow> locking" where
  "thread_locks acts = concat (map locks_of acts)"

subsection \<open>The order of the sensors HAL\<close>

fun lock_rank :: "sensors_lock \<Rightarrow> nat" where
  "lock_rank mDynamicSensorsMutex = 0"
| "lock_rank (mRunMutex n) = 1"
| "lock_rank mEventQueueWriteMutex = 2"
| "lock_rank mWakelockMutex = 3"

abbreviation in_order :: "sensors_lock list \<Rightarrow> locking \<Rightarrow> bool" where
  "in_order \<equiv> ordered lock_rank is_recursive"

text \<open>Code that leaves the mutexes it finds held as they were, and takes only higher ones.\<close>

definition nested :: "sensors_lock list \<Rightarrow> locking \<Rightarrow> bool" where
  "nested held p \<longleftrightarrow> (\<forall>as. in_order held as \<longrightarrow> in_order held (p @ as))"

lemma nested_append: "nested held p \<Longrightarrow> nested held q \<Longrightarrow> nested held (p @ q)"
  by (simp add: nested_def)

lemma nested_concat: "list_all (nested held) ps \<Longrightarrow> nested held (concat ps)"
  by (induction ps) (simp_all add: nested_def)

lemma nested_Nil [simp]: "nested held []"
  by (simp add: nested_def)

lemma nested_scope:
  "list_all (\<lambda>h. lock_rank h < lock_rank l \<or> h = l \<and> is_recursive l) held \<Longrightarrow> nested (l # held) p \<Longrightarrow>
   nested held (Acquire l # p @ [Release l])"
  by (simp add: nested_def)

lemma nested_wait: "nested held p \<Longrightarrow> list_all (\<lambda>h. lock_rank h < lock_rank l) held \<Longrightarrow>
   nested (l # held) (Release l # p @ [Acquire l])"
  by (auto simp: nested_def list_all_iff)

lemma nested_run: "nested [] p \<Longrightarrow> in_order [] p"
  by (metis append_Nil2 nested_def ordered.simps(1))


text \<open>The wakelock's mutex is the highest, so the wakelock functions may be called anywhere.\<close>

lemma nested_wakelock:
  "nested held (increment_locks run)" "nested held (decrement_locks run)" "nested held (reset_locks run)"
proof -
  have top: "lock_rank h < lock_rank mWakelockMutex \<or> h = mWakelockMutex \<and> is_recursive mWakelockMutex" for h
    by (cases h) simp_all
  have scope: "nested held p \<Longrightarrow> nested held' (Acquire mWakelockMutex # p @ [Release mWakelockMutex])"
    if "held = mWakelockMutex # held'" for held held' p
    using top that by (intro nested_scope) (simp_all add: list_all_iff)
  show inc: "nested held (increment_locks run)" and dec: "nested held (decrement_locks run)" for held
    using scope[OF refl nested_Nil] by (simp_all add: increment_locks_def decrement_locks_def)
  show "nested held (reset_locks run)"
    unfolding reset_locks_def by (rule scope[OF refl dec])
qed

lemma nested_post:
  assumes "list_all (\<lambda>h. lock_rank h < 2) held"
  shows "nested held (post_locks locked run)"
proof -
  have "nested (mEventQueueWriteMutex # held) (increment_locks run)"
    by (rule nested_wakelock)
  then show ?thesis
    unfolding post_locks_def using assms by (intro nested_scope) auto
qed

lemma nested_subhal_post:
  assumes "list_all (\<lambda>h. lock_rank h < 2) held"
  shows "nested held (subhal_post_locks p)"
  by (simp add: subhal_post_locks_def Let_def nested_append nested_wakelock nested_post[OF assms])

lemma nested_sensor_run: "nested [] (sensor_run_locks n its)"
proof -
  have wait: "nested [mRunMutex n] [Release (mRunMutex n), Acquire (mRunMutex n)]"
    using nested_wait[of "[]" "[]" "mRunMutex n"] by simp
  have post: "nested [mRunMutex n] (case post of None \<Rightarrow> [] | Some p \<Rightarrow> subhal_post_locks p)" for post
    by (auto intro: nested_subhal_post split: option.split)
  have "nested [mRunMutex n] (run_iteration_locks n it)" for it
    using nested_append[OF wait post] nested_append[OF post wait] wait by (cases it) simp_all
  then have "nested [mRunMutex n] (concat (map (run_iteration_locks n) its))"
    by (intro nested_concat) (simp add: list_all_iff)
  then show ?thesis unfolding sensor_run_locks_def by (intro nested_scope) auto
qed

lemma nested_pending: "nested [] (handlePendingWrites_locks its)"
proof -
  have "nested [] (case dropped of None \<Rightarrow> [] | Some run \<Rightarrow> decrement_locks run)" for dropped
    by (auto intro: nested_wakelock split: option.split)
  then have "nested [mEventQueueWriteMutex] (pending_iteration_locks it)" for it
    using nested_wait[of "[]" _ mEventQueueWriteMutex] nested_wait[of "[]" "[]" mEventQueueWriteMutex]
    by (cases it) simp_all
  then have "nested [mEventQueueWriteMutex] (concat (map pending_iteration_locks its))"
    by (intro nested_concat) (simp add: list_all_iff)
  then show ?thesis unfolding handlePendingWrites_locks_def by (intro nested_scope) auto
qed

lemma nested_wakelocks: "nested [] (handleWakelocks_locks its run)"
proof -
  let ?K = "[mWakelockMutex]"
  have wait: "nested ?K [Release mWakelockMutex, Acquire mWakelockMutex]"
    using nested_wait[of "[]" "[]" mWakelockMutex] by simp
  have wl: "nested ?K (decrement_locks r)" "nested ?K (reset_locks r)" for r
    by (auto intro!: nested_wakelock)
  then have "nested ?K (case success of None \<Rightarrow> [] | Some r \<Rightarrow> decrement_locks r)" for success
    by (simp split: option.split)
  then have "nested ?K (wakelock_iteration_locks it)" for it
    using nested_append[OF wait] wait wl by (cases it) simp_all
  then have "nested ?K (concat (map wakelock_iteration_locks its))"
    by (intro nested_concat) (simp add: list_all_iff)
  from nested_append[OF this wl(2)] have
    "nested [] (Acquire mWakelockMutex # (concat (map wakelock_iteration_locks its) @ reset_locks run) @ [Release mWakelockMutex])"
    by (intro nested_scope) auto
  then show ?thesis by (simp add: handleWakelocks_locks_def)
qed

lemma nested_calls:
  assumes "list_all (\<lambda>h. lock_rank h < 1) held"
  shows "nested held (concat (map sensor_call_locks ns))"
proof -
  have "nested held (sensor_call_locks n)" for n
    using nested_scope[of "mRunMutex n" held "[]"] assms by (auto simp: sensor_call_locks_def list_all_iff)
  then show ?thesis by (intro nested_concat) (simp add: list_all_iff)
qed

lemma nested_joins: "nested [] (map Join ns)"
  by (induction ns) (simp_all add: nested_def)

lemma nested_disable: "nested [] (disableAllSensors_locks sensors dynamic)"
proof -
  have "nested [] (Acquire mDynamicSensorsMutex # concat (map sensor_call_locks dynamic) @ [Release mDynamicSensorsMutex])"
    by (intro nested_scope nested_calls) auto
  from nested_append[OF nested_calls this] show ?thesis by (simp add: disableAllSensors_locks_def)
qed

lemma nested_activity: "nested [] (locks_of a)"
proof (cases a)
  case (Initialize threads run sensors dynamic initialized)
  have "nested [] (reset_locks run)" by (auto intro: nested_wakelock)
  with Initialize show ?thesis
    by (simp add: initializeCommon_locks_def stopThreads_locks_def nested_append nested_joins
        nested_disable nested_calls)
next
  case (SensorDestroy n thread)
  then show ?thesis by (simp add: sensor_destroy_locks_def nested_def)
next
  case (SensorCall n)
  then show ?thesis using nested_calls[of "[]" "[n]"] by simp
next
  case DynamicSensors
  then show ?thesis by (simp add: onDynamicSensors_locks_def nested_def)
qed (simp_all add: nested_sensor_run nested_pending nested_wakelocks nested_subhal_post nested_calls
  stopThreads_locks_def nested_joins)

interpretation hal_locks: lock_discipline lock_rank is_recursive thread_locks
proof unfold_locales
  fix acts
  have "nested [] (thread_locks acts)"
    unfolding thread_locks_def by (intro nested_concat) (simp add: list_all_iff nested_activity)
  then show "in_order [] (thread_locks acts)" by (rule nested_run)
qed


text \<open>The three threads of a restart while a sensor fires.\<close>

definition lock_example :: "activity list list" where
  "lock_example =
     [[PendingWrites [PendingWait, PendingWrite (Some True)]],
      [Wakelocks [WakelockTimeout True] False],
      [SensorRun 0 [RunPoll (Some \<lparr>post_wakeup = True, run_at_create = True, posts_events = True,
         run_at_post = True, run_at_end = True\<rparr>)]],
      [Initialize [0, 1] False [0] [] [0]]]"


end
