(* ===== verification/HalSystem.thy ===== *)
theory HalSystem
  imports SubHal HalRuns
begin

text \<open>
  The sensors HAL as one system: the proxy (\<^verbatim>\<open>src/hidl/sensors/HalProxy.cpp\<close>) with the gesture
  sub-HAL (\<^verbatim>\<open>src/hidl/sensors/SensorsSubHal.cpp\<close>), the threads of its sensors
  (\<^verbatim>\<open>src/hidl/sensors/Sensor.cpp\<close>) and sub-HALs of other vendors beside it.

  \<open>hal_step\<close> is a step of the system: a call of the framework or a step of the proxy's threads, a
  step of a sensor's thread, the start of a post by another sub-HAL, or the next statement of a
  post under way: constructing its scoped wakelock, handing on the events, destroying the
  wakelock. So everything else can happen between the statements of a post. The other sub-HALs are
  values of a type \<open>'v\<close> behind their own \<open>sub_hal_ops\<close> and may change at any time.
\<close>

subsection \<open>Sub-HALs of two kinds\<close>

definition either_op :: "('a \<Rightarrow> 'r \<times> 'a) \<Rightarrow> ('b \<Rightarrow> 'r \<times> 'b) \<Rightarrow> 'a + 'b \<Rightarrow> 'r \<times> ('a + 'b)" where
  "either_op f g x =
     (case x of Inl a \<Rightarrow> (let (r, a) = f a in (r, Inl a)) | Inr b \<Rightarrow> (let (r, b) = g b in (r, Inr b)))"

definition sum_ops :: "'a sub_hal_ops \<Rightarrow> 'b sub_hal_ops \<Rightarrow> ('a + 'b) sub_hal_ops" where
  "sum_ops p q =
     \<lparr>op_getSensorsList = case_sum (op_getSensorsList p) (op_getSensorsList q),
      op_setOperationMode = (\<lambda>m. either_op (op_setOperationMode p m) (op_setOperationMode q m)),
      op_activate = (\<lambda>h b. either_op (op_activate p h b) (op_activate q h b)),
      op_batch = (\<lambda>h t l. either_op (op_batch p h t l) (op_batch q h t l)),
      op_flush = (\<lambda>h. either_op (op_flush p h) (op_flush q h)),
      op_injectSensorData = (\<lambda>e. either_op (op_injectSensorData p e) (op_injectSensorData q e)),
      op_initialize = (\<lambda>i. either_op (op_initialize p i) (op_initialize q i)),
      op_registerDirectChannel = either_op (op_registerDirectChannel p) (op_registerDirectChannel q),
      op_unregisterDirectChannel =
        (\<lambda>c. either_op (op_unregisterDirectChannel p c) (op_unregisterDirectChannel q c)),
      op_configDirectReport =
        (\<lambda>h c r. either_op (op_configDirectReport p h c r) (op_configDirectReport q h c r)),
      op_name = case_sum (op_name p) (op_name q)\<rparr>"

subsection \<open>Steps of the system\<close>

type_synonym 'v hal = "(subhal + 'v) proxy"

type_synonym ('w, 'v) hal_wakelock = "('w, 'v hal) scoped_wakelock"

text \<open>A post under way: the events and what of its scoped wakelock there is.\<close>

datatype 'w posting = Requested "Event list" bool | Holding 'w "Event list" | Leaving 'w

record ('w, 'v) hal_system =
  hal_proxy :: "'v hal"
  postings :: "(nat \<times> 'w posting) list"

definition new_posts :: "sensor \<Rightarrow> sensor \<Rightarrow> (Event list \<times> bool) list" where
  "new_posts t t' = drop (length (posted t)) (posted t')"

text \<open>
  The next statement of a post, with the callback of the sub-HAL as it is then (\<open>None\<close>: a null pointer,
  and so is the result): the post afterwards, unless it is over, and the proxy.
\<close>

fun post_turn ::
  "('w, 'v) hal_wakelock \<Rightarrow> 'x proxy_world \<Rightarrow> (i32 \<Rightarrow> SensorInfo) \<Rightarrow> ev_env \<Rightarrow> nat option \<Rightarrow>
   'w posting \<Rightarrow> 'v hal \<Rightarrow> ('w posting list \<times> 'v hal) option" where
  "post_turn SW W info env (Some j) (Requested evs wakeup) s =
     (let (wakelock, s) = createScopedWakelock SW env wakeup s in Some ([Holding wakelock evs], s))"
| "post_turn SW W info env (Some j) (Holding wakelock evs) s =
     Some ([Leaving wakelock],
       snd (postEvents (w_limits W) (w_consts W) info (mThreadsRun s) j env evs (sw_isLocked SW wakelock) s))"
| "post_turn SW W info env cb (Leaving wakelock) s = Some ([], sw_dtor SW wakelock s)"
| "post_turn SW W info env None p s = None"

text \<open>The callback a sub-HAL posts through; the other vendors use the one the proxy made for them.\<close>

definition callback_of :: "'v hal \<Rightarrow> nat \<Rightarrow> nat option" where
  "callback_of s j = (case mSubHalList s ! j of Inl sh \<Rightarrow> mCallback sh | Inr v \<Rightarrow> Some j)"

definition the_world :: "(subhal + 'v) proxy_world \<Rightarrow> 'v sub_hal_ops \<Rightarrow> sensor_env \<Rightarrow> (subhal + 'v) proxy_world" where
  "the_world W vops senv = W\<lparr>w_ops := sum_ops (SUB_HAL_OPS (w_consts W) senv) vops\<rparr>"

fun is_post :: "proxy_op \<Rightarrow> bool" where
  "is_post (PEvents (Post evs n locked)) \<longleftrightarrow> True"
| "is_post _ \<longleftrightarrow> False"

datatype hal_event =
    Framework proxy_op | SensorThread nat i32 sensor_op | VendorPosts nat "Event list" bool | VendorRuns nat
  | PostTurn nat

inductive hal_step ::
  "('w, 'v) hal_wakelock \<Rightarrow> (i32 \<Rightarrow> SensorInfo) \<Rightarrow> (subhal + 'v) proxy_world \<Rightarrow> 'v sub_hal_ops \<Rightarrow>
   ('w, 'v) hal_system \<Rightarrow> hal_event \<Rightarrow> ('w, 'v) hal_system \<Rightarrow> bool" for SW info W vops where
  framework: "\<not> is_post op \<Longrightarrow>
    hal_step SW info W vops S (Framework op)
      (S\<lparr>hal_proxy := proxy_step (the_world W vops senv) (hal_proxy S) (env, op)\<rparr>)"
| sensor_thread: "hs = mSubHalList (hal_proxy S) \<Longrightarrow> j < length hs \<Longrightarrow> hs ! j = Inl sh \<Longrightarrow>
    om_find (sh_mSensors sh) h = Some t \<Longrightarrow> op \<in> {RunLoop, PollReturns} \<Longrightarrow>
    sh' = subhal_step (w_consts W) sh (senv, SubThread h op) \<Longrightarrow>
    om_find (sh_mSensors sh') h = Some t' \<Longrightarrow>
    hal_step SW info W vops S (SensorThread j h op)
      (S\<lparr>hal_proxy := (hal_proxy S)\<lparr>mSubHalList := hs[j := Inl sh']\<rparr>,
         postings := postings S @ map (\<lambda>(evs, wakeup). (j, Requested evs wakeup)) (new_posts t t')\<rparr>)"
| vendor_posts: "hs = mSubHalList (hal_proxy S) \<Longrightarrow> j < length hs \<Longrightarrow> hs ! j = Inr v \<Longrightarrow>
    hal_step SW info W vops S (VendorPosts j evs wakeup)
      (S\<lparr>postings := postings S @ [(j, Requested evs wakeup)]\<rparr>)"
| vendor_runs: "hs = mSubHalList (hal_proxy S) \<Longrightarrow> j < length hs \<Longrightarrow> hs ! j = Inr v \<Longrightarrow>
    hal_step SW info W vops S (VendorRuns j) (S\<lparr>hal_proxy := (hal_proxy S)\<lparr>mSubHalList := hs[j := Inr v']\<rparr>\<rparr>)"
| post: "postings S = ps @ (j, p) # qs \<Longrightarrow>
    post_turn SW W info env (callback_of (hal_proxy S) j) p (hal_proxy S) = Some (p', s') \<Longrightarrow>
    hal_step SW info W vops S (PostTurn (length ps)) (S\<lparr>hal_proxy := s', postings := ps @ map (Pair j) p' @ qs\<rparr>)"

inductive hal_run ::
  "('w, 'v) hal_wakelock \<Rightarrow> (i32 \<Rightarrow> SensorInfo) \<Rightarrow> (subhal + 'v) proxy_world \<Rightarrow> 'v sub_hal_ops \<Rightarrow>
   ('w, 'v) hal_system \<Rightarrow> hal_event list \<Rightarrow> ('w, 'v) hal_system \<Rightarrow> bool" for SW info W vops S0 where
  start: "hal_run SW info W vops S0 [] S0"
| more: "hal_run SW info W vops S0 tr S \<Longrightarrow> hal_step SW info W vops S e S' \<Longrightarrow>
    hal_run SW info W vops S0 (tr @ [e]) S'"

text \<open>The calls that switch sensor \<open>h\<close> of the sub-HAL at position \<open>i\<close> on.\<close>

fun activates :: "i32 \<Rightarrow> nat \<Rightarrow> i32 \<Rightarrow> hal_event \<Rightarrow> bool" where
  "activates M i h (Framework (PActivate handle b)) \<longleftrightarrow>
     b \<and> extractSubHalIndex handle = i \<and> clearSubHalIndex M handle = h"
| "activates M i h _ \<longleftrightarrow> False"

text \<open>Other vendors keep the first byte of their handles clear, as the proxy asks of them.\<close>

fun clear_handles :: "i32 \<Rightarrow> hal_event \<Rightarrow> bool" where
  "clear_handles M (VendorPosts j evs wakeup) \<longleftrightarrow> list_all (\<lambda>e. subHalIndexIsClear M (ev_handle e)) evs"
| "clear_handles M _ \<longleftrightarrow> True"

subsection \<open>What the calls of the proxy do to one sub-HAL\<close>

definition sub_activations :: "i32 \<Rightarrow> (sensor_env \<times> subhal_op) list \<Rightarrow> nat" where
  "sub_activations h ops = length (filter (\<lambda>p. snd p = SubActivate h True) ops)"

fun call_of :: "nat \<Rightarrow> subhal_op \<Rightarrow> bool" where
  "call_of j (SubInitialize k) \<longleftrightarrow> k = j"
| "call_of j (SubThread h op) \<longleftrightarrow> False"
| "call_of j _ \<longleftrightarrow> True"

text \<open>
  \<open>moves K j h n x y\<close>: \<open>y\<close> is \<open>x\<close> after calls of the proxy, if \<open>x\<close> is the gesture sub-HAL at position
  \<open>j\<close>, at most \<open>n\<close> of them switching sensor \<open>h\<close> on.
\<close>

definition moves :: "sensor_consts \<Rightarrow> nat \<Rightarrow> i32 \<Rightarrow> nat \<Rightarrow> subhal + 'v \<Rightarrow> subhal + 'v \<Rightarrow> bool" where
  "moves K j h n x y \<longleftrightarrow>
     (case x of
        Inr v \<Rightarrow> \<not> isl y
      | Inl sh \<Rightarrow> \<exists>ops. y = Inl (foldl (subhal_step K) sh ops) \<and> list_all (\<lambda>p. call_of j (snd p)) ops \<and>
          sub_activations h ops \<le> n)"

lemma moves_refl: "moves K j h n x x"
  by (auto simp: moves_def sub_activations_def split: sum.split intro: exI[of _ "[]"])

lemma moves_trans:
  assumes "moves K j h m x y" and "moves K j h n y z"
  shows "moves K j h (m + n) x z"
proof (cases x)
  case (Inl sh)
  obtain ops where ops: "y = Inl (foldl (subhal_step K) sh ops)" "list_all (\<lambda>p. call_of j (snd p)) ops"
    "sub_activations h ops \<le> m"
    using assms(1) Inl by (auto simp: moves_def)
  obtain ops' where "z = Inl (foldl (subhal_step K) (foldl (subhal_step K) sh ops) ops')"
    "list_all (\<lambda>p. call_of j (snd p)) ops'" "sub_activations h ops' \<le> n"
    using assms(2) ops(1) by (auto simp: moves_def)
  with ops show ?thesis
    by (auto simp: moves_def Inl sub_activations_def intro!: exI[of _ "ops @ ops'"])
qed (use assms in \<open>cases y; simp add: moves_def\<close>)

lemma moves_more: "moves K j h m x y \<Longrightarrow> m \<le> n \<Longrightarrow> moves K j h n x y"
  by (auto simp: moves_def split: sum.splits intro: order_trans)

text \<open>An operation that, on the gesture sub-HAL, is one of its calls or nothing.\<close>

lemma moves_call:
  assumes "\<And>sh. snd (f sh) = subhal_step K sh (env, op)" and "call_of j op" "op = SubActivate h True \<longrightarrow> 0 < n"
  shows "moves K j h n x (snd (either_op f g x))"
proof (cases x)
  case (Inl sh)
  then show ?thesis
    using assms by (auto simp: either_op_def case_prod_beta moves_def sub_activations_def
        simp del: subhal_step.simps intro!: exI[of _ "[(env, op)]"])
qed (simp add: moves_def either_op_def case_prod_beta)

lemma moves_idle: "(\<And>sh. snd (f sh) = sh) \<Longrightarrow> moves K j h n x (snd (either_op f g x))"
  using moves_refl[of K j h n x]
  by (cases x) (simp_all add: either_op_def case_prod_beta moves_def)

abbreviation hal_ops :: "sensor_consts \<Rightarrow> sensor_env \<Rightarrow> 'v sub_hal_ops \<Rightarrow> (subhal + 'v) sub_hal_ops" where
  "hal_ops K senv vops \<equiv> sum_ops (SUB_HAL_OPS K senv) vops"

lemmas hal_ops_defs = sum_ops_def SUB_HAL_OPS_def sub_hal_ops.simps

lemma ops_move:
  "moves K j h (of_bool (b \<and> h' = h)) x (snd (op_activate (hal_ops K senv vops) h' b x))"
  "moves K j h 0 x (snd (op_batch (hal_ops K senv vops) h' p l x))"
  "moves K j h 0 x (snd (op_flush (hal_ops K senv vops) h' x))"
  "moves K j h 0 x (snd (op_injectSensorData (hal_ops K senv vops) e x))"
  "moves K j h 0 x (snd (op_setOperationMode (hal_ops K senv vops) m x))"
  "moves K j h 0 x (snd (op_initialize (hal_ops K senv vops) j x))"
  "moves K j h 0 x (snd (op_registerDirectChannel (hal_ops K senv vops) x))"
  "moves K j h 0 x (snd (op_unregisterDirectChannel (hal_ops K senv vops) c x))"
  "moves K j h 0 x (snd (op_configDirectReport (hal_ops K senv vops) h' c r x))"
  unfolding hal_ops_defs
  by (rule moves_call[of _ K senv "SubActivate h' b"], simp, simp, simp,
      rule moves_call[of _ K senv "SubBatch h' p l"], simp, simp, simp,
      rule moves_call[of _ K senv "SubFlush h'"], simp, simp, simp,
      rule moves_call[of _ K senv "SubInject e"], simp, simp, simp,
      rule moves_call[of _ K senv "SubSetMode m"], simp, simp, simp,
      rule moves_call[of _ K senv "SubInitialize j"], simp, simp, simp,
      rule moves_idle, simp add: SubHal_registerDirectChannel_def,
      rule moves_idle, simp add: SubHal_unregisterDirectChannel_def,
      rule moves_idle, simp add: SubHal_configDirectReport_def)

text \<open>
  The whole list: the sub-HAL at position \<open>i\<close> moves, and every position keeps its kind.
\<close>

definition list_moves :: "sensor_consts \<Rightarrow> nat \<Rightarrow> i32 \<Rightarrow> nat \<Rightarrow> (subhal + 'v) list \<Rightarrow> (subhal + 'v) list \<Rightarrow> bool" where
  "list_moves K i h n hs hs' \<longleftrightarrow> length hs' = length hs \<and> moves K i h n (hs ! i) (hs' ! i) \<and>
     (\<forall>j < length hs. isl (hs' ! j) = isl (hs ! j))"

lemma moves_kind: "moves K j h n x y \<Longrightarrow> isl y = isl x"
  by (cases x) (auto simp: moves_def)

lemma list_moves_refl: "list_moves K i h n hs hs"
  by (simp add: list_moves_def moves_refl)

lemma list_moves_trans: "list_moves K i h m hs hs' \<Longrightarrow> list_moves K i h n hs' hs'' \<Longrightarrow> list_moves K i h (m + n) hs hs''"
  by (auto simp: list_moves_def intro: moves_trans)

lemma list_moves_all:
  "length hs' = length hs \<Longrightarrow> i < length hs \<Longrightarrow> (\<And>j. j < length hs \<Longrightarrow> moves K j h n (hs ! j) (hs' ! j)) \<Longrightarrow>
   list_moves K i h n hs hs'"
  using moves_kind by (fastforce simp: list_moves_def)

lemma on_sub_hal_moves:
  assumes "\<And>x. moves K k h n x (snd (f x))" and "k = i \<Longrightarrow> n \<le> m"
  shows "list_moves K i h m (mSubHalList s) (mSubHalList (snd (on_sub_hal k f s)))"
proof (cases "k < length (mSubHalList s)")
  case True
  have new: "mSubHalList (snd (on_sub_hal k f s)) = (mSubHalList s)[k := snd (f (mSubHalList s ! k))]"
    by (simp add: on_sub_hal_def case_prod_beta)
  show ?thesis
    using True assms(1)[of "mSubHalList s ! k"] moves_kind[OF assms(1)] moves_refl assms(2)
    by (auto simp: list_moves_def new nth_list_update intro: moves_more)
qed (simp add: on_sub_hal_def case_prod_beta list_moves_refl list_update_beyond)


lemma activate_moves:
  "list_moves K i h (of_bool (b \<and> extractSubHalIndex handle = i \<and> clearSubHalIndex M handle = h))
     (mSubHalList s) (mSubHalList (snd (activate (hal_ops K senv vops) M handle b s)))"
  unfolding activate_def using list_moves_refl
  by (auto intro!: on_sub_hal_moves[OF ops_move(1)])

lemma routed_moves:
  "list_moves K i h 0 (mSubHalList s) (mSubHalList (snd (batch (hal_ops K senv vops) M handle p l s)))"
  "list_moves K i h 0 (mSubHalList s) (mSubHalList (snd (flush (hal_ops K senv vops) M handle s)))"
  "list_moves K i h 0 (mSubHalList s) (mSubHalList (snd (injectSensorData (hal_ops K senv vops) K' M conv e s)))"
  "list_moves K i h 0 (mSubHalList s) (mSubHalList (snd (registerDirectChannel (hal_ops K senv vops) s)))"
  "list_moves K i h 0 (mSubHalList s) (mSubHalList (snd (unregisterDirectChannel (hal_ops K senv vops) c s)))"
  "list_moves K i h 0 (mSubHalList s) (mSubHalList (snd (configDirectReport (hal_ops K senv vops) M st handle c r s)))"
  unfolding batch_def flush_def injectSensorData_def registerDirectChannel_def
    unregisterDirectChannel_def configDirectReport_def Let_def
  by (auto intro!: on_sub_hal_moves[OF ops_move(2)] on_sub_hal_moves[OF ops_move(3)]
      on_sub_hal_moves[OF ops_move(4)] on_sub_hal_moves[OF ops_move(7)] on_sub_hal_moves[OF ops_move(8)]
      on_sub_hal_moves[OF ops_move(9)] list_moves_refl split: option.split)

text \<open>Switching the mode of some of the sub-HALs.\<close>

lemma set_modes_nth:
  "set_modes ops m hs = (r, k, hs') \<Longrightarrow> length hs' = length hs \<and>
   (\<forall>j < length hs. hs' ! j = hs ! j \<or> hs' ! j = snd (op_setOperationMode ops m (hs ! j)))"
proof (induction hs arbitrary: r k hs')
  case (Cons x hs)
  obtain r1 x1 where x1: "op_setOperationMode ops m x = (r1, x1)" by fastforce
  obtain r2 k2 hs2 where rest: "set_modes ops m hs = (r2, k2, hs2)" by (cases "set_modes ops m hs")
  have "hs' = x1 # (if r1 \<noteq> OK then hs else hs2)"
    using Cons.prems x1 rest by (auto split: if_splits)
  with Cons.IH[OF rest] x1 show ?case by (auto simp: less_Suc_eq_0_disj)
qed simp

lemma setOperationMode_moves:
  assumes "i < length (mSubHalList s)"
  shows "list_moves K i h 0 (mSubHalList s) (mSubHalList (snd (setOperationMode (hal_ops K senv vops) m s)))"
proof -
  let ?ops = "hal_ops K senv vops"
  let ?undo = "\<lambda>x. snd (op_setOperationMode ?ops (mCurrentOperationMode s) x)"
  obtain r k hs where e: "set_modes ?ops m (mSubHalList s) = (r, k, hs)"
    by (cases "set_modes ?ops m (mSubHalList s)")
  note hs = set_modes_nth[OF e]
  have forth: "list_moves K i h 0 (mSubHalList s) hs"
    using hs assms ops_move(5)[of K _ h _ senv vops m] by (intro list_moves_all) (auto simp: moves_refl; metis moves_refl)+
  have "list_moves K i h 0 hs (map ?undo (take k hs) @ drop k hs)"
  proof (rule list_moves_all)
    fix j
    assume "j < length hs"
    then show "moves K j h 0 (hs ! j) ((map ?undo (take k hs) @ drop k hs) ! j)"
      by (cases "j < k") (simp_all add: nth_append ops_move(5) moves_refl)
  qed (use hs assms in simp_all)
  from list_moves_trans[OF forth this] forth show ?thesis
    by (simp add: setOperationMode_def e)
qed

lemma disable_moves: "list_moves K i h 0 (mSubHalList s) (mSubHalList (disable_keys (hal_ops K senv vops) M ks s))"
proof (induction ks arbitrary: s)
  case (Cons k ks)
  let ?s = "snd (activate (hal_ops K senv vops) M k False s)"
  have "list_moves K i h 0 (mSubHalList s) (mSubHalList ?s)"
    using activate_moves[of K i h False k M s senv vops] by simp
  from list_moves_trans[OF this Cons.IH[of ?s]] show ?case
    by (simp add: disable_keys_def)
qed (simp add: disable_keys_def list_moves_refl)

lemma disableAll_moves:
  "list_moves K i h 0 (mSubHalList s) (mSubHalList (disableAllSensors (hal_ops K senv vops) M s))"
  using list_moves_trans[OF disable_moves disable_moves, of K i h s senv vops M]
  by (simp add: disableAllSensors_def Let_def)

lemma init_moves:
  assumes "i < length hs" and "initialize_subs (hal_ops K senv vops) 0 hs = (r, hs')"
  shows "list_moves K i h 0 hs hs'"
  using initialize_subs_spec[OF assms(2)] assms(1) ops_move(6)[of K _ h _ senv vops]
  by (intro list_moves_all) (auto simp: moves_refl)

lemma joined_subs: "mSubHalList (resetSharedWakelock env (join_threads L K env (stopThreads s))) = mSubHalList (s :: 'h proxy)"
proof -
  have run: "proxy_events.more (foldl (ev_step L K) t evs) = proxy_events.more t" for t :: "'h proxy" and evs
    by (induction evs arbitrary: t) (simp_all add: ev_more)
  have "proxy_events.more (stopThreads s) = proxy_events.more s"
    using ev_more[of L K s "(env, Stop)"] by simp
  then have "proxy_events.more (resetSharedWakelock env (join_threads L K env (stopThreads s))) = proxy_events.more s"
    by (simp only: wakelock_more join_threads_def run)
  then show ?thesis by (rule proxy_more)
qed

lemma initializeCommon_moves:
  assumes "i < length (mSubHalList s)"
  shows "list_moves K i h 0 (mSubHalList s)
    (mSubHalList (snd (initializeCommon L (hal_ops K senv vops) K' M env eq wq cb s)))"
proof -
  let ?t = "resetSharedWakelock env (join_threads L K' env (stopThreads s))"
  let ?d = "mSubHalList (disableAllSensors (hal_ops K senv vops) M ?t)"
  have off: "list_moves K i h 0 (mSubHalList s) ?d"
    using disableAll_moves[of K i h ?t senv vops M] by (simp add: joined_subs)
  obtain r hs where init: "initialize_subs (hal_ops K senv vops) 0 ?d = (r, hs)" by fastforce
  have "list_moves K i h 0 ?d hs"
    using init_moves[OF _ init] off assms by (simp add: list_moves_def)
  from list_moves_trans[OF off this] show ?thesis
    using init by (simp add: initializeCommon_def Let_def clearPending_def makeFlags_def startThreads_def)
qed

lemma proxy_step_moves:
  assumes "i < length (mSubHalList s)"
  shows "list_moves (w_consts W) i h (of_bool (activates (w_mask W) i h (Framework op)))
    (mSubHalList s) (mSubHalList (proxy_step (the_world W vops senv) s (env, op)))"
proof (cases op)
  case (PActivate handle b)
  then show ?thesis
    using activate_moves[of "w_consts W" i h b handle "w_mask W" s senv vops] by (simp add: the_world_def)
qed (use assms in \<open>simp_all add: the_world_def routed_moves setOperationMode_moves initializeCommon_moves
  initialize_def initialize_2_1_def onDynamicSensorsConnected_def onDynamicSensorsDisconnected_def
  list_moves_refl proxy_more[OF ev_more] split: prod.split\<close>)

subsection \<open>What the calls do to one sensor\<close>

text \<open>A step of the sub-HAL is at most one step of each sensor, an activation only if it is one.\<close>

lemma subhal_step_sensor:
  assumes "om_find (sh_mSensors sh) h = Some t"
  shows "\<exists>evs. om_find (sh_mSensors (subhal_step K sh (env, op))) h = Some (foldl (sensor_step K) t evs) \<and>
    activations evs = of_bool (op = SubActivate h True) \<and>
    (\<forall>h' r. op = SubThread h' r \<longrightarrow> evs = (if h' = h \<and> r \<in> {RunLoop, PollReturns} then [(env, r)] else [])) \<and>
    ((\<forall>h' r. op \<noteq> SubThread h' r) \<longrightarrow> list_all (\<lambda>e. snd e \<notin> {RunLoop, PollReturns}) evs)"
proof -
  have map_find: "om_find (map (\<lambda>(h, s). (h, f s)) m) k = map_option f (om_find m k)" for f :: "sensor \<Rightarrow> sensor" and m k
    by (simp add: om_find_def map_of_map)
  have one: ?thesis
    if "om_find (sh_mSensors (subhal_step K sh (env, op))) h = Some (foldl (sensor_step K) t evs)"
      "activations evs = of_bool (op = SubActivate h True)"
      "\<And>h' r. op = SubThread h' r \<Longrightarrow> evs = (if h' = h \<and> r \<in> {RunLoop, PollReturns} then [(env, r)] else [])"
      "(\<And>h' r. op \<noteq> SubThread h' r) \<Longrightarrow> list_all (\<lambda>e. snd e \<notin> {RunLoop, PollReturns}) evs" for evs
    using that by blast
  show ?thesis
  proof (cases op)
    case (SubSetMode m)
    show ?thesis
      by (rule one[of "[(env, OpSetMode m)]"])
        (use assms in \<open>simp_all add: SubSetMode SubHal_setOperationMode_def map_find activations_def\<close>)
  next
    case (SubActivate h' b)
    show ?thesis
      by (rule one[of "if h' = h then [(env, OpActivate b)] else []"])
        (use assms in \<open>auto simp: SubActivate SubHal_activate_def om_find_put activations_def split: option.split\<close>)
  next
    case (SubBatch h' p l)
    show ?thesis
      by (rule one[of "if h' = h then [(env, OpBatch (ucast p))] else []"])
        (use assms in \<open>auto simp: SubBatch SubHal_batch_def om_find_put activations_def split: option.split\<close>)
  next
    case (SubFlush h')
    show ?thesis
      by (rule one[of "if h' = h then [(env, OpFlush)] else []"])
        (use assms in \<open>auto simp: SubFlush SubHal_flush_def om_find_put activations_def split: option.split prod.split\<close>)
  next
    case (SubInject e)
    show ?thesis
      by (rule one[of "if ev_handle e = h then [(env, OpInject e)] else []"])
        (use assms in \<open>auto simp: SubInject SubHal_injectSensorData_def om_find_put activations_def split: option.split prod.split\<close>)
  next
    case (SubInitialize j)
    show ?thesis
      by (rule one[of "[(env, OpSetMode NORMAL)]"])
        (use assms in \<open>simp_all add: SubInitialize SubHal_initialize_def SubHal_setOperationMode_def map_find activations_def\<close>)
  next
    case (SubThread h' r)
    show ?thesis
      by (rule one[of "if h' = h \<and> r \<in> {RunLoop, PollReturns} then [(env, r)] else []"])
        (use assms in \<open>auto simp: SubThread om_find_put activations_def split: option.split\<close>)
  qed
qed


definition gesture :: "sensor_consts \<Rightarrow> sensor \<Rightarrow> bool" where
  "gesture K t \<longleftrightarrow> cls t \<noteq> PlainSensor \<and> \<not> supportsDataInjection K t"

definition spent :: "sensor \<Rightarrow> nat" where
  "spent t = length (posted t) + of_bool (armed t)"

lemma gesture_step: "gesture K t \<Longrightarrow> gesture K (sensor_step K t ev) \<and> spent (sensor_step K t ev) \<le> spent t + activations [ev]"
  using sensor_step_static[of t K ev] sensor_step_budget[of t K ev]
  by (simp add: gesture_def spent_def supportsDataInjection_def)

lemma call_posts_nothing:
  "gesture K t \<Longrightarrow> snd ev \<notin> {RunLoop, PollReturns} \<Longrightarrow> posted (sensor_step K t ev) = posted t"
  by (cases "(K, t, ev)" rule: sensor_step.cases; cases "cls t")
    (simp_all add: gesture_def virtual_defs injectEvent_refused udfps.act_keeps single_tap.act_keeps
      double_tap.act_keeps)

lemma thread_posts:
  assumes "gesture K t"
  obtains new where "posted (sensor_step K t ev) = posted t @ new" "list_all (own_post K t) new"
proof (cases "snd ev = PollReturns \<and> pc t = Polling")
  case True
  then have "sensor_step K t ev = v_poll_return K (fst ev) t" by (cases ev) simp
  then show ?thesis
    using that[of "[]"] that udfps.ret_posts[of K "fst ev" t] single_tap.ret_posts[of K "fst ev" t]
      double_tap.ret_posts[of K "fst ev" t] assms
    by (cases "cls t") (auto simp: v_poll_return_def gesture_def)
next
  case False
  have "posted (sensor_step K t ev) = posted t"
  proof (cases "snd ev \<in> {RunLoop, PollReturns}")
    case True
    with False assms show ?thesis by (cases ev) (auto simp: v_run_alt gesture_def)
  qed (simp add: call_posts_nothing[OF assms])
  then show ?thesis using that[of "[]"] by simp
qed

lemma gesture_calls:
  "gesture K t \<Longrightarrow> list_all (\<lambda>e. snd e \<notin> {RunLoop, PollReturns}) evs \<Longrightarrow>
   gesture K (foldl (sensor_step K) t evs) \<and> posted (foldl (sensor_step K) t evs) = posted t \<and>
   spent (foldl (sensor_step K) t evs) \<le> spent t + activations evs"
proof (induction evs arbitrary: t)
  case (Cons ev evs)
  have "activations (ev # evs) = activations [ev] + activations evs" by (simp add: activations_def)
  moreover have step: "gesture K (sensor_step K t ev)" "spent (sensor_step K t ev) \<le> spent t + activations [ev]"
    "posted (sensor_step K t ev) = posted t"
    using gesture_step[OF Cons.prems(1), of ev] call_posts_nothing[OF Cons.prems(1), of ev] Cons.prems(2) by simp_all
  ultimately show ?case
    using Cons.IH[OF step(1)] Cons.prems(2) by simp
qed (simp add: activations_def)

text \<open>A gesture sub-HAL in use: its sensors are as it declared them and its callback is its own.\<close>

definition in_use :: "sensor_consts \<Rightarrow> SensorInfo \<Rightarrow> nat \<Rightarrow> subhal \<Rightarrow> bool" where
  "in_use K uninit j sh \<longleftrightarrow> subhal_inv K (subhal_infos K uninit) sh \<and> mCallback sh \<in> {None, Some j}"

lemma in_use_sensor:
  "in_use K uninit j sh \<Longrightarrow> om_find (sh_mSensors sh) h = Some t \<Longrightarrow>
   gesture K t \<and> sensorHandle (mSensorInfo t) = h"
  using subhal_inv_find by (fastforce simp: in_use_def sensor_ok_def gesture_def)

lemma callback_step:
  assumes "in_use K uninit j sh" and "call_of j op \<or> (\<exists>h r. op = SubThread h r)"
  shows "in_use K uninit j (subhal_step K sh (env, op))"
proof -
  have "mCallback (subhal_step K sh (env, op)) \<in> {mCallback sh, Some j}"
    using assms(2)
    by (cases op) (auto simp: SubHal_setOperationMode_def SubHal_activate_def SubHal_batch_def
        SubHal_flush_def SubHal_injectSensorData_def SubHal_initialize_def split: option.split prod.split)
  with assms(1) show ?thesis by (auto simp: in_use_def subhal_step_inv simp del: subhal_step.simps)
qed

lemma calls_spend:
  assumes "in_use K uninit j sh" and "om_find (sh_mSensors sh) h = Some t"
    and "list_all (\<lambda>p. call_of j (snd p)) ops"
  shows "in_use K uninit j (foldl (subhal_step K) sh ops) \<and>
    (\<exists>t'. om_find (sh_mSensors (foldl (subhal_step K) sh ops)) h = Some t' \<and> posted t' = posted t \<and>
       spent t' \<le> spent t + sub_activations h ops)"
  using assms
proof (induction ops arbitrary: sh t)
  case (Cons p ops)
  obtain env op where p: "p = (env, op)" by fastforce
  let ?sh = "subhal_step K sh (env, op)"
  have call: "call_of j op" using Cons.prems(3) p by simp
  then have "\<forall>h' r. op \<noteq> SubThread h' r" by (cases op) auto
  then obtain evs where evs: "om_find (sh_mSensors ?sh) h = Some (foldl (sensor_step K) t evs)"
    "activations evs = of_bool (op = SubActivate h True)" "list_all (\<lambda>e. snd e \<notin> {RunLoop, PollReturns}) evs"
    using subhal_step_sensor[OF Cons.prems(2), of K env op] by blast
  have "gesture K t" using in_use_sensor[OF Cons.prems(1,2)] by blast
  note sensor = gesture_calls[OF this evs(3)]
  have "sub_activations h (p # ops) = of_bool (op = SubActivate h True) + sub_activations h ops"
    by (simp add: sub_activations_def p)
  moreover have "in_use K uninit j ?sh" by (rule callback_step[OF Cons.prems(1)]) (simp add: call)
  ultimately show ?case
    using Cons.IH[of ?sh, OF _ evs(1)] Cons.prems(3) sensor evs(2)
    by (auto simp: p simp del: subhal_step.simps)
qed (simp add: sub_activations_def)


subsection \<open>Events of one handle in the stream\<close>

definition hcount :: "i32 \<Rightarrow> 'a proxy_events_scheme \<Rightarrow> nat" where
  "hcount x s = length (filter (\<lambda>e. ev_handle e = x) (stream s))"

lemma hcount_drop: "length (filter P (drop n xs)) \<le> length (filter P xs)"
  by (metis append_take_drop_id filter_append le_add2 length_append)

lemma hcount_take: "length (filter P (take n xs)) \<le> length (filter P xs)"
  by (metis append_take_drop_id filter_append le_add1 length_append)

lemma hcount_ev:
  assumes "pending_inv L s" and "\<not> is_post (PEvents op)"
  shows "hcount x (ev_step L K s (env, op)) \<le> hcount x s"
  unfolding hcount_def ev_step_stream[OF assms(1)]
  using assms(2) hcount_drop
  by (cases op) (auto simp: stream_def split: pending_pc.split)

lemma hcount_evs:
  "pending_inv L s \<Longrightarrow> list_all (\<lambda>ev. \<not> is_post (PEvents (snd ev))) evs \<Longrightarrow>
   hcount x (foldl (ev_step L K) s evs) \<le> hcount x s"
proof (induction evs arbitrary: s)
  case (Cons ev evs)
  have "hcount x (ev_step L K s ev) \<le> hcount x s"
    using hcount_ev[OF Cons.prems(1), of "snd ev" x K "fst ev"] Cons.prems(2) by simp
  with Cons.IH[OF ev_step_pending[OF Cons.prems(1)], of K ev] Cons.prems(2) show ?case by simp
qed simp

lemma hcount_frame [simp]:
  "hcount x (s\<lparr>mSubHalList := hs\<rparr>) = hcount x s" "hcount x (s\<lparr>mDynamicSensors := d\<rparr>) = hcount x s"
  "hcount x (s\<lparr>mCurrentOperationMode := m\<rparr>) = hcount x s" "hcount x (s\<lparr>framework_out := f\<rparr>) = hcount x s"
  "hcount x (s\<lparr>mDynamicSensorsCallback := c\<rparr>) = hcount x s" "hcount x (s\<lparr>mEventQueue := q\<rparr>) = hcount x s"
  "hcount x (s\<lparr>mWakeLockQueue := w\<rparr>) = hcount x s" "hcount x (startThreads s) = hcount x s"
  "hcount x (makeFlags env s) = hcount x s" "hcount x (resetSharedWakelock env s) = hcount x s"
  using reset_pending[of env s, THEN stream_same]
  by (simp_all add: hcount_def stream_def delivered_def startThreads_def makeFlags_def)

lemma hcount_clear: "hcount x (clearPending s) \<le> hcount x s"
  by (simp add: hcount_def stream_def delivered_def clearPending_def)

lemma hcount_on_sub: "hcount x (snd (on_sub_hal k f s)) = hcount x s"
  using on_sub_hal_list[of k f s] by auto

lemma hcount_routed:
  "hcount x (snd (activate ops M h b s)) = hcount x s" "hcount x (snd (batch ops M h p l s)) = hcount x s"
  "hcount x (snd (flush ops M h s)) = hcount x s" "hcount x (snd (injectSensorData ops K M conv e s)) = hcount x s"
  "hcount x (snd (registerDirectChannel ops s)) = hcount x s"
  "hcount x (snd (unregisterDirectChannel ops c s)) = hcount x s"
  "hcount x (snd (configDirectReport ops M st h c r s)) = hcount x s"
  by (simp_all add: activate_def batch_def flush_def injectSensorData_def registerDirectChannel_def
      unregisterDirectChannel_def configDirectReport_def hcount_on_sub Let_def split: option.split)

lemma hcount_initialize:
  assumes "pending_inv L s"
  shows "hcount x (snd (initializeCommon L ops K M env eq wq cb s)) \<le> hcount x s"
proof -
  let ?t = "join_threads L K env (stopThreads s)"
  have "hcount x ?t = hcount x (foldl (ev_step L K) s [(env, Stop), (env, PwEnd), (env, PwBegin), (env, WlEnd), (env, WlBegin)])"
    by (simp add: join_threads_def)
  also have "\<dots> \<le> hcount x s" by (rule hcount_evs[OF assms]) simp
  finally have joined: "hcount x ?t \<le> hcount x s" .
  obtain hs where off: "disableAllSensors ops M (resetSharedWakelock env ?t) = (resetSharedWakelock env ?t)\<lparr>mSubHalList := hs\<rparr>"
    using disableAllSensors_list by blast
  have "hcount x (clearPending (disableAllSensors ops M (resetSharedWakelock env ?t))) \<le> hcount x s"
    using joined hcount_clear[of x "disableAllSensors ops M (resetSharedWakelock env ?t)"] by (simp add: off)
  then show ?thesis by (simp add: initializeCommon_def Let_def split: prod.split)
qed

lemma hcount_proxy_step:
  assumes "pending_inv (w_limits W) s" and "\<not> is_post op"
  shows "hcount x (proxy_step W s (env, op)) \<le> hcount x s"
proof (cases op)
  case (PSetOperationMode m)
  then show ?thesis by (simp add: setOperationMode_def split: prod.split)
qed (use assms hcount_ev[OF assms(1), of _ x "w_consts W" env] in \<open>simp_all add: hcount_routed hcount_initialize
  initialize_def initialize_2_1_def onDynamicSensorsConnected_def onDynamicSensorsDisconnected_def
  split: prod.split del: ev_step.simps\<close>)


lemma hcount_post:
  assumes "pending_inv L s"
  shows "hcount x (ev_step L K s (env, Post evs n locked)) \<le> hcount x s + length (filter (\<lambda>e. ev_handle e = x) evs)"
  using hcount_take[of "\<lambda>e. ev_handle e = x" "num_to_write env evs s" evs]
  by (simp add: hcount_def stream_post[OF assms] accepted_events_def Let_def)

subsection \<open>Posts under way\<close>

fun events_of :: "'w posting \<Rightarrow> Event list" where
  "events_of (Requested evs wakeup) = evs"
| "events_of (Holding wakelock evs) = evs"
| "events_of (Leaving wakelock) = []"

text \<open>How many events a post at position \<open>j\<close> may still add under the handle \<open>x\<close>.\<close>

definition tagged :: "i32 \<Rightarrow> nat \<times> 'w posting \<Rightarrow> nat" where
  "tagged x jp = length (filter (\<lambda>e. ev_handle (tag (fst jp) e) = x) (events_of (snd jp)))"

definition flying :: "i32 \<Rightarrow> (nat \<times> 'w posting) list \<Rightarrow> nat" where
  "flying x ps = sum_list (map (tagged x) ps)"

lemma flying_simps [simp]:
  "flying x [] = 0" "flying x (p # ps) = tagged x p + flying x ps" "flying x (ps @ qs) = flying x ps + flying x qs"
  by (simp_all add: flying_def)

lemma ev_step_effect:
  assumes "proxy_wf L m (s :: 'h proxy)"
  shows "proxy_wf L m (ev_step L K s ev)" "mSubHalList (ev_step L K s ev) = mSubHalList s"
  using ev_step_wf[OF assms] proxy_more[OF ev_more] by blast+

lemma post_effect:
  fixes s :: "'h proxy"
  assumes "proxy_wf L m s" and "s' = snd (postEvents L K info running j env evs locked s)"
  shows "proxy_wf L m s'" "mSubHalList s' = mSubHalList s"
    "hcount x s' \<le> hcount x s + length (filter (\<lambda>e. ev_handle (tag j e) = x) evs)"
proof -
  let ?es = "filter (kept K info) (map (tag j) evs)"
  let ?n = "length (filter (\<lambda>e. kept K info e \<and> wakes K info e) (map (tag j) evs))"
  have s': "s' \<in> {s, ev_step L K s (env, Post ?es ?n locked)}"
    by (simp add: assms(2) postEvents_def processEvents_spec)
  show "proxy_wf L m s'" "mSubHalList s' = mSubHalList s"
    using s' assms(1) ev_step_effect[OF assms(1), of K] by (auto simp del: ev_step.simps)
  have "length (filter (\<lambda>e. ev_handle e = x) ?es) \<le> length (filter (\<lambda>e. ev_handle (tag j e) = x) evs)"
    by (induction evs) auto
  moreover have "pending_inv L s" using assms(1) by (simp add: proxy_wf_def)
  note hcount_post[OF this, of x K env ?es ?n locked]
  ultimately show "hcount x s' \<le> hcount x s + length (filter (\<lambda>e. ev_handle (tag j e) = x) evs)"
    using s' by (auto simp del: ev_step.simps)
qed

text \<open>A statement of a post: it moves events from the post to the stream, and leaves the rest alone.\<close>

lemma post_turn_effect:
  fixes s :: "'v hal"
  assumes "scoped_documented SW" and "proxy_wf (w_limits W) m s" and "cb \<in> {None, Some j}"
    and "post_turn SW W info env cb p s = Some (p', s')"
  shows "proxy_wf (w_limits W) m s' \<and> mSubHalList s' = mSubHalList s \<and>
    hcount x s' + flying x (map (Pair j) p') \<le> hcount x s + tagged x (j, p)"
proof (cases p)
  case (Requested evs wakeup)
  have inv: "pending_inv (w_limits W) s" using assms(2) by (simp add: proxy_wf_def)
  have "s' = (if wakeup then ev_step (w_limits W) undefined s (env, WlIncrement 1) else s)"
    "\<exists>w. p' = [Holding w evs]"
    using assms(1,3,4) Requested by (auto simp: createScopedWakelock_def case_prod_beta scoped_documented_def)
  then show ?thesis
    using assms(2) ev_step_effect[OF assms(2)] hcount_ev[OF inv, of "WlIncrement 1" x]
    by (auto simp: Requested tagged_def simp del: ev_step.simps)
next
  case (Holding w evs)
  then have "s' = snd (postEvents (w_limits W) (w_consts W) info (mThreadsRun s) j env evs (sw_isLocked SW w) s)"
    "p' = [Leaving w]"
    using assms(3,4) by auto
  then show ?thesis
    using post_effect[OF assms(2), of s' "w_consts W" info "mThreadsRun s" j env evs "sw_isLocked SW w"] by (simp add: Holding tagged_def)
next
  case (Leaving w)
  have inv: "pending_inv (w_limits W) s" using assms(2) by (simp add: proxy_wf_def)
  have "s' = (if sw_isLocked SW w then ev_step (w_limits W) undefined s (env, WlDecrement 1 (sw_createdAt SW w)) else s)"
    "p' = []"
    using assms(1,4) Leaving by (auto simp: scoped_documented_def)
  then show ?thesis
    using assms(2) ev_step_effect[OF assms(2)] hcount_ev[OF inv, of "WlDecrement 1 (sw_createdAt SW w)" x]
    by (auto simp: Leaving tagged_def simp del: ev_step.simps)
qed


subsection \<open>The invariant of a run\<close>

text \<open>
  After \<open>k\<close> activations of sensor \<open>h\<close> of the gesture sub-HAL at position \<open>i\<close>: what the framework has
  got from that sensor, what waits in the proxy and in posts under way, and whether it is
  armed, are within \<open>k\<close>.
\<close>

definition hal_inv ::
  "(subhal + 'v) proxy_world \<Rightarrow> SensorInfo \<Rightarrow> nat \<Rightarrow> i32 \<Rightarrow> nat \<Rightarrow> nat \<Rightarrow> ('w, 'v) hal_system \<Rightarrow> bool" where
  "hal_inv W uninit i h n k S \<longleftrightarrow> proxy_wf (w_limits W) n (hal_proxy S) \<and>
     (\<forall>j < n. isl (mSubHalList (hal_proxy S) ! j) = (j = i)) \<and> (\<forall>jp \<in> set (postings S). fst jp < n) \<and>
     (\<exists>sh t. mSubHalList (hal_proxy S) ! i = Inl sh \<and> in_use (w_consts W) uninit i sh \<and>
        om_find (sh_mSensors sh) h = Some t \<and>
        hcount (setSubHalIndex h i) (hal_proxy S) + flying (setSubHalIndex h i) (postings S) \<le> length (posted t) \<and>
        spent t \<le> k)"

lemma wf_length: "proxy_wf L n s \<Longrightarrow> length (mSubHalList s) = n"
  by (simp add: proxy_wf_def)

lemma framework_inv:
  assumes "hal_inv W uninit i h n k S" and "i < n" and "\<not> is_post op"
  shows "hal_inv W uninit i h n (k + of_bool (activates (w_mask W) i h (Framework op)))
    (S\<lparr>hal_proxy := proxy_step (the_world W vops senv) (hal_proxy S) (env, op)\<rparr>)" (is "hal_inv _ _ _ _ _ (k + ?a) _")
proof -
  let ?s = "proxy_step (the_world W vops senv) (hal_proxy S) (env, op)" and ?x = "setSubHalIndex h i"
  obtain sh t where sh: "mSubHalList (hal_proxy S) ! i = Inl sh" "in_use (w_consts W) uninit i sh"
    "om_find (sh_mSensors sh) h = Some t" "hcount ?x (hal_proxy S) + flying ?x (postings S) \<le> length (posted t)" "spent t \<le> k"
    using assms(1) by (auto simp: hal_inv_def)
  have wf: "proxy_wf (w_limits W) n (hal_proxy S)" using assms(1) by (simp add: hal_inv_def)
  have wf': "proxy_wf (w_limits W) n ?s"
    using proxy_step_wf[of "the_world W vops senv" n "hal_proxy S" "(env, op)"] wf by (simp add: the_world_def del: proxy_step.simps)
  have moves: "list_moves (w_consts W) i h ?a (mSubHalList (hal_proxy S)) (mSubHalList ?s)"
    using proxy_step_moves assms(2) wf_length[OF wf] by blast
  obtain ops where ops: "mSubHalList ?s ! i = Inl (foldl (subhal_step (w_consts W)) sh ops)"
    "list_all (\<lambda>p. call_of i (snd p)) ops" "sub_activations h ops \<le> ?a"
    using moves sh(1) by (auto simp: list_moves_def moves_def)
  obtain t' where t': "om_find (sh_mSensors (foldl (subhal_step (w_consts W)) sh ops)) h = Some t'"
    "posted t' = posted t" "spent t' \<le> spent t + sub_activations h ops"
    and use: "in_use (w_consts W) uninit i (foldl (subhal_step (w_consts W)) sh ops)"
    using calls_spend[OF sh(2,3) ops(2)] by blast
  have "hcount ?x ?s \<le> hcount ?x (hal_proxy S)"
    using hcount_proxy_step[of "the_world W vops senv" "hal_proxy S" op] wf assms(3) by (simp add: the_world_def proxy_wf_def)
  then have "hcount ?x ?s + flying ?x (postings S) \<le> length (posted t')" "spent t' \<le> k + ?a"
    using sh(4,5) t'(2,3) ops(3) by simp_all
  moreover have "isl (mSubHalList ?s ! j) = (j = i)" if "j < n" for j
    using moves that assms(1) wf_length[OF wf] by (simp add: list_moves_def hal_inv_def)
  ultimately show ?thesis
    using wf' ops(1) use t'(1) assms(1) by (simp add: hal_inv_def del: proxy_step.simps)
qed

text \<open>A thread of the sub-HAL: the tracked sensor posts within its budget, the others under their own handles.\<close>

lemma in_use_handle:
  assumes "in_use K uninit j sh" and "om_find (sh_mSensors sh) h = Some t"
  shows "h \<in> {1, 2, 3}"
proof -
  have "(h, t) \<in> set (sh_mSensors sh)" using assms(2) by (auto simp: om_find_def dest: map_of_SomeD)
  then have "mSensorInfo t \<in> set (SubHal_getSensorsList sh)" by (force simp: SubHal_getSensorsList_def)
  then have "mSensorInfo t \<in> set (subhal_infos K uninit)" using assms(1) by (simp add: in_use_def subhal_inv_def)
  then show ?thesis using in_use_sensor[OF assms] by (auto simp: subhal_infos_def)
qed

lemma own_handles_clear: "h \<in> {1, 2, 3} \<Longrightarrow> subHalIndexIsClear first_byte h"
  by (auto simp: subHalIndexIsClear_def first_byte_def)

lemma own_post_count:
  "list_all (own_post K t) ps \<Longrightarrow> sensorHandle (mSensorInfo t) = h' \<Longrightarrow>
   flying x (map (\<lambda>(evs, wakeup). (j, Requested evs wakeup)) ps) = (if setSubHalIndex h' j = x then length ps else 0)"
proof (induction ps)
  case (Cons p ps)
  have "map (\<lambda>e. (ev_handle e, ev_type e)) (fst p) = [(h', info_type (mSensorInfo t))]"
    using Cons.prems by (simp add: own_post_def)
  then obtain e where "fst p = [e]" "ev_handle e = h'" by (auto simp: map_eq_Cons_conv)
  with Cons show ?case by (simp add: tag_def tagged_def case_prod_beta)
qed simp

lemma thread_inv:
  fixes S :: "('w, 'v) hal_system"
  assumes inv: "hal_inv W uninit i h n k S" and range: "i < n" "i < 256" "h \<in> {1, 2, 3}"
    and j: "j < length (mSubHalList (hal_proxy S))" "mSubHalList (hal_proxy S) ! j = Inl sh"
    and t: "om_find (sh_mSensors sh) h' = Some t" and op: "op \<in> {RunLoop, PollReturns}"
    and sh': "sh' = subhal_step (w_consts W) sh (senv, SubThread h' op)"
    and t': "om_find (sh_mSensors sh') h' = Some t'"
  shows "hal_inv W uninit i h n k
    (S\<lparr>hal_proxy := (hal_proxy S)\<lparr>mSubHalList := (mSubHalList (hal_proxy S))[j := Inl sh']\<rparr>,
       postings := postings S @ map (\<lambda>(evs, wakeup). (j, Requested evs wakeup)) (new_posts t t')\<rparr>)"
proof -
  let ?K = "w_consts W" and ?x = "setSubHalIndex h i"
  have wf: "proxy_wf (w_limits W) n (hal_proxy S)" using inv by (simp add: hal_inv_def)
  have "j = i" using inv j wf_length[OF wf] by (auto simp: hal_inv_def)
  then obtain u where u: "in_use ?K uninit i sh" "om_find (sh_mSensors sh) h = Some u"
    "hcount ?x (hal_proxy S) + flying ?x (postings S) \<le> length (posted u)" "spent u \<le> k"
    using inv j by (auto simp: hal_inv_def)
  have use: "in_use ?K uninit i sh'" unfolding sh' by (rule callback_step[OF u(1)]) blast
  have step: "t' = sensor_step ?K t (senv, op)" "om_find (sh_mSensors sh') h = Some (if h' = h then t' else u)"
    using subhal_step_sensor[OF t, of ?K senv "SubThread h' op"] subhal_step_sensor[OF u(2), of ?K senv "SubThread h' op"] op t' u(2) t
    by (auto simp: sh' simp del: subhal_step.simps)
  have ges: "gesture ?K t" "sensorHandle (mSensorInfo t) = h'" using in_use_sensor[OF u(1) t] by blast+
  obtain new where new: "posted t' = posted t @ new" "list_all (own_post ?K t) new"
    using thread_posts[OF ges(1), of "(senv, op)"] unfolding step(1) by blast
  have "setSubHalIndex h' i = ?x \<longleftrightarrow> h' = h"
    using setSubHalIndex_inj[OF own_handles_clear own_handles_clear range(2,2)] range(3) in_use_handle[OF u(1) t] by blast
  then have "hcount ?x (hal_proxy S) + (flying ?x (postings S) +
      flying ?x (map (\<lambda>(evs, wakeup). (i, Requested evs wakeup :: 'w posting)) (new_posts t t'))) \<le> length (posted (if h' = h then t' else u))"
    using own_post_count[OF new(2) ges(2), of ?x i, where ?'a = 'w] new(1) u(2,3) t by (auto simp: new_posts_def)
  moreover have "spent (if h' = h then t' else u) \<le> k"
    using gesture_step[OF ges(1), of "(senv, op)"] op u(2,4) t by (auto simp: step(1) activations_def)
  moreover have "isl ((mSubHalList (hal_proxy S))[i := Inl sh'] ! a) = (a = i)" if "a < n" for a
    using that inv wf_length[OF wf] by (auto simp: nth_list_update hal_inv_def)
  moreover have "proxy_wf (w_limits W) n ((hal_proxy S)\<lparr>mSubHalList := (mSubHalList (hal_proxy S))[i := Inl sh']\<rparr>)"
    using wf wf_length[OF wf] by (simp add: wf_subs)
  ultimately show ?thesis
    using inv use step(2) range(1) wf_length[OF wf] by (auto simp: hal_inv_def \<open>j = i\<close>)
qed

text \<open>The other vendors: their events carry another position.\<close>

lemma vendor_inv:
  fixes S :: "('w, 'v) hal_system"
  assumes inv: "hal_inv W uninit i h n k S" and range: "i < 256" "n \<le> 256" "h \<in> {1, 2, 3}" "w_mask W = first_byte"
    and j: "j < length (mSubHalList (hal_proxy S))" "mSubHalList (hal_proxy S) ! j = Inr v"
    and clear: "list_all (\<lambda>e. subHalIndexIsClear (w_mask W) (ev_handle e)) evs"
  shows "hal_inv W uninit i h n k (S\<lparr>postings := postings S @ [(j, Requested evs wakeup)]\<rparr>)"
    and "hal_inv W uninit i h n k
      (S\<lparr>hal_proxy := (hal_proxy S)\<lparr>mSubHalList := (mSubHalList (hal_proxy S))[j := Inr v']\<rparr>\<rparr>)"
proof -
  let ?x = "setSubHalIndex h i"
  have wf: "proxy_wf (w_limits W) n (hal_proxy S)" using inv by (simp add: hal_inv_def)
  have j': "j \<noteq> i" "j < 256" "j < n" using inv j wf_length[OF wf] range(2) by (auto simp: hal_inv_def)
  have "ev_handle (tag j e) \<noteq> ?x" if "e \<in> set evs" for e
    using setSubHalIndex_inj[OF _ own_handles_clear[OF range(3)] j'(2) range(1), of "ev_handle e"] that clear range(4) j'(1)
    by (simp add: tag_def list_all_iff)
  then have "tagged ?x (j, Requested evs wakeup :: 'w posting) = 0" by (simp add: tagged_def)
  then show "hal_inv W uninit i h n k (S\<lparr>postings := postings S @ [(j, Requested evs wakeup)]\<rparr>)"
    using inv j'(3) by (auto simp: hal_inv_def)
  show "hal_inv W uninit i h n k
      (S\<lparr>hal_proxy := (hal_proxy S)\<lparr>mSubHalList := (mSubHalList (hal_proxy S))[j := Inr v']\<rparr>\<rparr>)"
    using inv wf_subs[OF wf] j' j(1) wf_length[OF wf] by (auto simp: hal_inv_def nth_list_update)
qed

text \<open>The statements of a post, whoever makes it.\<close>

lemma post_inv:
  assumes inv: "hal_inv W uninit i h n k S" and SW: "scoped_documented SW" and ps: "postings S = ps @ (j, p) # qs"
    and turn: "post_turn SW W info env (callback_of (hal_proxy S) j) p (hal_proxy S) = Some (p', s')"
  shows "hal_inv W uninit i h n k (S\<lparr>hal_proxy := s', postings := ps @ map (Pair j) p' @ qs\<rparr>)"
proof -
  have wf: "proxy_wf (w_limits W) n (hal_proxy S)" and "j < n" using inv ps by (auto simp: hal_inv_def)
  have "callback_of (hal_proxy S) j \<in> {None, Some j}"
    using inv \<open>j < n\<close> by (cases "j = i") (auto simp: hal_inv_def callback_of_def in_use_def split: sum.split)
  from post_turn_effect[OF SW wf this turn, of "setSubHalIndex h i"] show ?thesis
    using inv \<open>j < n\<close> ps by (auto simp: hal_inv_def)
qed


lemma hal_step_inv:
  assumes "hal_step SW info W vops S e S'" and "hal_inv W uninit i h n k S" and "i < n" "i < 256" "n \<le> 256"
    and "h \<in> {1, 2, 3}" and "w_mask W = first_byte" and "scoped_documented SW" and "clear_handles (w_mask W) e"
  shows "hal_inv W uninit i h n (k + of_bool (activates (w_mask W) i h e)) S'"
  using assms(1)
proof cases
  case (framework op senv env)
  then show ?thesis using framework_inv[OF assms(2,3)] by simp
next
  case (sensor_thread hs j sh h' t op sh' senv t')
  then show ?thesis using thread_inv[OF assms(2,3,4,6), of j sh h' t op sh' senv t'] by simp
next
  case (vendor_posts hs j v evs wakeup)
  then show ?thesis using vendor_inv(1)[OF assms(2,4-7), of j v evs wakeup] assms(9) by simp
next
  case (vendor_runs hs j v v')
  then show ?thesis using vendor_inv(2)[OF assms(2,4-7), of j v "[]" v'] by simp
next
  case (post ps j p qs env p' s')
  then show ?thesis using post_inv[OF assms(2,8)] by simp
qed

lemma hal_run_inv:
  assumes "hal_run SW info W vops S0 tr S" and "hal_inv W uninit i h n 0 S0" and "i < n" "i < 256" "n \<le> 256"
    and "h \<in> {1, 2, 3}" and "w_mask W = first_byte" and "scoped_documented SW" and "list_all (clear_handles (w_mask W)) tr"
  shows "hal_inv W uninit i h n (length (filter (activates (w_mask W) i h) tr)) S"
  using assms(1,9)
proof (induction rule: hal_run.induct)
  case (more tr S e S')
  then show ?case
    using hal_step_inv[OF more.hyps(2) _ assms(3-8)] by fastforce
qed (simp add: assms(2))

lemma fresh_hal_inv:
  assumes "proxy_wf (w_limits W) n s" and "\<forall>j < n. isl (mSubHalList s ! j) = (j = i)"
    and "mSubHalList s ! i = Inl (SensorsSubHal_ctor (w_consts W) uninit o1 o2 o3)"
    and "stream s = []" and "h \<in> {1, 2, 3}" and "consts_documented (w_consts W)"
  shows "hal_inv W uninit i h n 0 \<lparr>hal_proxy = s, postings = []\<rparr>"
proof -
  let ?sh = "SensorsSubHal_ctor (w_consts W) uninit o1 o2 o3"
  have "in_use (w_consts W) uninit i ?sh"
    using subhal_ctor_inv[OF assms(6)] by (simp add: in_use_def) (simp add: SensorsSubHal_ctor_def AddSensor_def Let_def)
  moreover obtain t where "om_find (sh_mSensors ?sh) h = Some t" "spent t = 0"
    using assms(5) by (auto simp: subhal_ctor_sensors om_find_def spent_def armed_def ctor_defs)
  ultimately show ?thesis
    using assms(1-4) by (auto simp: hal_inv_def hcount_def)
qed

lemma load_stream: "stream (HalProxy_ctor E ops K M config s) = stream s"
  "mSubHalList (HalProxy_ctor E ops K M config s) = mSubHalList s @ configured E config"
proof -
  have add: "stream (add_sensor K M k s d) = stream s \<and> mSubHalList (add_sensor K M k s d) = mSubHalList s" for k s and d :: SensorInfo
    by (auto simp: add_sensor_def setDirectChannelFlags_def stream_def delivered_def Let_def)
  have adds: "stream (foldl (add_sensor K M k) s ds) = stream s \<and> mSubHalList (foldl (add_sensor K M k) s ds) = mSubHalList s" for k s ds
    by (induction ds arbitrary: s) (simp_all add: add)
  have "stream (foldl (load_sub ops K M) s ks) = stream s \<and> mSubHalList (foldl (load_sub ops K M) s ks) = mSubHalList s" for s ks
    by (induction ks arbitrary: s) (simp_all add: load_sub_def adds split: option.split)
  then show "stream (HalProxy_ctor E ops K M config s) = stream s"
    "mSubHalList (HalProxy_ctor E ops K M config s) = mSubHalList s @ configured E config"
    by (simp_all add: HalProxy_ctor_def HalProxy_init_def initializeSensorList_def initializeSubHalList_eq
        load_sub_def[abs_def]) (simp_all add: stream_def delivered_def)
qed



subsection \<open>Runs by evaluation\<close>

text \<open>One step as a function, with the answers of the environment given; \<open>None\<close>: it cannot be taken.\<close>

fun hal_exec ::
  "('w, 'v) hal_wakelock \<Rightarrow> (i32 \<Rightarrow> SensorInfo) \<Rightarrow> (subhal + 'v) proxy_world \<Rightarrow> 'v sub_hal_ops \<Rightarrow> sensor_env \<Rightarrow> ev_env \<Rightarrow>
   ('w, 'v) hal_system \<Rightarrow> hal_event \<Rightarrow> ('w, 'v) hal_system option" where
  "hal_exec SW info W vops senv env S (Framework op) =
     (if is_post op then None
      else Some (S\<lparr>hal_proxy := proxy_step (the_world W vops senv) (hal_proxy S) (env, op)\<rparr>))"
| "hal_exec SW info W vops senv env S (SensorThread j h op) =
     (let hs = mSubHalList (hal_proxy S) in
      if j \<ge> length hs \<or> op \<notin> {RunLoop, PollReturns} then None
      else case hs ! j of
          Inr v \<Rightarrow> None
        | Inl sh \<Rightarrow> (let sh' = subhal_step (w_consts W) sh (senv, SubThread h op)
            in case (om_find (sh_mSensors sh) h, om_find (sh_mSensors sh') h) of
                 (Some t, Some t') \<Rightarrow> Some (S\<lparr>hal_proxy := (hal_proxy S)\<lparr>mSubHalList := hs[j := Inl sh']\<rparr>,
                    postings := postings S @ map (\<lambda>(evs, wakeup). (j, Requested evs wakeup)) (new_posts t t')\<rparr>)
               | _ \<Rightarrow> None))"
| "hal_exec SW info W vops senv env S (VendorPosts j evs wakeup) =
     (if j < length (mSubHalList (hal_proxy S)) \<and> \<not> isl (mSubHalList (hal_proxy S) ! j)
      then Some (S\<lparr>postings := postings S @ [(j, Requested evs wakeup)]\<rparr>) else None)"
| "hal_exec SW info W vops senv env S (VendorRuns j) = None"
| "hal_exec SW info W vops senv env S (PostTurn k) =
     (if k \<ge> length (postings S) then None
      else let (j, p) = postings S ! k
           in map_option (\<lambda>(p', s'). S\<lparr>hal_proxy := s',
                  postings := take k (postings S) @ map (Pair j) p' @ drop (Suc k) (postings S)\<rparr>)
                (post_turn SW W info env (callback_of (hal_proxy S) j) p (hal_proxy S)))"

lemma hal_exec_step: "hal_exec SW info W vops senv env S e = Some S' \<Longrightarrow> hal_step SW info W vops S e S'"
proof (cases e)
  case (Framework op)
  assume "hal_exec SW info W vops senv env S e = Some S'"
  then show ?thesis by (auto simp: Framework split: if_splits intro: hal_step.framework)
next
  case (SensorThread j h op)
  assume "hal_exec SW info W vops senv env S e = Some S'"
  then show ?thesis
    unfolding SensorThread hal_exec.simps Let_def
    by (auto split: if_splits sum.splits option.splits intro: hal_step.sensor_thread[OF refl _ _ _ _ refl]
        simp del: subhal_step.simps)
next
  case (VendorPosts j evs wakeup)
  assume "hal_exec SW info W vops senv env S e = Some S'"
  then show ?thesis
    by (cases "mSubHalList (hal_proxy S) ! j")
      (auto simp: VendorPosts split: if_splits intro: hal_step.vendor_posts[OF refl])
next
  case (PostTurn k)
  assume exec: "hal_exec SW info W vops senv env S e = Some S'"
  then have "k < length (postings S)" by (simp add: PostTurn split: if_splits)
  moreover obtain j p where "postings S ! k = (j, p)" by fastforce
  ultimately have "postings S = take k (postings S) @ (j, p) # drop (Suc k) (postings S)" "length (take k (postings S)) = k"
    by (simp_all add: id_take_nth_drop flip: \<open>postings S ! k = (j, p)\<close>)
  then show ?thesis
    using exec hal_step.post[OF \<open>postings S = _\<close>, of SW W info env _ _ vops] \<open>postings S ! k = (j, p)\<close>
    by (auto simp: PostTurn split: if_splits)
qed simp

definition hal_execs ::
  "('w, 'v) hal_wakelock \<Rightarrow> (i32 \<Rightarrow> SensorInfo) \<Rightarrow> (subhal + 'v) proxy_world \<Rightarrow> 'v sub_hal_ops \<Rightarrow> sensor_env \<Rightarrow> ev_env \<Rightarrow>
   ('w, 'v) hal_system \<Rightarrow> hal_event list \<Rightarrow> ('w, 'v) hal_system option" where
  "hal_execs SW info W vops senv env S tr =
     foldl (\<lambda>S e. Option.bind S (\<lambda>S. hal_exec SW info W vops senv env S e)) (Some S) tr"

lemma hal_execs_run: "hal_execs SW info W vops senv env S tr = Some S' \<Longrightarrow> hal_run SW info W vops S tr S'"
proof (induction tr arbitrary: S' rule: rev_induct)
  case (snoc e tr)
  then obtain T where "hal_execs SW info W vops senv env S tr = Some T" "hal_exec SW info W vops senv env T e = Some S'"
    by (auto simp: hal_execs_def bind_eq_Some_conv)
  with snoc.IH show ?case by (blast intro: hal_run.more hal_exec_step)
qed (simp add: hal_execs_def hal_run.start)

definition system_lib :: "(subhal + (OperationMode \<times> bool), string) lib_env" where
  "system_lib = \<lparr>dlopen = Some, sensorsHalGetSubHal = (\<lambda>l. None),
     sensorsHalGetSubHal_2_1 = (\<lambda>l. Some (if l = ''b.so''
       then Inl (SensorsSubHal_ctor android_consts SensorInfo_zero open_example open_example open_example)
       else Inr (NORMAL, False), 7)),
     SUB_HAL_2_0_VERSION = 6, SUB_HAL_2_1_VERSION = 7\<rparr>"

definition system_world :: "(subhal + (OperationMode \<times> bool)) proxy_world" where
  "system_world = \<lparr>w_limits = limits_example, w_ops = hal_ops android_consts sensor_example_env picky_ops,
     w_consts = android_consts, w_mask = 0xFF000000, w_stop = 0, w_convert = id\<rparr>"

definition system_start :: "(bool \<times> int, OperationMode \<times> bool) hal_system" where
  "system_start = \<lparr>hal_proxy = HalProxy_ctor system_lib (w_ops system_world) (w_consts system_world)
     (w_mask system_world) (Some ''a.so b.so'') (proxy_example []), postings = []\<rparr>"

definition system_info :: "i32 \<Rightarrow> SensorInfo" where
  "system_info h = (case om_find (mSensors (hal_proxy system_start)) h of None \<Rightarrow> SensorInfo_zero | Some d \<Rightarrow> d)"

text \<open>A tap while another vendor posts: the sensor is switched on, its thread sees the tap, and the posts interleave.\<close>

definition system_trace :: "hal_event list" where
  "system_trace = [Framework (PInitialize_2_1 1 2 None), Framework (PActivate 0x01000002 True),
     SensorThread 1 2 RunLoop, VendorPosts 0 [example_event 2] False, SensorThread 1 2 PollReturns,
     PostTurn 1, PostTurn 0, PostTurn 1, PostTurn 0, PostTurn 1, PostTurn 0]"

definition system_end :: "(bool \<times> int, OperationMode \<times> bool) hal_system option" where
  "system_end = hal_execs scoped_example system_info system_world picky_ops sensor_example_env (ev_example 6 4)
     system_start system_trace"

lemma system_tap:
  "map_option (\<lambda>S. (map ev_handle (stream (hal_proxy S)), postings S = [])) system_end = Some ([0x01000002, 2], True)"
  by code_simp


end
