(* ===== verification/LockoutWidth.thy ===== *)
theory LockoutWidth
  imports Lockout "HOL-Library.Word"
begin

text \<open>
  The lockout tracker at the widths of its members (\<^verbatim>\<open>src/fingerprint/LockoutTracker.cpp\<close>):
  the \<^verbatim>\<open>int32_t\<close> counter of failed attempts and the \<^verbatim>\<open>int64_t\<close> times as words. Signed
  arithmetic that leaves its range is read as two's complement wrap-around.

  \<open>lockout_at_width\<close> says when the words compute what the integers of \<open>Lockout\<close> compute, and
  \<open>permanent_survives_wrap\<close> what becomes of a permanent lockout when the counter wraps.
\<close>

record lockout_w =
  w_mFailedCount :: "32 word"
  w_mLockoutTimedStart :: "64 word"
  w_mCurrentMode :: LockoutMode

record clock_w =
  w_getSystemNanoTime :: "64 word"
  w_hasElapsed :: "64 word \<Rightarrow> 64 word \<Rightarrow> bool"

definition w_init :: lockout_w where
  "w_init = \<lparr>w_mFailedCount = 0, w_mLockoutTimedStart = 0, w_mCurrentMode = NONE\<rparr>"

definition w_reset :: "bool \<Rightarrow> lockout_w \<Rightarrow> lockout_w" where
  "w_reset clearAttemptCounter t =
     (if clearAttemptCounter then t\<lparr>w_mFailedCount := 0\<rparr> else t)
       \<lparr>w_mLockoutTimedStart := 0, w_mCurrentMode := NONE\<rparr>"

definition w_addFailedAttempt :: "clock_w \<Rightarrow> lockout_w \<Rightarrow> lockout_w" where
  "w_addFailedAttempt clk t =
     (let t = t\<lparr>w_mFailedCount := w_mFailedCount t + 1\<rparr> in
      if sint (w_mFailedCount t) \<ge> LOCKOUT_PERMANENT_THRESHOLD then t\<lparr>w_mCurrentMode := PERMANENT\<rparr>
      else if sint (w_mFailedCount t) \<ge> LOCKOUT_TIMED_THRESHOLD then
        t\<lparr>w_mCurrentMode := TIMED, w_mLockoutTimedStart := w_getSystemNanoTime clk\<rparr>
      else t)"

definition w_getMode :: "clock_w \<Rightarrow> lockout_w \<Rightarrow> LockoutMode \<times> lockout_w" where
  "w_getMode clk t =
     (let t = (if w_mCurrentMode t = TIMED then
                 (if w_hasElapsed clk (w_mLockoutTimedStart t) (word_of_int LOCKOUT_TIMED_DURATION)
                  then t\<lparr>w_mCurrentMode := NONE, w_mLockoutTimedStart := 0\<rparr> else t)
               else t)
      in (w_mCurrentMode t, t))"

definition w_getLockoutTimeLeft :: "clock_w \<Rightarrow> lockout_w \<Rightarrow> 64 word" where
  "w_getLockoutTimeLeft clk t =
     (if sint (w_mLockoutTimedStart t) > 0 then
        (let now = w_getSystemNanoTime clk;
             elapsed = word_of_int (sint (now - w_mLockoutTimedStart t) sdiv 1000000)
         in word_of_int LOCKOUT_TIMED_DURATION - elapsed)
      else 0)"

datatype op_w = FailW clock_w | QueryW clock_w | ResetW bool

fun step_w :: "lockout_w \<Rightarrow> op_w \<Rightarrow> lockout_w" where
  "step_w t (FailW clk) = w_addFailedAttempt clk t"
| "step_w t (QueryW clk) = snd (w_getMode clk t)"
| "step_w t (ResetW b) = w_reset b t"

subsection \<open>The integers behind the words\<close>

definition int_lockout :: "lockout_w \<Rightarrow> lockout" where
  "int_lockout t = \<lparr>mFailedCount = sint (w_mFailedCount t),
     mLockoutTimedStart = sint (w_mLockoutTimedStart t), mCurrentMode = w_mCurrentMode t\<rparr>"

definition int_clock :: "clock_w \<Rightarrow> lockout_clock" where
  "int_clock clk = \<lparr>getSystemNanoTime = sint (w_getSystemNanoTime clk),
     hasElapsed = (\<lambda>start ms. w_hasElapsed clk (word_of_int start) (word_of_int ms))\<rparr>"

fun int_step :: "lockout \<Rightarrow> op_w \<Rightarrow> lockout" where
  "int_step t (FailW clk) = addFailedAttempt (int_clock clk) t"
| "int_step t (QueryW clk) = snd (getMode (int_clock clk) t)"
| "int_step t (ResetW b) = reset b t"

text \<open>The counter of the integer tracker stays in the range of the 32-bit one.\<close>

definition count_fits :: "op_w list \<Rightarrow> bool" where
  "count_fits ops \<longleftrightarrow> (\<forall>k \<le> length ops. mFailedCount (foldl int_step LockoutTracker_init (take k ops)) < 2 ^ 31)"

lemma sint_range_32: "- (2 ^ 31) \<le> sint (x :: 32 word)" "sint x < 2 ^ 31"
  using sint_ge[of x] sint_lt[of x] by simp_all

lemma sint_range_64: "- (2 ^ 63) \<le> sint (x :: 64 word)" "sint x < 2 ^ 63"
  using sint_ge[of x] sint_lt[of x] by simp_all

lemma sint_of_int_64: "- (2 ^ 63) \<le> i \<Longrightarrow> i < 2 ^ 63 \<Longrightarrow> sint (word_of_int i :: 64 word) = i"
  by (simp add: signed_of_int signed_take_bit_int_eq_self)

lemma sint_diff_64:
  assumes "- (2 ^ 63) \<le> sint x - sint y" and "sint x - sint y < 2 ^ 63"
  shows "sint (x - y :: 64 word) = sint x - sint y"
  using sint_of_int_64[OF assms] by simp

lemma sint_inc_32: "sint (x :: 32 word) + 1 < 2 ^ 31 \<Longrightarrow> sint (x + 1) = sint x + 1"
  using sint_range_32(1)[of x] signed_of_int[of "sint x + 1", where ?'b = 32 and ?'a = int]
  by (simp add: signed_take_bit_int_eq_self)

lemma fail_int:
  "sint (w_mFailedCount t) + 1 < 2 ^ 31 \<Longrightarrow>
   int_lockout (w_addFailedAttempt clk t) = addFailedAttempt (int_clock clk) (int_lockout t)"
  by (simp add: int_lockout_def w_addFailedAttempt_def addFailedAttempt_def int_clock_def sint_inc_32 Let_def)

lemma query_int:
  "fst (w_getMode clk t) = fst (getMode (int_clock clk) (int_lockout t))"
  "int_lockout (snd (w_getMode clk t)) = snd (getMode (int_clock clk) (int_lockout t))"
  by (simp_all add: int_lockout_def w_getMode_def getMode_def int_clock_def Let_def)

lemma reset_int: "int_lockout (w_reset b t) = reset b (int_lockout t)"
  by (simp add: int_lockout_def w_reset_def reset_def)

lemma time_left_int:
  assumes "0 \<le> sint (w_getSystemNanoTime clk)"
  shows "sint (w_getLockoutTimeLeft clk t) = getLockoutTimeLeft (int_clock clk) (int_lockout t)"
proof (cases "sint (w_mLockoutTimedStart t) > 0")
  case True
  let ?now = "w_getSystemNanoTime clk" and ?start = "w_mLockoutTimedStart t"
  let ?d = "sint ?now - sint ?start"
  have d: "sint (?now - ?start) = ?d"
    using True assms sint_range_64(2)[of ?start] sint_range_64(2)[of ?now] by (intro sint_diff_64) simp_all
  have "\<bar>?d sdiv 1000000\<bar> \<le> \<bar>?d\<bar> div 1000000"
    by (auto simp: signed_divide_int_def abs_mult sgn_if)
  moreover have "\<bar>?d\<bar> div 1000000 < 2 ^ 62"
    using True assms sint_range_64(2)[of ?start] sint_range_64(2)[of ?now] by (simp add: div_less_iff_less_mult abs_less_iff)
  ultimately have q: "\<bar>?d sdiv 1000000\<bar> < 2 ^ 62" by linarith
  then have "sint (word_of_int (?d sdiv 1000000) :: 64 word) = ?d sdiv 1000000"
    by (intro sint_of_int_64) simp_all
  moreover have "sint (word_of_int LOCKOUT_TIMED_DURATION :: 64 word) = LOCKOUT_TIMED_DURATION"
    by (intro sint_of_int_64) (simp_all add: LOCKOUT_TIMED_DURATION_def)
  ultimately have "sint (word_of_int LOCKOUT_TIMED_DURATION - word_of_int (?d sdiv 1000000) :: 64 word) =
      LOCKOUT_TIMED_DURATION - ?d sdiv 1000000"
    using q by (subst sint_diff_64) (auto simp: LOCKOUT_TIMED_DURATION_def)
  with True d show ?thesis
    by (simp add: w_getLockoutTimeLeft_def getLockoutTimeLeft_def int_lockout_def int_clock_def Let_def)
qed (simp add: w_getLockoutTimeLeft_def getLockoutTimeLeft_def int_lockout_def)

lemma step_int:
  assumes "mFailedCount (int_step (int_lockout t) x) < 2 ^ 31"
  shows "int_lockout (step_w t x) = int_step (int_lockout t) x"
proof (cases x)
  case (FailW clk)
  then have "sint (w_mFailedCount t) + 1 < 2 ^ 31"
    using assms by (simp add: tracker.fail_attempts) (simp add: int_lockout_def)
  then show ?thesis by (simp add: FailW fail_int)
qed (simp_all add: query_int reset_int)

lemma run_int:
  "count_fits ops \<Longrightarrow> int_lockout (foldl step_w w_init ops) = foldl int_step LockoutTracker_init ops"
proof (induction ops rule: rev_induct)
  case (snoc x ops)
  have "count_fits ops"
    unfolding count_fits_def
  proof (intro allI impI)
    fix k
    assume "k \<le> length ops"
    then show "mFailedCount (foldl int_step LockoutTracker_init (take k ops)) < 2 ^ 31"
      using snoc.prems[unfolded count_fits_def, rule_format, of k] by simp
  qed
  with snoc.IH have "int_lockout (foldl step_w w_init ops) = foldl int_step LockoutTracker_init ops" .
  then show ?case
    using step_int[of "foldl step_w w_init ops" x] snoc.prems[unfolded count_fits_def, rule_format, of "Suc (length ops)"]
    by simp
qed (simp add: int_lockout_def w_init_def LockoutTracker_init_def)

subsection \<open>Wrap-around of the counter\<close>

lemma count_w: "w_mFailedCount (foldl (\<lambda>t clk. w_addFailedAttempt clk t) w_init clks) = word_of_nat (length clks)"
  by (induction clks rule: rev_induct) (simp_all add: w_init_def w_addFailedAttempt_def Let_def)

lemma sint_of_nat_32:
  assumes "n < 2 ^ 32 + 2 ^ 31"
  shows "sint (word_of_nat n :: 32 word) = (if n < 2 ^ 31 then int n else int n - 2 ^ 32)"
proof -
  have "sint (word_of_nat n :: 32 word) = (int n + 2 ^ 31) mod 2 ^ 32 - 2 ^ 31"
    by (simp add: signed_of_nat signed_take_bit_eq_take_bit_shift take_bit_eq_mod)
  then show ?thesis using assms mod_pos_geq[of "2 ^ 32" "int n + 2 ^ 31"] by (simp split: if_splits)
qed

lemma fail_mode_w:
  "w_mCurrentMode (w_addFailedAttempt clk t) =
     (if 20 \<le> sint (w_mFailedCount t + 1) then PERMANENT
      else if 5 \<le> sint (w_mFailedCount t + 1) then TIMED else w_mCurrentMode t)"
  by (simp add: w_addFailedAttempt_def Let_def LOCKOUT_PERMANENT_THRESHOLD_def LOCKOUT_TIMED_THRESHOLD_def)

text \<open>
  A permanent lockout outlives the wrap-around of the counter, whose negative values and first four
  values after zero leave the mode alone, and ends in a timed one with attempt 4294967301.
\<close>

lemma permanent_survives_wrap:
  "length clks < 2 ^ 32 + 5 \<Longrightarrow>
   w_mCurrentMode (foldl (\<lambda>t clk. w_addFailedAttempt clk t) w_init clks) =
     (if 20 \<le> length clks then PERMANENT else if 5 \<le> length clks then TIMED else NONE)"
proof (induction clks rule: rev_induct)
  case (snoc clk clks)
  have "sint (word_of_nat (length clks) + 1 :: 32 word) =
      (if Suc (length clks) < 2 ^ 31 then int (Suc (length clks)) else int (Suc (length clks)) - 2 ^ 32)"
    using sint_of_nat_32[of "Suc (length clks)"] snoc.prems by (simp add: add.commute)
  then show ?case using snoc by (auto simp: fail_mode_w count_w)
qed (simp add: w_init_def)

lemma wrapped_lockout_is_timed:
  assumes "length clks = 2 ^ 32 + 5"
  shows "w_mCurrentMode (foldl (\<lambda>t clk. w_addFailedAttempt clk t) w_init clks) = TIMED"
proof -
  obtain clks' clk where split: "clks = clks' @ [clk]" using assms by (cases clks rule: rev_cases) auto
  then have "sint (word_of_nat (length clks') + 1 :: 32 word) = 5"
    using sint_of_nat_32[of "Suc (length clks')"] assms by (simp add: add.commute)
  then show ?thesis by (simp add: split fail_mode_w count_w)
qed

subsection \<open>Properties\<close>

text \<open>
  C31. The lockout tracker at machine width: as long as the number of failed attempts since the last
  reset of the counter stays below 2147483648 and the clock is not negative, the 32-bit counter and
  the 64-bit times never wrap, through any attempts, queries and resets: the members, the mode
  and the remaining time are those of the tracker over unbounded integers.
\<close>

theorem lockout_at_width:
  assumes "t = foldl step_w w_init ops" and "count_fits ops" and "0 \<le> sint (w_getSystemNanoTime clk)"
  shows "int_lockout t = foldl int_step LockoutTracker_init ops \<and>
    fst (w_getMode clk t) = fst (getMode (int_clock clk) (foldl int_step LockoutTracker_init ops)) \<and>
    sint (w_getLockoutTimeLeft clk t) = getLockoutTimeLeft (int_clock clk) (foldl int_step LockoutTracker_init ops)"
  using run_int[OF assms(2)] query_int(1)[of clk t] time_left_int[OF assms(3), of t] by (simp add: assms(1))

definition clock_w_example :: "64 word \<Rightarrow> clock_w" where
  "clock_w_example now = \<lparr>w_getSystemNanoTime = now, w_hasElapsed = (\<lambda>start ms. sint (now - start) sdiv 1000000 \<ge> sint ms)\<rparr>"

theorem lockout_at_width_witness:
  "sint (w_getLockoutTimeLeft (clock_w_example 2000000001)
     (foldl step_w w_init (replicate 5 (FailW (clock_w_example 1))))) = 28000"
proof -
  let ?ops = "replicate 5 (FailW (clock_w_example 1))"
  have "foldl int_step LockoutTracker_init ?ops = \<lparr>mFailedCount = 5, mLockoutTimedStart = 1, mCurrentMode = TIMED\<rparr>"
    by code_simp
  moreover have "count_fits ?ops"
    by (auto simp: count_fits_def numeral_eq_Suc le_Suc_eq LockoutTracker_init_def addFailedAttempt_def
        LOCKOUT_PERMANENT_THRESHOLD_def LOCKOUT_TIMED_THRESHOLD_def)
  moreover have "0 \<le> sint (w_getSystemNanoTime (clock_w_example 2000000001))" by code_simp
  moreover have "sint (w_getSystemNanoTime (clock_w_example 2000000001)) = 2000000001" by code_simp
  ultimately show ?thesis
    using lockout_at_width[OF refl, of ?ops "clock_w_example 2000000001"]
    by (simp add: getLockoutTimeLeft_def int_clock_def LOCKOUT_TIMED_DURATION_def signed_divide_int_def)
qed

end
