(* ===== verification/Services.thy ===== *)
theory Services
  imports Ltpo Charging Vibrator Fingerprint Udfps HalProxy
begin

text \<open>
  The six processes of the device tree: the \<^verbatim>\<open>main\<close> functions of
  \<^verbatim>\<open>src/aidl/display/ltpo/service.cpp\<close>, \<^verbatim>\<open>src/aidl/vibrator/service.cpp\<close>,
  \<^verbatim>\<open>src/health/service.cpp\<close>, \<^verbatim>\<open>src/fingerprint/service.cpp\<close>,
  \<^verbatim>\<open>src/fingerprint/udfps_service.cpp\<close> and \<^verbatim>\<open>src/hidl/sensors/service.cpp\<close>.

  Each one sets up its binder threads, builds its one object with the constructor of the
  component's theory, registers it and gives the main thread to the pool. The calls into
  libbinder and libhidl are a log; what the service manager answers, whether joining the pool
  ever returns, and the interface names that the AIDL compiler generates are inputs.
\<close>

subsection \<open>Processes\<close>

datatype process_call =
    SetThreadPoolMaxThreadCount nat
  | StartThreadPool
  | ConfigureRpcThreadpool nat bool
  | MakeService
  | AddService string
  | JoinThreadPool

text \<open>How a process goes on: it serves calls for good, a \<open>CHECK\<close> aborts it, or \<open>main\<close> returns.\<close>

datatype process_end = Serving | Aborted | Returned int

record main_env =
  descriptor :: string
  addService_status :: "string \<Rightarrow> int"
  join_returns :: bool

record 's process =
  process_calls :: "process_call list"
  the_service :: 's
  process_ended :: process_end

definition STATUS_OK :: int where "STATUS_OK = 0"

definition EX_NONE :: int where "EX_NONE = 0"

definition EXIT_FAILURE :: int where "EXIT_FAILURE = 1"

definition joinThreadPool :: "main_env \<Rightarrow> int \<Rightarrow> process_end" where
  "joinThreadPool env code = (if join_returns env then Returned code else Serving)"

definition instance_name :: "main_env \<Rightarrow> string" where
  "instance_name env = descriptor env @ ''/default''"

subsection \<open>The six mains\<close>

definition main_ltpo :: "main_env \<Rightarrow> int \<Rightarrow> ltpo process" where
  "main_ltpo env fd =
     (let calls = [SetThreadPoolMaxThreadCount 1, StartThreadPool];
          svc = LtpoControl fd;
          calls = calls @ [MakeService];
          inst = instance_name env;
          status = addService_status env inst;
          calls = calls @ [AddService inst]
      in if status \<noteq> STATUS_OK
         then \<lparr>process_calls = calls, the_service = svc, process_ended = Aborted\<rparr>
         else \<lparr>process_calls = calls @ [JoinThreadPool], the_service = svc,
                process_ended = joinThreadPool env EXIT_FAILURE\<rparr>)"

definition main_vibrator :: "main_env \<Rightarrow> vib_env \<Rightarrow> vib process" where
  "main_vibrator env venv =
     (let calls = [SetThreadPoolMaxThreadCount 0];
          vib = Vibrator_ctor venv vib_init;
          calls = calls @ [MakeService];
          inst = instance_name env;
          status = addService_status env inst;
          calls = calls @ [AddService inst]
      in if status \<noteq> STATUS_OK
         then \<lparr>process_calls = calls, the_service = vib, process_ended = Aborted\<rparr>
         else \<lparr>process_calls = calls @ [JoinThreadPool], the_service = vib,
                process_ended = joinThreadPool env EXIT_FAILURE\<rparr>)"

text \<open>\<open>ChargingControl\<close> and \<open>UdfpsExtension\<close> have no members to initialise.\<close>

definition main_health :: "main_env \<Rightarrow> unit process" where
  "main_health env =
     (let calls = [SetThreadPoolMaxThreadCount 0, MakeService];
          inst = instance_name env;
          status = addService_status env inst;
          calls = calls @ [AddService inst]
      in if status \<noteq> STATUS_OK
         then \<lparr>process_calls = calls, the_service = (), process_ended = Aborted\<rparr>
         else \<lparr>process_calls = calls @ [JoinThreadPool], the_service = (),
                process_ended = joinThreadPool env EXIT_FAILURE\<rparr>)"

definition main_udfps :: "main_env \<Rightarrow> unit process" where
  "main_udfps env =
     (let calls = [SetThreadPoolMaxThreadCount 0, MakeService];
          inst = instance_name env;
          status = addService_status env inst;
          calls = calls @ [AddService inst]
      in if status \<noteq> EX_NONE
         then \<lparr>process_calls = calls, the_service = (), process_ended = Aborted\<rparr>
         else \<lparr>process_calls = calls @ [JoinThreadPool], the_service = (),
                process_ended = joinThreadPool env EXIT_FAILURE\<rparr>)"

definition main_fingerprint ::
  "main_env \<Rightarrow> hal_env \<Rightarrow> string option \<Rightarrow> int option \<Rightarrow> fp_service process" where
  "main_fingerprint env h type_prop max_prop =
     (let calls = [SetThreadPoolMaxThreadCount 0];
          fingerprint = Fingerprint_ctor h type_prop max_prop;
          calls = calls @ [MakeService];
          inst = instance_name env;
          status = addService_status env inst;
          calls = calls @ [AddService inst]
      in if status \<noteq> STATUS_OK
         then \<lparr>process_calls = calls, the_service = fingerprint, process_ended = Aborted\<rparr>
         else \<lparr>process_calls = calls @ [JoinThreadPool], the_service = fingerprint,
                process_ended = joinThreadPool env EXIT_FAILURE\<rparr>)"

text \<open>
  The sensors process is the only HIDL service. \<open>registerAsService\<close> uses the instance name
  \<open>default\<close>; a refusal returns from \<open>main\<close>, which gives up the last reference to the proxy, so
  its destructor runs.
\<close>

definition main_sensors ::
  "main_env \<Rightarrow> proxy_limits \<Rightarrow> ev_env \<Rightarrow> ('h, 'lib) lib_env \<Rightarrow> 'h sub_hal_ops \<Rightarrow> sensor_consts \<Rightarrow> i32 \<Rightarrow>
   string option \<Rightarrow> 'h proxy \<Rightarrow> 'h proxy process" where
  "main_sensors env L eenv E ops K M config s0 =
     (let calls = [ConfigureRpcThreadpool 1 True];
          halProxy = HalProxy_ctor E ops K M config s0;
          calls = calls @ [MakeService];
          status = addService_status env ''default'';
          calls = calls @ [AddService ''default'']
      in if status \<noteq> 0
         then \<lparr>process_calls = calls, the_service = HalProxy_destroy L K eenv halProxy,
                process_ended = Returned (-1)\<rparr>
         else \<lparr>process_calls = calls @ [JoinThreadPool], the_service = halProxy,
                process_ended = joinThreadPool env 1\<rparr>)"

lemmas main_defs = main_ltpo_def main_vibrator_def main_health_def main_udfps_def
  main_fingerprint_def main_sensors_def Let_def STATUS_OK_def EX_NONE_def EXIT_FAILURE_def joinThreadPool_def

subsection \<open>What a process reaches\<close>

text \<open>
  A start is orderly if a process that gives its thread to the pool has built its object and then
  registered it, once, and was accepted; one that was refused never serves; and \<open>main\<close> never
  reports success, because a service is not meant to end.
\<close>

definition orderly_start :: "main_env \<Rightarrow> string \<Rightarrow> 's process \<Rightarrow> bool" where
  "orderly_start env name p \<longleftrightarrow>
     (\<exists>setup. process_calls p =
        setup @ [MakeService, AddService name] @
          (if addService_status env name = 0 then [JoinThreadPool] else []) \<and>
        list_all (\<lambda>c. c \<notin> {MakeService, AddService name, JoinThreadPool}) setup) \<and>
     (process_ended p = Serving \<longleftrightarrow> addService_status env name = 0 \<and> \<not> join_returns env) \<and>
     process_ended p \<noteq> Returned 0"

lemma orderly_startI:
  assumes "process_calls p = setup @ [MakeService, AddService name] @
      (if addService_status env name = 0 then [JoinThreadPool] else [])"
    and "list_all (\<lambda>c. c \<notin> {MakeService, AddService name, JoinThreadPool}) setup"
    and "process_ended p = Serving \<longleftrightarrow> addService_status env name = 0 \<and> \<not> join_returns env"
    and "process_ended p \<noteq> Returned 0"
  shows "orderly_start env name p"
  using assms unfolding orderly_start_def by blast

lemma mains_start_orderly:
  shows "orderly_start env (instance_name env) (main_ltpo env fd)"
    and "orderly_start env (instance_name env) (main_vibrator env venv)"
    and "orderly_start env (instance_name env) (main_health env)"
    and "orderly_start env (instance_name env) (main_udfps env)"
    and "orderly_start env (instance_name env) (main_fingerprint env h tp mp)"
    and "orderly_start env ''default'' (main_sensors env L eenv E ops K M config s0)"
proof -
  show "orderly_start env (instance_name env) (main_ltpo env fd)"
    by (rule orderly_startI[of _ "[SetThreadPoolMaxThreadCount 1, StartThreadPool]"])
      (simp_all add: main_defs)
  show "orderly_start env ''default'' (main_sensors env L eenv E ops K M config s0)"
    by (rule orderly_startI[of _ "[ConfigureRpcThreadpool 1 True]"]) (simp_all add: main_defs)
qed (rule orderly_startI[of _ "[SetThreadPoolMaxThreadCount 0]"]; simp add: main_defs)+

text \<open>
  How many threads of a process can run incoming calls at the same time, as libbinder and libhidl
  document it: the threads the kernel may ask for, one for an explicitly started pool and the
  thread that joined; for a HIDL service the caller is counted among the configured ones.
\<close>

fun call_threads :: "process_call list \<Rightarrow> nat" where
  "call_threads [] = 0"
| "call_threads (SetThreadPoolMaxThreadCount n # cs) = n + call_threads cs"
| "call_threads (StartThreadPool # cs) = 1 + call_threads cs"
| "call_threads (ConfigureRpcThreadpool n callerWillJoin # cs) =
     (if callerWillJoin then n - 1 else n) + call_threads cs"
| "call_threads (MakeService # cs) = call_threads cs"
| "call_threads (AddService _ # cs) = call_threads cs"
| "call_threads (JoinThreadPool # cs) = 1 + call_threads cs"

text \<open>
  The processes of the device: every \<open>main\<close> builds its object before it registers it, serves
  only after the service manager accepted it, and never ends with success. Only one thread runs
  the calls of the vibrator, charging, fingerprint, UDFPS and sensors services, so their calls
  never overlap and the counters and mode of the vibrator, which no lock protects, are safe; the
  LTPO service has up to three such threads, which is what its mutex is for.
\<close>

theorem services_start_and_serve:
  "(let p = main_ltpo env fd in orderly_start env (instance_name env) p \<and>
      (process_ended p = Serving \<longrightarrow> the_service p = LtpoControl fd \<and> call_threads (process_calls p) = 3)) \<and>
   (let p = main_vibrator env venv in orderly_start env (instance_name env) p \<and>
      (process_ended p = Serving \<longrightarrow>
        the_service p = Vibrator_ctor venv vib_init \<and> call_threads (process_calls p) = 1)) \<and>
   (let p = main_health env in orderly_start env (instance_name env) p \<and>
      (process_ended p = Serving \<longrightarrow> call_threads (process_calls p) = 1)) \<and>
   (let p = main_udfps env in orderly_start env (instance_name env) p \<and>
      (process_ended p = Serving \<longrightarrow> call_threads (process_calls p) = 1)) \<and>
   (let p = main_fingerprint env h tp mp in orderly_start env (instance_name env) p \<and>
      (process_ended p = Serving \<longrightarrow>
        the_service p = Fingerprint_ctor h tp mp \<and> call_threads (process_calls p) = 1)) \<and>
   (let p = main_sensors env L eenv E ops K M config s0 in orderly_start env ''default'' p \<and>
      (process_ended p = Serving \<longrightarrow>
        the_service p = HalProxy_ctor E ops K M config s0 \<and> call_threads (process_calls p) = 1))"
  unfolding Let_def
  by (intro conjI mains_start_orderly) (auto simp: main_defs)

theorem services_start_and_serve_witness:
  "let env = \<lparr>descriptor = ''d'', addService_status = \<lambda>_. 0, join_returns = False\<rparr>; p = main_ltpo env 3 in
   process_ended p = Serving \<and> the_service p = LtpoControl 3 \<and> call_threads (process_calls p) = 3"
proof -
  let ?env = "\<lparr>descriptor = ''d'', addService_status = \<lambda>_. 0, join_returns = False\<rparr>"
  have "process_ended (main_ltpo ?env 3) = Serving" by (simp add: main_defs)
  with services_start_and_serve[of ?env 3] show ?thesis unfolding Let_def by blast
qed

end
