(* ===== verification/Spec2Isabelle.thy ===== *)
theory Spec2Isabelle
  imports Ltpo Charging Vibrator Fingerprint Udfps SubHal SensorStart SessionOrder SessionRace SessionLife HalProxy HalThreads
    HalRuns HalFaults HalShared HalLocks HalSystem LockoutWidth Services
begin

text \<open>
  Verification of the device services of the Nothing Phone (2), code name Pong.

  \<^bold>\<open>The program.\<close> The repository holds the C++ services that sit between Android's framework and
  the phone's kernel drivers and vendor libraries:

  \<^item> the LTPO control HAL (\<^verbatim>\<open>src/aidl/display/ltpo\<close>): chooses the panel refresh rate,
  \<^item> the charging control HAL (\<^verbatim>\<open>src/health\<close>): switches charging through two sysfs nodes,
  \<^item> the vibrator HAL (\<^verbatim>\<open>src/aidl/vibrator\<close>): plays effects through the AAC RichTap library,
  \<^item> the fingerprint HAL (\<^verbatim>\<open>src/fingerprint\<close>): a service that opens the legacy fingerprint module,
    creates sessions, counts failed attempts and drives the under-display illumination,
  \<^item> the sensors multi-HAL (\<^verbatim>\<open>src/hidl/sensors\<close>): a proxy that merges the sensors of several
    sub-HALs, and one own sub-HAL with three gesture sensors.

  The services are processes of their own and share no state. Inside the fingerprint HAL the
  service calls the session, the session the lockout tracker, and notifications of the module run
  the other way. Inside the sensors HAL the framework calls the proxy, the proxy the sub-HAL, the
  sub-HAL its sensors; events go from a sensor's thread through the sub-HAL and the proxy's
  callback into the proxy's queues.

  \<^bold>\<open>The theories.\<close>

  \<^item> \<open>Prelude\<close>: word types, binder results, the locale \<open>op_system\<close> (a transition function and an
    invariant it keeps), the locale \<open>winding_down\<close> (a thread that leaves its loop after a bounded
    number of its own turns, whatever the others do), decimal output and input, and ordered maps \<open>om_find\<close>, \<open>om_put\<close>, \<open>om_erase\<close>
    for \<^verbatim>\<open>std::map\<close>, specified by the locale \<open>ordered_store\<close>.
  \<^item> \<open>Ltpo\<close>: \<^verbatim>\<open>LtpoControl\<close>. The record holds the members and the values the skip-frame node
    accepted; \<open>setEnabled\<close>, \<open>setTargetHz\<close>, \<open>onIdle\<close>, \<open>onActive\<close> are its operations. Shown: the rate
    answered on every branch against the specification \<open>the least supported rate not below the target\<close>, that
    \<open>mCurrentHz\<close> follows the node, and that a full-rate request holds for 200 ms.
  \<^item> \<open>Charging\<close>: \<^verbatim>\<open>ChargingControl\<close>; the success condition and what both nodes hold afterwards.
  \<^item> \<open>Vibrator\<close>: \<^verbatim>\<open>Vibrator\<close> with the \<^verbatim>\<open>aac_vibra_*\<close> calls as a log. Shown: the exact calls of
    \<open>on\<close>, \<open>off\<close> and \<open>perform\<close> on every branch, the set of accepted effects, the behaviour of a rapid burst,
    and bounds of the bit-exact \<^verbatim>\<open>float\<close> conversion of amplitudes.
  \<^item> \<open>Lockout\<close>: \<^verbatim>\<open>LockoutTracker\<close>, its counter and times as integers; the locale
    \<open>attempt_limiter\<close> states the contract (thresholds of a counter) and is interpreted on it.
  \<^item> \<open>LockoutWidth\<close>: the same tracker with a 32-bit counter and 64-bit times. It computes what \<open>Lockout\<close>
    computes below \<open>2^31\<close> failed attempts since the last reset; a permanent lockout outlives the
    wrap-around of the counter.
  \<^item> \<open>FpVendor\<close>: the message codes of \<^verbatim>\<open>fingerprint.h\<close>, the filters of \<^verbatim>\<open>Session.cpp\<close> and the token
    translations of \<^verbatim>\<open>Legacy2Aidl.h\<close>, with the round trip of tokens.
  \<^item> \<open>Session\<close>: \<^verbatim>\<open>Session\<close> and \<^verbatim>\<open>CancellationSignal\<close>. \<open>session_step\<close> is one atomic action: a binder
    call, a worker task, a notification of the module, the wake-up of the lockout timer, or the
    death of the client. Calls into the module, node writes and callbacks are outputs in order.
    Invariants and the lockout properties hold for every sequence of steps.
  \<^item> \<open>SessionOrder\<close>: the worker's queue as an abstract FIFO of tasks, what the binder threads do
    themselves, what a full queue loses, and what is reported or released twice.
  \<^item> \<open>SessionRace\<close>: the lockout check statement by statement, on the module's and the worker's thread
    and against the timer. An uninterrupted check is the atomic one; checks one at a time keep the
    timer flag right; a timer that ends too early leaves it set for good.
  \<^item> \<open>Fingerprint\<close>: the service \<^verbatim>\<open>Fingerprint\<close> around its sessions as an inductive relation with
    reachable states: at most one open session, routing of notifications, a fresh tracker per session.
  \<^item> \<open>SessionLife\<close>: how long session objects live. The references of the service and of the framework
    keep a session; tasks, timers and cancellation signals only point to it. Shown: exactly when a
    destroyed session is used, and what a framework has to do so that none ever is.
  \<^item> \<open>Udfps\<close>: the three functions of the UDFPS extension.
  \<^item> \<open>SensorTypes\<close>: events, sensor descriptions, and the interface \<open>sub_hal_ops\<close> through which the
    proxy calls a sub-HAL; the locale \<open>mode_switching\<close> is what the proxy relies on.
  \<^item> \<open>Sensor\<close>: \<^verbatim>\<open>Sensor.cpp\<close>, the class hierarchy and the run threads. The locales \<open>one_shot\<close> and
    \<open>gesture_sensor\<close> state what the classes share; they are interpreted on the UDFPS, single-tap and
    double-tap sensor. Shown: one event per activation, the driver node follows the enabled flag,
    the coordinates reported.
  \<^item> \<open>SensorStart\<close>: the construction of a sensor while its thread already runs. A thread that enters
    \<^verbatim>\<open>run\<close> in time makes no difference; one that overtakes the constructors stays in \<^verbatim>\<open>Sensor::run\<close>.
  \<^item> \<open>SubHal\<close>: \<^verbatim>\<open>SensorsSubHal\<close>; its operations instantiate \<open>sub_hal_ops\<close> and satisfy
    \<open>mode_switching\<close>.
  \<^item> \<open>HalHandles\<close>: the packing of a sub-HAL index into a 32-bit handle.
  \<^item> \<open>HalEvents\<close>: the pending queue, the writer thread and the shared wakelock of \<^verbatim>\<open>HalProxy.cpp\<close>,
    refining an abstract FIFO stream of events; the wakelock against its reference count.
  \<^item> \<open>HalThreads\<close>: the same threads with the sleep and wake-up of their condition variables. Every
    run refines the steps of \<open>HalEvents\<close>; stopping terminates, except for a notification that is lost.
  \<^item> \<open>HalCallback\<close>: \<^verbatim>\<open>HalProxyCallback.cpp\<close>; the locale \<open>event_sink\<close> is what it relies on, interpreted
    on the queue of \<open>HalEvents\<close>; the life of a scoped wakelock around a post.
  \<^item> \<open>HalProxy\<close>: the rest of \<^verbatim>\<open>HalProxy.cpp\<close>: configuration, sensor lists, calls routed by handle,
    operation modes, direct channels, dynamic sensors, both variants of \<^verbatim>\<open>initialize\<close>. There
    \<open>join_threads\<close> runs the threads to their end, which \<open>HalThreads\<close> shows they reach unless a
    notification is lost.
  \<^item> \<open>HalRuns\<close>: runs of the whole proxy, framework calls, callbacks and threads in any order, and
    its well-formedness through them.
  \<^item> \<open>HalFaults\<close>: the pointers of the proxy that may be null; exactly which steps dereference one, and
    that none does after an initialisation with a callback and an event flag.
  \<^item> \<open>HalShared\<close>: the sub-HALs as objects behind pointers. At distinct addresses they can be taken as
    values, as the other theories do; a library named twice reports under the wrong handles. The
    configuration of the device names each of its two libraries once.
  \<^item> \<open>HalLocks\<close>: what each piece of the sensors HAL locks and joins. The locale \<open>lock_discipline\<close>
    (programs that take mutexes in increasing rank) is interpreted on it: no interleaving deadlocks.
  \<^item> \<open>HalSystem\<close>: the sensors HAL as one system: the proxy, the gesture sub-HAL with the threads of its
    sensors, and sub-HALs of other vendors of which only their handles are known; posts proceed
    statement by statement. Its steps can be run by \<open>hal_exec\<close>. Shown: under the
    handle of a gesture sensor the framework gets at most one event per activation of that sensor.
  \<^item> \<open>Services\<close>: the six \<^verbatim>\<open>main\<close> functions: registration, failure, and the threads that run calls.
  \<^item> this theory: properties from the framework's call to the sensor, from the sensor back to the
    framework, and from the configuration file to the sensor list.

  \<^bold>\<open>Conventions.\<close> C++ integers are words of their width where arithmetic on them matters. Objects are
  records, calls are functions from a state to a result and a state. Answers of the kernel, the
  clock, system properties and libraries are arguments (records \<open>..._env\<close>), so a theorem holds for
  every behaviour of them, except where it names a hypothesis such as \<open>consts_documented\<close>, the
  documented numbers of the HIDL constants. Code under a lock is one atomic step; where a thread
  gives up the lock the step ends, and theorems quantify over all sequences of steps.

  \<^bold>\<open>Bounds and termination.\<close> Every function is total and no fuel is used; the three recursions that
  are not structural (decimal output, the normalisation shift of a \<^verbatim>\<open>float\<close>, and splitting the
  configuration into words) have a decreasing argument. Bounds in theorems come from the code: 128 sub-HAL indices are the ones
  whose handles are not negative, \<open>2^24\<close> is where integers are exact as \<^verbatim>\<open>float\<close>.

  \<^bold>\<open>Not modelled.\<close> \<^verbatim>\<open>HalProxy.h\<close>, \<^verbatim>\<open>ScopedWakelock\<close>, \<^verbatim>\<open>WorkerThread\<close>, the message queues of
  libfmq and the fingerprint module are not part of the repository: their answers are inputs, their
  limits parameters, and where a theorem needs more of them it names the documented behaviour.
  Mutexes inside the sub-HALs of other vendors are outside the model. Log output is left out. Headers that only declare functions have no definition of their own. Build files,
  overlays and init scripts are data.
\<close>

section \<open>The gesture sensors behind the multi-HAL proxy\<close>

text \<open>Which sensors an own sub-HAL has: exactly the handles 1, 2 and 3.\<close>

lemma own_sensor_handles:
  assumes "subhal_inv K (subhal_infos K uninit) sh"
  shows "om_find (sh_mSensors sh) h = None \<longleftrightarrow> h \<notin> {1, 2, 3}"
proof -
  have "map sensorHandle (SubHal_getSensorsList sh) = map sensorHandle (subhal_infos K uninit)"
    using assms by (simp only: subhal_inv_def)
  then have "map (\<lambda>p. sensorHandle (mSensorInfo (snd p))) (sh_mSensors sh) = [1, 2, 3]"
    by (simp add: SubHal_getSensorsList_def subhal_infos_def o_def)
  moreover have "map (\<lambda>p. sensorHandle (mSensorInfo (snd p))) (sh_mSensors sh) = map fst (sh_mSensors sh)"
    using assms by (auto simp: subhal_inv_def list_all_iff sensor_ok_def)
  ultimately have "fst ` set (sh_mSensors sh) = {1, 2, 3}"
    by (metis list.set(1) list.simps(15) list.set_map)
  then show ?thesis
    by (simp add: om_find_def map_of_eq_None_iff)
qed

text \<open>
  C17. From the framework's call to the sensor: activating the handle that the proxy lists for
  sensor \<open>h\<close> of the gesture sub-HAL at index \<open>i\<close> returns \<open>OK\<close> and leaves exactly that sensor in the
  requested state, every other sensor and every other sub-HAL as they were; any other own handle
  is refused with \<open>BAD_VALUE\<close> and no sensor changes. This holds in every state the sub-HAL can
  reach.
\<close>

theorem proxy_activates_sensor:
  assumes "M = 0xFF000000" and "subHalIndexIsClear M h" and "i < 128" "i < length (mSubHalList s)"
    and "consts_documented K"
    and "mSubHalList s ! i = foldl (subhal_step K) (SensorsSubHal_ctor K uninit o1 o2 o3) ops"
    and "activate (SUB_HAL_OPS K env) M (setSubHalIndex h i) b s = (r, s')"
  shows "r = (if h \<in> {1, 2, 3} then OK else BAD_VALUE) \<and>
    (\<forall>j. j \<noteq> i \<longrightarrow> mSubHalList s' ! j = mSubHalList s ! j) \<and>
    (\<forall>h'. om_find (sh_mSensors (mSubHalList s' ! i)) h' =
       (if h' = h \<and> h \<in> {1, 2, 3}
        then map_option (v_activate env b) (om_find (sh_mSensors (mSubHalList s ! i)) h)
        else om_find (sh_mSensors (mSubHalList s ! i)) h')) \<and>
    (\<forall>t. om_find (sh_mSensors (mSubHalList s' ! i)) h = Some t \<longrightarrow> mIsEnabled t = b)"
proof -
  let ?sh = "mSubHalList s ! i"
  have inv: "subhal_inv K (subhal_infos K uninit) ?sh"
    unfolding assms(6) by (rule subhal_runs.run_inv[OF subhal_ctor_inv[OF assms(5)]])
  have M: "M = first_byte" using assms(1) by (simp add: first_byte_def)
  have "extractSubHalIndex (setSubHalIndex h i) = i" "clearSubHalIndex M (setSubHalIndex h i) = h"
    using assms(2,3) extract_set[of h i] setSubHalIndex_clear[of h i] by (simp_all add: M)
  then have s': "r = fst (SubHal_activate env h b ?sh)"
    "mSubHalList s' = (mSubHalList s)[i := snd (SubHal_activate env h b ?sh)]"
    using assms(4,7)
    by (auto simp: activate_def isSubHalIndexValid_def on_sub_hal_def SUB_HAL_OPS_def case_prod_beta)
  have sorted: "om_sorted (sh_mSensors ?sh)" using inv by (simp add: subhal_inv_def)
  note spec = SubHal_activate_spec[OF sorted, where h = h and env = env and b = b]
  show ?thesis
  proof (cases "om_find (sh_mSensors ?sh) h")
    case None
    then have "h \<notin> {1, 2, 3}" using own_sensor_handles[OF inv] by blast
    with None spec show ?thesis using s' assms(4) by auto
  next
    case (Some t)
    then have "h \<in> {1, 2, 3}" using own_sensor_handles[OF inv, of h] by auto
    with Some spec show ?thesis using s' assms(4) by (auto simp: v_activate_enables)
  qed
qed

definition gesture_hal :: subhal where
  "gesture_hal = SensorsSubHal_ctor android_consts SensorInfo_zero open_example open_example open_example"

theorem proxy_activates_sensor_witness:
  "fst (activate (SUB_HAL_OPS android_consts sensor_example_env) 0xFF000000 (setSubHalIndex 2 1) True
     (proxy_example [gesture_hal, gesture_hal])) = OK \<and>
   fst (activate (SUB_HAL_OPS android_consts sensor_example_env) 0xFF000000 (setSubHalIndex 9 1) True
     (proxy_example [gesture_hal, gesture_hal])) = BAD_VALUE"
proof -
  let ?s = "proxy_example [gesture_hal, gesture_hal]"
  let ?ops = "SUB_HAL_OPS android_consts sensor_example_env"
  have "mSubHalList ?s ! 1 = foldl (subhal_step android_consts)
      (SensorsSubHal_ctor android_consts SensorInfo_zero open_example open_example open_example) []"
    by (simp add: gesture_hal_def)
  note act = proxy_activates_sensor[OF refl _ _ _ android_consts_documented this,
      where env = sensor_example_env and b = True]
  have "fst (activate ?ops 0xFF000000 (setSubHalIndex h 1) True ?s) = (if h \<in> {1, 2, 3} then OK else BAD_VALUE)"
    if "h \<in> {2, 9}" for h
    using act[of h "fst (activate ?ops 0xFF000000 (setSubHalIndex h 1) True ?s)"
        "snd (activate ?ops 0xFF000000 (setSubHalIndex h 1) True ?s)"] that
    by (auto simp: subHalIndexIsClear_def)
  from this[of 2] this[of 9] show ?thesis by simp
qed

lemma gesture_info_type:
  assumes "ctor \<in> gesture_ctors" and "consts_documented K"
  shows "info_type (mSensorInfo (ctor K uninit o' h)) \<noteq> PICK_UP_GESTURE K"
  using assms by (auto simp: gesture_ctors_def consts_documented_def ctor_defs)

text \<open>
  C16. From the sensor to the framework: a report of a gesture sensor, handed by the sub-HAL at index
  \<open>i\<close> to its callback, arrives at the end of the framework's event stream with the sensor's tagged
  handle, raises the wakelock count by one, and meets the assertions of the callback. The event
  is neither filtered as a pick-up report nor missed as a wake-up event, provided the proxy lists
  the sensor as the sub-HAL declared it and the event fits.
\<close>

theorem tap_reaches_framework:
  assumes "consts_documented K" and "ctor \<in> gesture_ctors"
    and "snsr = foldl (sensor_step K) (ctor K uninit o' h) ops" and "(evs, wakeup) \<in> set (posted snsr)"
    and "mCallback sh = Some i" and "SubHal_postEvents evs wakeup sh = Some calls"
    and "info (setSubHalIndex h i) = (mSensorInfo snsr)\<lparr>sensorHandle := setSubHalIndex h i\<rparr>"
    and "pending_inv L s" "mThreadsRun s" "fits L env (map (tag i) evs) s"
    and "postEvents L K info True i env evs wakeup s = (assert_ok, s')"
  shows "calls = [CreateScopedWakelock True, CallbackPostEvents evs True] \<and> assert_ok \<and>
    stream s' = stream s @ map (tag i) evs \<and> map ev_handle (map (tag i) evs) = [setSubHalIndex h i] \<and>
    mWakelockRefCount s' = mWakelockRefCount s + 1"
proof -
  note c = ctor_facts[OF assms(2,1), of uninit o' h]
  note run = sensor_run_budget[OF c(1,2), of ops, folded assms(3), unfolded Let_def]
  have own: "own_post K (ctor K uninit o' h) (evs, wakeup)" and static: "mSensorInfo snsr = mSensorInfo (ctor K uninit o' h)"
    using run c(4) assms(4) by (auto simp: list_all_iff)
  then obtain e where e: "evs = [e]" "ev_handle e = h" and w: "wakeup"
    using c(3,6) by (auto simp: own_post_def)
  have fl: "wakes K info (tag i e)" "kept K info (tag i e)"
    using c(3) gesture_info_type[OF assms(2,1), of uninit o' h] e(2) assms(7)
    by (simp_all add: wakes_def kept_def tag_def static isWakeUpSensor_def)
  have "stream s' = stream s @ filter (kept K info) (map (tag i) evs) \<and>
    mWakelockRefCount s' = mWakelockRefCount s +
      (if wakeup then length (filter (\<lambda>e. kept K info e \<and> wakes K info e) (map (tag i) evs)) else 0)"
    by (rule stream_and_count[OF assms(8,9) _ _ assms(11)])
      (use fl e assms(10) in simp_all)
  moreover have "assert_ok"
    using assms(11) fl e(1) w by (simp add: postEvents_def processEvents_spec)
  ultimately show ?thesis
    using e fl w assms(5,6) by (auto simp: SubHal_postEvents_def tag_def)
qed

theorem tap_reaches_framework_witness:
  "\<exists>evs s'. (evs, True) \<in> set (posted tapped) \<and>
     postEvents limits_example android_consts (\<lambda>k. (mSensorInfo tapped)\<lparr>sensorHandle := k\<rparr>) True 1
       (ev_example 5 4) evs True idle_proxy = (True, s') \<and>
     map ev_handle (stream s') = [0x01000002] \<and> mWakelockRefCount s' = 1"
proof -
  let ?info = "\<lambda>k. (mSensorInfo tapped)\<lparr>sensorHandle := k\<rparr>"
  obtain e where p: "posted tapped = [([e], True)]" by (simp add: tapped_posted)
  obtain ok s' where r: "postEvents limits_example android_consts ?info True 1 (ev_example 5 4) [e] True
      idle_proxy = (ok, s')" by fastforce
  have "fits limits_example (ev_example 5 4) (map (tag 1) [e]) idle_proxy"
    by (simp add: fits_def num_to_write_def idle_proxy_def limits_example_def ev_example_def)
  then have "[CreateScopedWakelock True, CallbackPostEvents [e] True] =
        [CreateScopedWakelock True, CallbackPostEvents [e] True] \<and> ok \<and>
      stream s' = stream idle_proxy @ map (tag 1) [e] \<and>
      map ev_handle (map (tag 1) [e]) = [setSubHalIndex 2 1] \<and>
      mWakelockRefCount s' = mWakelockRefCount idle_proxy + 1"
    by (intro tap_reaches_framework[where K = android_consts and ctor = SingleTapSensor_ctor
          and snsr = tapped and uninit = SensorInfo_zero and o' = open_example and h = 2 and ops = tap_run
          and sh = "gesture_hal\<lparr>mCallback := Some 1\<rparr>" and info = ?info and L = limits_example
          and env = "ev_example 5 4", OF android_consts_documented _ tapped_def _ _ _ _ idle_proxy_inv _ _ r])
      (simp_all add: gesture_ctors_def p SubHal_postEvents_def, simp add: idle_proxy_def)
  then have "ok" "map ev_handle (stream s') = [0x01000002]" "mWakelockRefCount s' = 1"
    by (simp_all add: idle_proxy_def stream_def delivered_def setSubHalIndex_def
        kBitsAfterSubHalIndex_def)
  then show ?thesis
    using p r by auto
qed

text \<open>The gesture library is accepted when it is found and exports only its own entry point.\<close>

lemma gesture_library_loads:
  assumes "getHandleForSubHalSharedObject (dlopen E) file = Some lib" and "sensorsHalGetSubHal E lib = None"
    and "sensorsHalGetSubHal_2_1 E lib = Some (get_gesture_sub_hal (SUB_HAL_2_1_VERSION E) K uninit o1 o2 o3)"
  shows "load_sub_hal E file = [SensorsSubHal_ctor K uninit o1 o2 o3]"
  using assms by (simp add: load_sub_hal_def get_gesture_sub_hal_def)

lemma gesture_declared_keys:
  assumes "M = 0xFF000000" "consts_documented K" and "i < length hals"
    and "op_getSensorsList ops (hals ! i) = Some (SubHal_getSensorsList (SensorsSubHal_ctor K uninit o1 o2 o3))"
  shows "declared_keys ops M hals i = {setSubHalIndex 1 i, setSubHalIndex 2 i, setSubHalIndex 3 i}"
proof -
  have "SubHal_getSensorsList (SensorsSubHal_ctor K uninit o1 o2 o3) = subhal_infos K uninit"
    using subhal_ctor_inv[OF assms(2)] by (simp add: subhal_inv_def)
  then have h: "sensorHandle ` set (SubHal_getSensorsList (SensorsSubHal_ctor K uninit o1 o2 o3)) = {1, 2, 3}"
    by (simp add: subhal_infos_def)
  have "declared_keys ops M hals i = (\<lambda>h. setSubHalIndex h i) ` {h \<in> {1, 2, 3}. subHalIndexIsClear M h}"
    unfolding declared_keys_def assms(4) option.case h[symmetric] by auto
  also have "{h \<in> {1, 2, 3}. subHalIndexIsClear M h} = {1, 2, 3}"
    using assms(1) by (auto simp: subHalIndexIsClear_def)
  finally show ?thesis by simp
qed

text \<open>
  C18. From the configuration file to the sensor list: after construction the proxy holds the
  sub-HALs of the libraries that loaded, in the order of the file; where the gesture library is at
  position \<open>i\<close> of them, the sensors listed for that position are exactly its three, under their
  own handles tagged with \<open>i\<close>. Libraries that fail to load take no position.
\<close>

theorem configured_gestures_listed:
  assumes "M = 0xFF000000" "consts_documented K" and "fresh_proxy L s0"
    and "s = HalProxy_ctor E ops K M (Some text) s0"
    and "concat (map (load_sub_hal E) (config_words text)) = hals" "length hals \<le> 128" "i < length hals"
    and "op_getSensorsList ops (hals ! i) = Some (SubHal_getSensorsList (SensorsSubHal_ctor K uninit o1 o2 o3))"
  shows "mSubHalList s = hals \<and>
    {k \<in> fst ` set (mSensors s). extractSubHalIndex k = i} = {setSubHalIndex 1 i, setSubHalIndex 2 i, setSubHalIndex 3 i}"
proof -
  let ?t = "initializeSubHalListFromConfigFile E (Some text) s0"
  have t: "mSubHalList ?t = hals" "mSensors ?t = om_empty"
    using assms(3,5) by (simp_all add: initializeSubHalList_eq configured_def fresh_proxy_def)
  have s: "s = foldl (load_sub ops K M) ?t [0..<length hals]"
    by (simp add: assms(4) HalProxy_ctor_def HalProxy_init_def initializeSensorList_def load_sub_def[abs_def] t)
  have "list_inv ops K M ?t"
    using t by (simp add: list_inv_def om_empty_def om_sorted_def)
  then have keys: "mSubHalList s = hals" "fst ` set (mSensors s) = (\<Union>j < length hals. declared_keys ops M hals j)"
    using load_subs_inv[of ops K M ?t "[0..<length hals]"] t
    by (auto simp: s om_empty_def atLeast0LessThan)
  have "extractSubHalIndex k = j" if "k \<in> declared_keys ops M hals j" "j < length hals" for k j
    using that assms(1,6) extract_set[of _ j] by (auto simp: declared_keys_def first_byte_def split: option.splits)
  then have "{k \<in> fst ` set (mSensors s). extractSubHalIndex k = i} = declared_keys ops M hals i"
    using assms(7) by (auto simp: keys(2))
  then show ?thesis
    using keys(1) gesture_declared_keys[OF assms(1,2,7,8)] by simp
qed

definition gesture_lib :: "(subhal, string) lib_env" where
  "gesture_lib = \<lparr>dlopen = (\<lambda>f. if f = ''/vendor/lib64/hw/g.so'' then Some f else None),
     sensorsHalGetSubHal = (\<lambda>l. None), sensorsHalGetSubHal_2_1 =
       (\<lambda>l. Some (get_gesture_sub_hal 7 android_consts SensorInfo_zero open_example open_example open_example)),
     SUB_HAL_2_0_VERSION = 6, SUB_HAL_2_1_VERSION = 7\<rparr>"

theorem configured_gestures_listed_witness:
  "{k \<in> fst ` set (mSensors (HalProxy_ctor gesture_lib (SUB_HAL_OPS android_consts sensor_example_env)
      android_consts 0xFF000000 (Some ''a.so g.so'') (proxy_example []))). extractSubHalIndex k = 0} = {1, 2, 3}"
proof -
  have fresh: "fresh_proxy limits_example (proxy_example [])"
    using idle_proxy_inv
    by (simp add: fresh_proxy_def pending_inv_def proxy_example_def proxy_events.defs
        proxy.defs idle_proxy_def om_empty_def)
  have load: "concat (map (load_sub_hal gesture_lib) (config_words ''a.so g.so'')) = [gesture_hal]"
    by (simp add: config_words.simps is_blank_def load_sub_hal_def gesture_lib_def gesture_hal_def
        get_gesture_sub_hal_def getHandleForSubHalSharedObject_def kSubHalShareObjectLocations_def Let_def)
  have "op_getSensorsList (SUB_HAL_OPS android_consts sensor_example_env) ([gesture_hal] ! 0) =
      Some (SubHal_getSensorsList
        (SensorsSubHal_ctor android_consts SensorInfo_zero open_example open_example open_example))"
    by (simp add: SUB_HAL_OPS_def gesture_hal_def)
  from configured_gestures_listed[OF refl android_consts_documented fresh refl load _ _ this]
  show ?thesis by (simp add: setSubHalIndex_def)
qed

end
